(* ===== verification/CC_Prelude.thy ===== *)
theory CC_Prelude
  imports Main "HOL-Library.Word"
begin

text \<open>
  Shared vocabulary of the CertiCore development: the integer types of \<open>libs/defs.h\<close>, the two
  build configurations, faults and the result type that every partial operation returns, the
  \<open>for (size_t p = 0; p < n; ++p)\<close> loop as one total recursive function, and the generic facts
  on words, lists and that loop which the component theories use.
\<close>

section \<open>Types\<close>

type_synonym u8 = "8 word"
type_synonym u32 = "32 word"
type_synonym u64 = "64 word"
type_synonym size_t = u64
type_synonym uintptr_t = u64

text \<open>
  The tree is compiled in two configurations: \<open>make verify\<close> passes \<open>-DIS_VERIF=TRUE\<close>, a plain
  \<open>make\<close> does not.
\<close>

datatype build = Verif | Kernel

text \<open>
  What stops a computation: an access outside the object it addresses, a shift whose count is not
  below the width, a call through a null function pointer, an endless loop or recursion, or \<open>panic\<close>
  with its format string.
\<close>

datatype fault = OutOfBounds | BadShift | NullCall | NoReturn | Panic string

type_synonym 'a res = "fault + 'a"

definition res_bind :: "'a res \<Rightarrow> ('a \<Rightarrow> 'b res) \<Rightarrow> 'b res" where
  "res_bind m f = (case m of Inl e \<Rightarrow> Inl e | Inr x \<Rightarrow> f x)"

named_theorems res_simps \<open>equations of the result type\<close>
named_theorems mm_simps \<open>equations of the page flags and of the page array\<close>

lemma res_bind_Inl [simp, res_simps]: "res_bind (Inl e) f = Inl e"
  by (simp add: res_bind_def)

lemma res_bind_Inr [simp, res_simps]: "res_bind (Inr x) f = f x"
  by (simp add: res_bind_def)

lemma res_bind_Inr_conv:
  "res_bind m f = Inr y \<longleftrightarrow> (\<exists>x. m = Inr x \<and> f x = Inr y)"
  by (cases m) simp_all

lemma res_bind_cong [fundef_cong]:
  "m = m' \<Longrightarrow> (\<And>x. m' = Inr x \<Longrightarrow> f x = f' x) \<Longrightarrow> res_bind m f = res_bind m' f'"
  by (cases m') simp_all

lemma res_bind_assoc: "res_bind (res_bind m f) g = res_bind m (\<lambda>x. res_bind (f x) g)"
  by (cases m) simp_all

section \<open>Words\<close>

lemma unat_u64_less: "unat (x :: u64) < 2 ^ 64"
  using unsigned_less [of x] by simp

lemma unat_u64_add:
  "unat (x :: u64) + unat y < 2 ^ 64 \<Longrightarrow> unat (x + y) = unat x + unat y"
  by (simp add: unat_word_ariths)

lemma unat_u64_sub: "(y :: u64) \<le> x \<Longrightarrow> unat (x - y) = unat x - unat y"
  by (rule unat_sub)

lemma unat_u64_Suc: "(p :: u64) < n \<Longrightarrow> unat (p + 1) = Suc (unat p)"
  using unat_u64_less [of n] by (simp add: unat_word_ariths word_less_nat_alt)

lemma unat_of_nat_u64: "k < 2 ^ 64 \<Longrightarrow> unat (of_nat k :: u64) = k"
  by (simp add: unat_of_nat)

lemma of_nat_unat_u64 [simp]: "(of_nat (unat x) :: u64) = x"
  by simp

text \<open>Counting a 64-bit variable down to 0.\<close>

lemma unat_pred: "0 < n \<Longrightarrow> unat n = Suc (unat (n - 1 :: u64))"
  using unat_minus_one [of n] by (simp add: word_gt_0 unat_gt_0)

lemma u64_countdown [case_names 0 step]:
  assumes "P 0" and step: "\<And>n. 0 < n \<Longrightarrow> unat n = Suc (unat (n - 1)) \<Longrightarrow> P (n - 1) \<Longrightarrow> P n"
  shows "P (n :: u64)"
proof (induction n rule: measure_induct_rule [of unat])
  case (less n)
  show ?case
  proof (cases "n = 0")
    case False
    then have "0 < n" by (simp add: word_gt_0)
    with unat_pred [of n] less [of "n - 1"] show ?thesis by (simp add: step)
  qed (simp add: assms(1))
qed

section \<open>Counted loops\<close>

text \<open>
  The body of a loop goes on with a new state, leaves the loop (\<open>break\<close>) or leaves the enclosing
  function (\<open>return\<close>).
\<close>

datatype ('s, 'r) ctl = Next 's | Break 's | Return 'r

function for_loop ::
  "u64 \<Rightarrow> u64 \<Rightarrow> (u64 \<Rightarrow> 's \<Rightarrow> ('s, 'r) ctl res) \<Rightarrow> 's \<Rightarrow> ('s, 'r) ctl res" where
  "for_loop p n body s =
     (if p < n
      then case body p s of
             Inl e \<Rightarrow> Inl e
           | Inr (Next s') \<Rightarrow> for_loop (p + 1) n body s'
           | Inr c \<Rightarrow> Inr c
      else Inr (Next s))"
  by pat_completeness auto
termination
  by (relation "measure (\<lambda>(p, n, body, s). unat n - unat p)")
     (auto simp: word_less_nat_alt unat_u64_Suc diff_less_mono2)

declare for_loop.simps [simp del]

text \<open>
  The invariant rule: an invariant indexed by the counter that every iteration keeps holds when
  the loop ends, and whatever a \<open>break\<close> or a \<open>return\<close> of an iteration gives is what the loop gives.
\<close>

lemma for_loop_rule:
  assumes init: "P p s" and le: "p \<le> n"
    and step: "\<And>q t. P q t \<Longrightarrow> q < n \<Longrightarrow>
      (case body q t of
         Inl e \<Rightarrow> Q (Inl e)
       | Inr (Next t') \<Rightarrow> P (q + 1) t'
       | Inr c \<Rightarrow> Q (Inr c))"
    and exit: "\<And>t. P n t \<Longrightarrow> Q (Inr (Next t))"
  shows "Q (for_loop p n body s)"
  using init le
proof (induction "unat n - unat p" arbitrary: p s)
  case 0
  then have "p = n" by (simp add: word_le_nat_alt word_unat_eq_iff)
  with 0 show ?case by (simp add: for_loop.simps exit)
next
  case (Suc k)
  then have less: "p < n" by (simp add: word_less_nat_alt)
  show ?case
  proof (cases "body p s")
    case (Inl e)
    with step [OF Suc.prems(1) less] less show ?thesis by (simp add: for_loop.simps)
  next
    case (Inr c)
    note st = step [OF Suc.prems(1) less]
    show ?thesis
    proof (cases c)
      case (Next t)
      have "Q (for_loop (p + 1) n body t)"
      proof (rule Suc.hyps(1))
        show "k = unat n - unat (p + 1)" using Suc.hyps(2) less by (simp add: unat_u64_Suc)
        show "P (p + 1) t" using st Inr Next by simp
        show "p + 1 \<le> n" using less by (simp add: unat_u64_Suc word_le_nat_alt word_less_nat_alt)
      qed
      with Inr Next less show ?thesis by (simp add: for_loop.simps [of p])
    qed (use st Inr less in \<open>simp_all add: for_loop.simps [of p]\<close>)
  qed
qed

text \<open>A loop whose body always goes on runs to its end.\<close>

lemma for_loop_Next:
  assumes "P p s" and "p \<le> n"
    and step: "\<And>q t. P q t \<Longrightarrow> q < n \<Longrightarrow> \<exists>t'. body q t = Inr (Next t') \<and> P (q + 1) t'"
  shows "\<exists>t. for_loop p n body s = Inr (Next t) \<and> P n t"
proof (rule for_loop_rule [where P = P, OF assms(1,2)])
  fix q t assume "P q t" and "q < n"
  then obtain t' where "body q t = Inr (Next t')" and "P (q + 1) t'" using step by blast
  then show "case body q t of
      Inl e \<Rightarrow> \<exists>t. Inl e = Inr (Next t) \<and> P n t
    | Inr (Next t') \<Rightarrow> P (q + 1) t'
    | Inr c \<Rightarrow> \<exists>t. Inr c = Inr (Next t) \<and> P n t" by simp
qed simp

text \<open>What follows a loop: the function's result after \<open>return\<close>, the code after the loop otherwise.\<close>

definition after_loop :: "('s, 'r) ctl res \<Rightarrow> ('r \<Rightarrow> 'a res) \<Rightarrow> ('s \<Rightarrow> 'a res) \<Rightarrow> 'a res" where
  "after_loop l ret k =
     res_bind l (\<lambda>c. case c of Return r \<Rightarrow> ret r | Next s \<Rightarrow> k s | Break s \<Rightarrow> k s)"

lemma after_loop_simps [simp, res_simps]:
  "after_loop (Inl e) ret k = Inl e"
  "after_loop (Inr (Return r)) ret k = ret r"
  "after_loop (Inr (Next s)) ret k = k s"
  "after_loop (Inr (Break s)) ret k = k s"
  by (simp_all add: after_loop_def)

end
