(* ===== verification/Atomic.thy ===== *)
theory Atomic
  imports CC_Prelude "HOL-Library.Signed_Division"
begin

unbundle bit_operations_syntax

text \<open>
  The bit operations of \<open>libs/atomic.h\<close> on an array of \<open>unsigned long\<close>. An address is the list of
  the words from it to the end of the object it points into. The two builds differ only in how
  the read-modify-write is emitted (one \<open>amo\<close> instruction, or plain C), so one definition models
  both. A bit number whose shift count would be negative, or at least 64 in \<open>test_bit\<close>, is
  undefined in C and is the fault \<open>BadShift\<close>; a word outside the object is \<open>OutOfBounds\<close>.
\<close>

section \<open>Operations\<close>

definition BITS_PER_LONG :: int where
  "BITS_PER_LONG = 64"

definition BIT_MASK :: "int \<Rightarrow> u64 res" where
  "BIT_MASK nr =
     (let k = nr smod BITS_PER_LONG
      in if 0 \<le> k then Inr (push_bit (nat k) 1) else Inl BadShift)"

definition BIT_WORD :: "int \<Rightarrow> int" where
  "BIT_WORD nr = nr sdiv BITS_PER_LONG"

definition word_at :: "u64 list \<Rightarrow> int \<Rightarrow> u64 res" where
  "word_at addr i =
     (if 0 \<le> i \<and> i < int (length addr) then Inr (addr ! nat i) else Inl OutOfBounds)"

text \<open>\<open>__op_bit(op, mod, nr, addr)\<close>: \<open>addr[BIT_WORD(nr)] = addr[BIT_WORD(nr)] op mod(BIT_MASK(nr))\<close>.\<close>

definition op_bit ::
  "(u64 \<Rightarrow> u64 \<Rightarrow> u64) \<Rightarrow> (u64 \<Rightarrow> u64) \<Rightarrow> int \<Rightarrow> u64 list \<Rightarrow> u64 list res" where
  "op_bit opr md nr addr =
     res_bind (BIT_MASK nr) (\<lambda>mask.
     res_bind (word_at addr (BIT_WORD nr)) (\<lambda>w.
       Inr (addr[nat (BIT_WORD nr) := opr w (md mask)])))"

text \<open>\<open>__test_and_op_bit\<close> also returns whether the bit was set before.\<close>

definition test_and_op_bit ::
  "(u64 \<Rightarrow> u64 \<Rightarrow> u64) \<Rightarrow> (u64 \<Rightarrow> u64) \<Rightarrow> int \<Rightarrow> u64 list \<Rightarrow> (bool \<times> u64 list) res" where
  "test_and_op_bit opr md nr addr =
     res_bind (BIT_MASK nr) (\<lambda>mask.
     res_bind (word_at addr (BIT_WORD nr)) (\<lambda>old.
       Inr (old AND mask \<noteq> 0, addr[nat (BIT_WORD nr) := opr old (md mask)])))"

definition NOP_bits :: "u64 \<Rightarrow> u64" where
  "NOP_bits x = x"

definition NOT_bits :: "u64 \<Rightarrow> u64" where
  "NOT_bits x = NOT x"

definition set_bit_c :: "int \<Rightarrow> u64 list \<Rightarrow> u64 list res" where
  "set_bit_c nr addr = op_bit (OR) NOP_bits nr addr"

definition clear_bit :: "int \<Rightarrow> u64 list \<Rightarrow> u64 list res" where
  "clear_bit nr addr = op_bit (AND) NOT_bits nr addr"

definition change_bit :: "int \<Rightarrow> u64 list \<Rightarrow> u64 list res" where
  "change_bit nr addr = op_bit (XOR) NOP_bits nr addr"

definition test_bit :: "int \<Rightarrow> u64 list \<Rightarrow> bool res" where
  "test_bit nr addr =
     res_bind (word_at addr 0) (\<lambda>w.
       if 0 \<le> nr \<and> nr < 64 then Inr (drop_bit (nat nr) w AND 1 \<noteq> 0) else Inl BadShift)"

definition test_and_set_bit :: "int \<Rightarrow> u64 list \<Rightarrow> (bool \<times> u64 list) res" where
  "test_and_set_bit nr addr = test_and_op_bit (OR) NOP_bits nr addr"

definition test_and_clear_bit :: "int \<Rightarrow> u64 list \<Rightarrow> (bool \<times> u64 list) res" where
  "test_and_clear_bit nr addr = test_and_op_bit (AND) NOT_bits nr addr"

lemmas bit_op_defs = set_bit_c_def clear_bit_def change_bit_def op_bit_def test_and_op_bit_def
  test_and_set_bit_def test_and_clear_bit_def NOP_bits_def NOT_bits_def

section \<open>What the operations do to single bits\<close>

text \<open>Bit \<open>nr\<close> of the array, counting from the first word as \<open>BIT_WORD\<close> and \<open>BIT_MASK\<close> do.\<close>

definition array_bit :: "u64 list \<Rightarrow> nat \<Rightarrow> bool" where
  "array_bit addr k \<longleftrightarrow> k div 64 < length addr \<and> bit (addr ! (k div 64)) (k mod 64)"

lemma BIT_MASK_nat [simp]: "BIT_MASK (int k) = Inr (2 ^ (k mod 64))"
proof -
  have "nat (int k mod 64) = k mod 64"
    by (simp add: nat_mod_as_int)
  then show ?thesis
    by (cases "k = 0") (simp_all add: BIT_MASK_def BITS_PER_LONG_def smod_int_alt_def)
qed

lemma BIT_WORD_nat [simp]: "BIT_WORD (int k) = int (k div 64)"
  by (cases "k = 0")
     (simp_all add: BIT_WORD_def BITS_PER_LONG_def signed_divide_int_def of_nat_div)

lemma word_at_nat [simp]:
  "word_at addr (int i) = (if i < length addr then Inr (addr ! i) else Inl OutOfBounds)"
  by (simp add: word_at_def)

lemma op_bit_nat:
  assumes "k div 64 < length addr"
  shows "op_bit opr md (int k) addr =
    Inr (addr[k div 64 := opr (addr ! (k div 64)) (md (2 ^ (k mod 64)))])"
  using assms by (simp add: op_bit_def)

lemma bit_ops_one_word:
  assumes "k < 64"
  shows "set_bit_c (int k) [w] = Inr [w OR 2 ^ k]"
    and "clear_bit (int k) [w] = Inr [w AND NOT (2 ^ k)]"
  using assms by (simp_all add: set_bit_c_def clear_bit_def op_bit_nat NOP_bits_def NOT_bits_def)

text \<open>
  One word update changes one bit of the array, when the new word differs from the old one in
  that bit only.
\<close>

lemma array_bit_update:
  assumes k: "k div 64 < length addr"
    and w: "\<And>j. j < 64 \<Longrightarrow> bit w j = (if j = k mod 64 then b else bit (addr ! (k div 64)) j)"
  shows "array_bit (addr[k div 64 := w]) j = (if j = k then b else array_bit addr j)"
proof (cases "j div 64 = k div 64")
  case True
  have "j = k" if "j mod 64 = k mod 64"
    using that True by (metis div_mult_mod_eq)
  then show ?thesis
    using k w [of "j mod 64"] True by (auto simp: array_bit_def)
next
  case False
  then show ?thesis by (auto simp: array_bit_def)
qed

lemma bit_mask_iff: "j < 64 \<Longrightarrow> bit (2 ^ m :: u64) j \<longleftrightarrow> j = m"
  by (auto simp: bit_exp_iff)

lemma set_bit_c_effect:
  assumes "k div 64 < length addr"
  shows "\<exists>addr'. set_bit_c (int k) addr = Inr addr' \<and> length addr' = length addr \<and>
    (\<forall>j. array_bit addr' j = (j = k \<or> array_bit addr j))"
proof -
  have "array_bit (addr[k div 64 := addr ! (k div 64) OR 2 ^ (k mod 64)]) j =
      (if j = k then True else array_bit addr j)" for j
    using assms by (rule array_bit_update) (auto simp: bit_or_iff bit_mask_iff)
  with assms show ?thesis by (auto simp: set_bit_c_def op_bit_nat NOP_bits_def)
qed

lemma clear_bit_effect:
  assumes "k div 64 < length addr"
  shows "\<exists>addr'. clear_bit (int k) addr = Inr addr' \<and> length addr' = length addr \<and>
    (\<forall>j. array_bit addr' j = (j \<noteq> k \<and> array_bit addr j))"
proof -
  have "array_bit (addr[k div 64 := addr ! (k div 64) AND NOT (2 ^ (k mod 64))]) j =
      (if j = k then False else array_bit addr j)" for j
    using assms by (rule array_bit_update) (auto simp: bit_and_iff bit_not_iff bit_mask_iff)
  with assms show ?thesis by (auto simp: clear_bit_def op_bit_nat NOT_bits_def)
qed

lemma change_bit_effect:
  assumes "k div 64 < length addr"
  shows "\<exists>addr'. change_bit (int k) addr = Inr addr' \<and> length addr' = length addr \<and>
    (\<forall>j. array_bit addr' j = (if j = k then \<not> array_bit addr k else array_bit addr j))"
proof -
  have "array_bit (addr[k div 64 := addr ! (k div 64) XOR 2 ^ (k mod 64)]) j =
      (if j = k then \<not> array_bit addr k else array_bit addr j)" for j
    using assms
    by (rule array_bit_update) (auto simp: bit_xor_iff bit_mask_iff array_bit_def assms)
  with assms show ?thesis by (auto simp: change_bit_def op_bit_nat NOP_bits_def)
qed

lemma test_bit_first_word:
  assumes "k < 64" and "addr \<noteq> []"
  shows "test_bit (int k) addr = Inr (array_bit addr k)"
  using assms
  by (simp add: test_bit_def word_at_def array_bit_def hd_conv_nth and_one_eq bit_iff_odd_drop_bit
      flip: odd_iff_mod_2_eq_one)

lemma test_and_op_bit_nat:
  assumes "k div 64 < length addr"
  shows "test_and_op_bit opr md (int k) addr =
    res_bind (op_bit opr md (int k) addr) (\<lambda>addr'. Inr (array_bit addr k, addr'))"
proof -
  have "(addr ! (k div 64) AND 2 ^ (k mod 64) \<noteq> 0) = bit (addr ! (k div 64)) (k mod 64)"
    by (simp add: and_exp_eq_0_iff_not_bit)
  with assms show ?thesis
    by (simp add: test_and_op_bit_def op_bit_nat array_bit_def)
qed

section \<open>The contract of a flag store\<close>

text \<open>
  What the users of the bit operations rely on: within the keys a store supports, \<open>set\<close> and
  \<open>clear\<close> succeed, change the flag they name and no other, and keep the supported keys.
\<close>

locale flag_store =
  fixes set_flag :: "'k \<Rightarrow> 'w \<Rightarrow> 'w res"
    and clear_flag :: "'k \<Rightarrow> 'w \<Rightarrow> 'w res"
    and test_flag :: "'k \<Rightarrow> 'w \<Rightarrow> bool res"
    and supports :: "'k \<Rightarrow> 'w \<Rightarrow> bool"
  assumes test_total: "supports k w \<Longrightarrow> \<exists>b. test_flag k w = Inr b"
    and set_law: "supports k w \<Longrightarrow> \<exists>w'. set_flag k w = Inr w' \<and>
      (\<forall>j. supports j w' = supports j w) \<and>
      (\<forall>j. supports j w \<longrightarrow> test_flag j w' = (if j = k then Inr True else test_flag j w))"
    and clear_law: "supports k w \<Longrightarrow> \<exists>w'. clear_flag k w = Inr w' \<and>
      (\<forall>j. supports j w' = supports j w) \<and>
      (\<forall>j. supports j w \<longrightarrow> test_flag j w' = (if j = k then Inr False else test_flag j w))"
begin

lemma set_then_test: "supports k w \<Longrightarrow> res_bind (set_flag k w) (test_flag k) = Inr True"
  using set_law [of k w] by auto

lemma clear_then_test: "supports k w \<Longrightarrow> res_bind (clear_flag k w) (test_flag k) = Inr False"
  using clear_law [of k w] by auto

lemma set_then_clear:
  assumes "supports k w" and "supports j w"
  shows "res_bind (set_flag k w) (\<lambda>w'. res_bind (clear_flag k w') (test_flag j)) =
    (if j = k then Inr False else test_flag j w)"
proof -
  from set_law [OF assms(1)] obtain w' where w': "set_flag k w = Inr w'"
    and sup: "\<forall>i. supports i w' = supports i w"
    and tst: "\<forall>i. supports i w \<longrightarrow> test_flag i w' = (if i = k then Inr True else test_flag i w)"
    by blast
  from sup assms(1) clear_law [of k w'] obtain w'' where "clear_flag k w' = Inr w''"
    and "\<forall>i. supports i w' \<longrightarrow> test_flag i w'' = (if i = k then Inr False else test_flag i w')"
    by blast
  with w' sup tst assms(2) show ?thesis by simp
qed

lemma other_flag_kept:
  assumes "supports k w" and "supports j w" and "j \<noteq> k"
  shows "res_bind (set_flag k w) (test_flag j) = test_flag j w"
    and "res_bind (clear_flag k w) (test_flag j) = test_flag j w"
  using assms set_law [of k w] clear_law [of k w] by auto

end

definition bit_supported :: "int \<Rightarrow> u64 list \<Rightarrow> bool" where
  "bit_supported nr addr \<longleftrightarrow> 0 \<le> nr \<and> nr < 64 \<and> addr \<noteq> []"

lemma test_bit_supported:
  "bit_supported nr addr \<Longrightarrow> test_bit nr addr = Inr (array_bit addr (nat nr))"
  using test_bit_first_word [of "nat nr" addr] by (simp add: bit_supported_def nat_less_iff)

interpretation word_bits: flag_store set_bit_c clear_bit test_bit bit_supported
proof
  fix nr addr
  assume sup: "bit_supported nr addr"
  then show "\<exists>b. test_bit nr addr = Inr b" by (simp add: test_bit_supported)
  from sup have nr: "nr = int (nat nr)" and k: "nat nr div 64 < length addr"
    by (auto simp: bit_supported_def)
  have step: "\<exists>addr'. f nr addr = Inr addr' \<and> (\<forall>j. bit_supported j addr' = bit_supported j addr) \<and>
      (\<forall>j. bit_supported j addr \<longrightarrow>
        test_bit j addr' = (if j = nr then Inr b else test_bit j addr))"
    if "\<exists>addr'. f (int (nat nr)) addr = Inr addr' \<and> length addr' = length addr \<and>
      (\<forall>j. array_bit addr' j = (if j = nat nr then b else array_bit addr j))" for f b
  proof -
    from that nr obtain addr' where f: "f nr addr = Inr addr'" and len: "length addr' = length addr"
      and bits: "\<forall>j. array_bit addr' j = (if j = nat nr then b else array_bit addr j)" by auto
    from len have "\<forall>j. bit_supported j addr' = bit_supported j addr"
      by (auto simp: bit_supported_def)
    with f bits sup show ?thesis
      by (auto simp: test_bit_supported) (auto simp: bit_supported_def)
  qed
  show "\<exists>addr'. set_bit_c nr addr = Inr addr' \<and>
      (\<forall>j. bit_supported j addr' = bit_supported j addr) \<and>
      (\<forall>j. bit_supported j addr \<longrightarrow>
        test_bit j addr' = (if j = nr then Inr True else test_bit j addr))"
    using set_bit_c_effect [OF k] by (intro step) auto
  show "\<exists>addr'. clear_bit nr addr = Inr addr' \<and>
      (\<forall>j. bit_supported j addr' = bit_supported j addr) \<and>
      (\<forall>j. bit_supported j addr \<longrightarrow>
        test_bit j addr' = (if j = nr then Inr False else test_bit j addr))"
    using clear_bit_effect [OF k] by (intro step) auto
qed

section \<open>Properties\<close>

text \<open>
  C33. \<open>set_bit\<close>, \<open>clear_bit\<close> and \<open>change_bit\<close> on an array of any length: they set, clear or toggle the
  bit they name and leave every other bit of every word as it was, and \<open>test_and_set_bit\<close> and
  \<open>test_and_clear_bit\<close> also return its old value.
\<close>

theorem bit_ops_change_one_bit:
  assumes "k div 64 < length addr"
  shows "\<exists>s c x. set_bit_c (int k) addr = Inr s \<and> clear_bit (int k) addr = Inr c \<and>
    change_bit (int k) addr = Inr x \<and>
    test_and_set_bit (int k) addr = Inr (array_bit addr k, s) \<and>
    test_and_clear_bit (int k) addr = Inr (array_bit addr k, c) \<and>
    (\<forall>j. array_bit s j = (j = k \<or> array_bit addr j)) \<and>
    (\<forall>j. array_bit c j = (j \<noteq> k \<and> array_bit addr j)) \<and>
    (\<forall>j. array_bit x j = (if j = k then \<not> array_bit addr k else array_bit addr j))"
  using set_bit_c_effect [OF assms] clear_bit_effect [OF assms] change_bit_effect [OF assms]
  by (auto simp: test_and_set_bit_def test_and_clear_bit_def test_and_op_bit_nat [OF assms]
      set_bit_c_def clear_bit_def)

theorem bit_ops_change_one_bit_witness:
  "set_bit_c 70 [5, 0] = Inr [5, 64] \<and>
   (\<exists>s c x. set_bit_c (int 70) [5, 0] = Inr s \<and> clear_bit (int 70) [5, 0] = Inr c \<and>
    change_bit (int 70) [5, 0] = Inr x \<and>
    test_and_set_bit (int 70) [5, 0] = Inr (array_bit [5, 0] 70, s) \<and>
    test_and_clear_bit (int 70) [5, 0] = Inr (array_bit [5, 0] 70, c) \<and>
    (\<forall>j. array_bit s j = (j = 70 \<or> array_bit [5, 0] j)) \<and>
    (\<forall>j. array_bit c j = (j \<noteq> 70 \<and> array_bit [5, 0] j)) \<and>
    (\<forall>j. array_bit x j = (if j = 70 then \<not> array_bit [5, 0] 70 else array_bit [5, 0] j)))"
proof
  show "set_bit_c 70 [5, 0] = Inr [5, 64]" by code_simp
qed (rule bit_ops_change_one_bit, simp)

text \<open>
  \<open>test_bit\<close> does not follow the addressing of the other operations: for a bit beyond the first
  word, \<open>set_bit\<close> succeeds and \<open>test_bit\<close> of the same bit shifts by more than the width of the word.
\<close>

theorem test_bit_first_word_only:
  assumes "64 \<le> k" and "k div 64 < length addr"
  shows "\<exists>addr'. set_bit_c (int k) addr = Inr addr' \<and> array_bit addr' k \<and>
    test_bit (int k) addr' = Inl BadShift"
proof -
  obtain addr' where a: "set_bit_c (int k) addr = Inr addr'" "length addr' = length addr"
    "array_bit addr' k" using set_bit_c_effect [OF assms(2)] by blast
  with assms have "addr' \<noteq> []" by auto
  then have "test_bit (int k) addr' = Inl BadShift"
    using assms(1) by (simp add: test_bit_def word_at_def)
  with a show ?thesis by blast
qed

theorem test_bit_first_word_only_witness:
  "\<exists>addr'. set_bit_c (int 64) [0, 0] = Inr addr' \<and> array_bit addr' 64 \<and>
    test_bit (int 64) addr' = Inl BadShift"
  by (rule test_bit_first_word_only) simp_all

end
