(* ===== verification/Memlayout.thy ===== *)
theory Memlayout
  imports Atomic
begin

text \<open>
  The memory layout of \<open>kern/mm/memlayout.h\<close> (constants, \<open>struct Page\<close> and its flag macros) and the
  global variables the page allocator works on: the array \<open>pages\<close> of \<open>kern/mm/pmm.c\<close> and the
  counter \<open>nr_free\<close> of \<open>kern/mm/default_pmm.c\<close>.
\<close>

section \<open>Constants\<close>

fun NPAGE :: "build \<Rightarrow> u64" where
  "NPAGE Verif = 0x0005"
| "NPAGE Kernel = 0x1000"

definition PGSIZE :: u64 where
  "PGSIZE = 4096"

definition PGSHIFT :: nat where
  "PGSHIFT = 12"

definition NULLPAGE :: u64 where
  "NULLPAGE = 0x23333333"

definition KERNEL_BEGIN_PADDR :: u64 where
  "KERNEL_BEGIN_PADDR = 0x80200000"

definition PHYSICAL_MEMORY_OFFSET :: u64 where
  "PHYSICAL_MEMORY_OFFSET = 0xFFFFFFFF40000000"

definition KERNBASE :: u64 where
  "KERNBASE = KERNEL_BEGIN_PADDR + PHYSICAL_MEMORY_OFFSET"

definition KMEMSIZE :: "build \<Rightarrow> u64" where
  "KMEMSIZE b = NPAGE b * PGSIZE"

definition KERNTOP :: "build \<Rightarrow> u64" where
  "KERNTOP b = KERNBASE + KMEMSIZE b"

definition KERNEL_MEMEND_PADDR :: "build \<Rightarrow> u64" where
  "KERNEL_MEMEND_PADDR b = KERNEL_BEGIN_PADDR + KMEMSIZE b"

definition NBASE :: u64 where
  "NBASE = drop_bit PGSHIFT KERNEL_BEGIN_PADDR"

definition KSTACKPAGE :: u64 where
  "KSTACKPAGE = 2"

definition KSTACKSIZE :: u64 where
  "KSTACKSIZE = KSTACKPAGE * PGSIZE"

lemmas layout_defs = PGSIZE_def PGSHIFT_def KERNEL_BEGIN_PADDR_def PHYSICAL_MEMORY_OFFSET_def
  KERNBASE_def KMEMSIZE_def KERNTOP_def KERNEL_MEMEND_PADDR_def NBASE_def KSTACKPAGE_def
  KSTACKSIZE_def

section \<open>Page descriptors\<close>

record Page =
  flags :: u64

record mm =
  pages :: "Page list"
  nr_free :: size_t

definition PG_reserved :: int where
  "PG_reserved = 0"

definition PG_allocated :: int where
  "PG_allocated = 1"

text \<open>
  \<open>&(pages[page].flags)\<close> is the address of an object of one word; an index outside the array is a
  fault.
\<close>

definition page_flags :: "size_t \<Rightarrow> mm \<Rightarrow> u64 list res" where
  "page_flags page m =
     (if unat page < length (pages m) then Inr [flags (pages m ! unat page)] else Inl OutOfBounds)"

definition store_page_flags :: "size_t \<Rightarrow> u64 list \<Rightarrow> mm \<Rightarrow> mm" where
  "store_page_flags page ws m =
     m\<lparr>pages := (pages m)[unat page := (pages m ! unat page)\<lparr>flags := hd ws\<rparr>]\<rparr>"

definition on_page_flags ::
  "(u64 list \<Rightarrow> u64 list res) \<Rightarrow> size_t \<Rightarrow> mm \<Rightarrow> mm res" where
  "on_page_flags f page m =
     res_bind (page_flags page m) (\<lambda>ws.
     res_bind (f ws) (\<lambda>ws'. Inr (store_page_flags page ws' m)))"

definition SetPageReserved :: "size_t \<Rightarrow> mm \<Rightarrow> mm res" where
  "SetPageReserved page m = on_page_flags (set_bit_c PG_reserved) page m"

definition ClearPageReserved :: "size_t \<Rightarrow> mm \<Rightarrow> mm res" where
  "ClearPageReserved page m = on_page_flags (clear_bit PG_reserved) page m"

definition PageReserved :: "size_t \<Rightarrow> mm \<Rightarrow> bool res" where
  "PageReserved page m = res_bind (page_flags page m) (test_bit PG_reserved)"

definition SetPageAllocated :: "size_t \<Rightarrow> mm \<Rightarrow> mm res" where
  "SetPageAllocated page m = on_page_flags (set_bit_c PG_allocated) page m"

definition ClearPageAllocated :: "size_t \<Rightarrow> mm \<Rightarrow> mm res" where
  "ClearPageAllocated page m = on_page_flags (clear_bit PG_allocated) page m"

definition PageAllocated :: "size_t \<Rightarrow> mm \<Rightarrow> bool res" where
  "PageAllocated page m = res_bind (page_flags page m) (test_bit PG_allocated)"

section \<open>Facts on the layout\<close>

lemma NPAGE_bounds: "0 < unat (NPAGE b)" "unat (NPAGE b) \<le> 4096"
  by (cases b; simp)+

lemma NPAGE_less_NULLPAGE: "unat (NPAGE b) < unat NULLPAGE"
  by (cases b) (simp_all add: NULLPAGE_def)

text \<open>Sums of two page counts do not wrap.\<close>

lemma unat_add_pages:
  "unat (x :: u64) \<le> 4096 \<Longrightarrow> unat (y :: u64) \<le> 4096 \<Longrightarrow> unat (x + y) = unat x + unat y"
  by (rule unat_u64_add) simp

section \<open>The flags of a page\<close>

text \<open>Page \<open>i\<close> read as two booleans.\<close>

definition reserved :: "mm \<Rightarrow> nat \<Rightarrow> bool" where
  "reserved m i \<longleftrightarrow> bit (flags (pages m ! i)) 0"

definition allocated :: "mm \<Rightarrow> nat \<Rightarrow> bool" where
  "allocated m i \<longleftrightarrow> bit (flags (pages m ! i)) 1"

definition available :: "mm \<Rightarrow> nat \<Rightarrow> bool" where
  "available m i \<longleftrightarrow> \<not> reserved m i \<and> \<not> allocated m i"

text \<open>The effect of a macro on the page it names: a function on the flag word.\<close>

definition set_rsv :: "u64 \<Rightarrow> u64" where
  "set_rsv w = w OR 1"

definition clr_rsv :: "u64 \<Rightarrow> u64" where
  "clr_rsv w = w AND NOT 1"

definition set_alc :: "u64 \<Rightarrow> u64" where
  "set_alc w = w OR 2"

definition clr_alc :: "u64 \<Rightarrow> u64" where
  "clr_alc w = w AND NOT 2"

definition upd_page :: "(u64 \<Rightarrow> u64) \<Rightarrow> nat \<Rightarrow> mm \<Rightarrow> mm" where
  "upd_page f i m = m\<lparr>pages := (pages m)[i := (pages m ! i)\<lparr>flags := f (flags (pages m ! i))\<rparr>]\<rparr>"

lemma on_page_flags_in_range:
  assumes "unat page < length (pages m)"
    and "\<And>w. f [w] = Inr [g w]"
  shows "on_page_flags f page m = Inr (upd_page g (unat page) m)"
  using assms by (simp add: on_page_flags_def page_flags_def store_page_flags_def upd_page_def)

lemma page_macros [mm_simps]:
  assumes "unat page < length (pages m)"
  shows "SetPageReserved page m = Inr (upd_page set_rsv (unat page) m)"
    and "ClearPageReserved page m = Inr (upd_page clr_rsv (unat page) m)"
    and "SetPageAllocated page m = Inr (upd_page set_alc (unat page) m)"
    and "ClearPageAllocated page m = Inr (upd_page clr_alc (unat page) m)"
  unfolding SetPageReserved_def ClearPageReserved_def SetPageAllocated_def ClearPageAllocated_def
    PG_reserved_def PG_allocated_def
  using bit_ops_one_word [of 0] bit_ops_one_word [of 1] assms
  by (auto intro!: on_page_flags_in_range simp: set_rsv_def clr_rsv_def set_alc_def clr_alc_def)

lemma flag_bits [mm_simps]:
  "bit (set_rsv w) 0 \<longleftrightarrow> True" "bit (set_rsv w) 1 \<longleftrightarrow> bit w 1"
  "bit (clr_rsv w) 0 \<longleftrightarrow> False" "bit (clr_rsv w) 1 \<longleftrightarrow> bit w 1"
  "bit (set_alc w) 0 \<longleftrightarrow> bit w 0" "bit (set_alc w) 1 \<longleftrightarrow> True"
  "bit (clr_alc w) 0 \<longleftrightarrow> bit w 0" "bit (clr_alc w) 1 \<longleftrightarrow> False"
  unfolding bit_and_iff bit_or_iff bit_not_iff set_rsv_def clr_rsv_def set_alc_def clr_alc_def
  using bit_mask_iff [of 0 1] bit_mask_iff [of 1 1] by (auto simp: bit_1_iff)

lemma page_tests [mm_simps]:
  assumes "unat page < length (pages m)"
  shows "PageReserved page m = Inr (reserved m (unat page))"
    and "PageAllocated page m = Inr (allocated m (unat page))"
  using assms test_bit_first_word [of 0 "[flags (pages m ! unat page)]"]
    test_bit_first_word [of 1 "[flags (pages m ! unat page)]"]
  by (simp_all add: PageReserved_def PageAllocated_def PG_reserved_def PG_allocated_def
      page_flags_def array_bit_def reserved_def allocated_def)


lemma upd_page_simps [simp]:
  "length (pages (upd_page f i m)) = length (pages m)"
  "nr_free (upd_page f i m) = nr_free m"
  by (simp_all add: upd_page_def)

text \<open>A page that a macro does not name keeps its flags; the page it names keeps the other flag.\<close>

lemma upd_page_flags:
  "i < length (pages m) \<Longrightarrow>
   flags (pages (upd_page f i m) ! j) = (if j = i then f (flags (pages m ! i)) else flags (pages m ! j))"
  by (simp add: upd_page_def)

section \<open>Loops over the page array\<close>

text \<open>A function on the flag words of the pages in \<open>[lo, hi)\<close>.\<close>

definition upd_range :: "(u64 \<Rightarrow> u64) \<Rightarrow> nat \<Rightarrow> nat \<Rightarrow> mm \<Rightarrow> mm" where
  "upd_range f lo hi m =
     m\<lparr>pages := map (\<lambda>i. if lo \<le> i \<and> i < hi
                          then (pages m ! i)\<lparr>flags := f (flags (pages m ! i))\<rparr> else pages m ! i)
                 [0..<length (pages m)]\<rparr>"

lemma upd_range_simps [simp]:
  "length (pages (upd_range f lo hi m)) = length (pages m)"
  "nr_free (upd_range f lo hi m) = nr_free m"
  by (simp_all add: upd_range_def)

lemma upd_range_flags:
  "i < length (pages m) \<Longrightarrow>
   flags (pages (upd_range f lo hi m) ! i) =
     (if lo \<le> i \<and> i < hi then f (flags (pages m ! i)) else flags (pages m ! i))"
  by (simp add: upd_range_def)

lemma upd_range_empty: "hi \<le> lo \<Longrightarrow> upd_range f lo hi m = m"
proof -
  assume "hi \<le> lo"
  then have "map (\<lambda>i. if lo \<le> i \<and> i < hi
      then (pages m ! i)\<lparr>flags := f (flags (pages m ! i))\<rparr> else pages m ! i) [0..<length (pages m)] =
      map ((!) (pages m)) [0..<length (pages m)]"
    by (auto intro: map_cong)
  then show ?thesis by (simp add: upd_range_def map_nth)
qed

lemma upd_range_Suc:
  assumes "lo \<le> hi" and "hi < length (pages m)"
  shows "upd_range f lo (Suc hi) m = upd_page f hi (upd_range f lo hi m)"
  using assms by (auto simp: upd_range_def upd_page_def intro!: mm.equality nth_equalityI
      simp: nth_list_update less_Suc_eq)

text \<open>\<open>base <= p && p < base + n\<close>, the guard of every loop body of the allocator.\<close>

definition in_block :: "size_t \<Rightarrow> size_t \<Rightarrow> size_t \<Rightarrow> bool" where
  "in_block base n p \<longleftrightarrow> base \<le> p \<and> p < base + n"

text \<open>
  A loop whose body applies a page macro to the pages of a block changes exactly these pages.
\<close>

lemma for_loop_pages:
  fixes m :: mm
  assumes len: "length (pages m) = unat N"
    and blk: "unat base + unat n \<le> unat N" and sum: "unat (base + n) = unat base + unat n"
    and macro: "\<And>p t. unat p < length (pages t) \<Longrightarrow> F p t = Inr (upd_page f (unat p) t)"
  shows "for_loop 0 N (\<lambda>p t. if in_block base n p
             then res_bind (F p t) (\<lambda>t'. Inr (Next t')) else Inr (Next t)) m =
    (Inr (Next (upd_range f (unat base) (unat base + unat n) m)) :: (mm, 'r) ctl res)"
    (is "for_loop 0 N ?body m = _")
proof -
  let ?P = "\<lambda>q t. t = upd_range f (unat base) (min (unat q) (unat base + unat n)) m"
  have "\<exists>t'. ?body q t = Inr (Next t') \<and> ?P (q + 1) t'" if P: "?P q t" and q: "q < N" for q t
  proof (cases "in_block base n q")
    case True
    then have "unat base \<le> unat q" and "unat q < unat base + unat n"
      using sum by (auto simp: in_block_def word_le_nat_alt word_less_nat_alt)
    moreover have "unat q < length (pages m)" using q len by (simp add: word_less_nat_alt)
    ultimately show ?thesis
      using P q True by (simp add: macro unat_u64_Suc upd_range_Suc min_def)
  next
    case False
    then have "unat q < unat base \<or> unat base + unat n \<le> unat q"
      using sum by (auto simp: in_block_def word_le_nat_alt word_less_nat_alt)
    with P q False show ?thesis
      by (auto simp: unat_u64_Suc min_def upd_range_empty)
  qed
  moreover have "?P 0 m" by (simp add: upd_range_empty)
  ultimately have "\<exists>t. for_loop 0 N ?body m = (Inr (Next t) :: (mm, 'r) ctl res) \<and> ?P N t"
    by (intro for_loop_Next [where P = ?P]) auto
  with blk show ?thesis by (simp add: min_absorb2)
qed

end
