(* ===== verification/Default_Pmm.thy ===== *)
theory Default_Pmm
  imports Memlayout
begin

text \<open>
  The first-fit page allocator of \<open>kern/mm/default_pmm.c\<close>: the five operations that the struct
  \<open>default_pmm_manager\<close> exports for use by the kernel (its self-test \<open>check\<close> is in \<open>Pmm_Check\<close>).
  An operation takes the build, which fixes \<open>NPAGE\<close>, its C arguments and the globals, and returns
  its C result with the new globals, or a fault.
\<close>

section \<open>Operations\<close>

definition default_init :: "mm \<Rightarrow> mm" where
  "default_init m = m\<lparr>nr_free := 0\<rparr>"

text \<open>The three loops of \<open>default_init_memmap\<close>, in the order of the source.\<close>

definition init_memmap_check_reserved ::
  "build \<Rightarrow> size_t \<Rightarrow> size_t \<Rightarrow> mm \<Rightarrow> (unit, u64) ctl res" where
  "init_memmap_check_reserved b base n m =
     for_loop 0 (NPAGE b) (\<lambda>p u.
       if in_block base n p
       then res_bind (PageReserved p m) (\<lambda>r. if \<not> r then Inr (Return 5) else Inr (Next u))
       else Inr (Next u)) ()"

definition init_memmap_check_allocated ::
  "build \<Rightarrow> size_t \<Rightarrow> size_t \<Rightarrow> mm \<Rightarrow> (unit, u64) ctl res" where
  "init_memmap_check_allocated b base n m =
     for_loop 0 (NPAGE b) (\<lambda>p u.
       if in_block base n p
       then res_bind (PageAllocated p m) (\<lambda>a. if a then Inr (Return 6) else Inr (Next u))
       else Inr (Next u)) ()"

definition init_memmap_clear ::
  "build \<Rightarrow> size_t \<Rightarrow> size_t \<Rightarrow> mm \<Rightarrow> (mm, u64) ctl res" where
  "init_memmap_clear b base n m =
     for_loop 0 (NPAGE b) (\<lambda>p m'.
       if in_block base n p
       then res_bind (ClearPageReserved p m') (\<lambda>m''. Inr (Next m''))
       else Inr (Next m')) m"

definition default_init_memmap :: "build \<Rightarrow> size_t \<Rightarrow> size_t \<Rightarrow> mm \<Rightarrow> (u64 \<times> mm) res" where
  "default_init_memmap b base n m =
     (if \<not> n > 0 then Inr (1, m)
      else if \<not> n \<le> NPAGE b then Inr (2, m)
      else if \<not> base \<le> NPAGE b then Inr (3, m)
      else if \<not> base + n \<le> NPAGE b then Inr (4, m)
      else
        after_loop (init_memmap_check_reserved b base n m) (\<lambda>r. Inr (r, m)) (\<lambda>_.
        after_loop (init_memmap_check_allocated b base n m) (\<lambda>r. Inr (r, m)) (\<lambda>_.
        after_loop (init_memmap_clear b base n m) (\<lambda>r. Inr (r, m)) (\<lambda>m'.
          Inr (0, m'\<lparr>nr_free := nr_free m' + n\<rparr>)))))"

text \<open>
  The scan of \<open>default_alloc_pages\<close>. Its state is the pair of the local variables \<open>page\<close> and
  \<open>first_usable\<close>.
\<close>

definition alloc_scan ::
  "build \<Rightarrow> size_t \<Rightarrow> mm \<Rightarrow> (size_t \<times> size_t, unit) ctl res" where
  "alloc_scan b n m =
     for_loop 0 (NPAGE b) (\<lambda>p (page, first_usable).
       res_bind (PageReserved p m) (\<lambda>r.
       res_bind (if r then Inr True else PageAllocated p m) (\<lambda>used.
         if used then Inr (Next (page, p + 1))
         else if p - first_usable + 1 = n then Inr (Break (first_usable, first_usable))
         else Inr (Next (page, first_usable))))) (NULLPAGE, 0)"

definition alloc_mark ::
  "build \<Rightarrow> size_t \<Rightarrow> size_t \<Rightarrow> mm \<Rightarrow> (mm, unit) ctl res" where
  "alloc_mark b page n m =
     for_loop 0 (NPAGE b) (\<lambda>p m'.
       if in_block page n p
       then res_bind (SetPageAllocated p m') (\<lambda>m''. Inr (Next m''))
       else Inr (Next m')) m"

definition default_alloc_pages :: "build \<Rightarrow> size_t \<Rightarrow> mm \<Rightarrow> (size_t \<times> mm) res" where
  "default_alloc_pages b n m =
     (if \<not> n > 0 then Inr (NULLPAGE, m)
      else if \<not> n \<le> NPAGE b then Inr (NULLPAGE, m)
      else
        after_loop (alloc_scan b n m) (\<lambda>_. Inr (NULLPAGE, m)) (\<lambda>(page, first_usable).
          if page \<noteq> NULLPAGE
          then after_loop (alloc_mark b page n m) (\<lambda>_. Inr (page, m)) (\<lambda>m'.
                 Inr (page, m'\<lparr>nr_free := nr_free m' - n\<rparr>))
          else Inr (page, m)))"

definition free_unmark ::
  "build \<Rightarrow> size_t \<Rightarrow> size_t \<Rightarrow> mm \<Rightarrow> (mm, unit) ctl res" where
  "free_unmark b base n m =
     for_loop 0 (NPAGE b) (\<lambda>p m'.
       if in_block base n p
       then res_bind (ClearPageAllocated p m') (\<lambda>m''. Inr (Next m''))
       else Inr (Next m')) m"

definition default_free_pages :: "build \<Rightarrow> size_t \<Rightarrow> size_t \<Rightarrow> mm \<Rightarrow> mm res" where
  "default_free_pages b base n m =
     (if base \<ge> NPAGE b then Inr m
      else if n = 0 then Inr m
      else if n > NPAGE b then Inr m
      else if base + n > NPAGE b then Inr m
      else after_loop (free_unmark b base n m) (\<lambda>_. Inr m) (\<lambda>m'.
             Inr (m'\<lparr>nr_free := nr_free m' + n\<rparr>)))"

definition default_nr_free_pages :: "mm \<Rightarrow> size_t" where
  "default_nr_free_pages m = nr_free m"

section \<open>The loops\<close>

text \<open>The shape of the state: one descriptor per page.\<close>

definition mm_ok :: "build \<Rightarrow> mm \<Rightarrow> bool" where
  "mm_ok b m \<longleftrightarrow> length (pages m) = unat (NPAGE b)"

text \<open>A loop that returns at the first bad page of a block and goes on at every other page.\<close>

lemma for_loop_check:
  fixes N :: u64
  assumes sum: "unat (base + n) = unat base + unat n" and blk: "unat base + unat n \<le> unat N"
    and body: "\<And>p u. unat p < unat N \<Longrightarrow>
      body p u = Inr (if in_block base n p \<and> bad (unat p) then Return r else Next u)"
  shows "for_loop 0 N body () =
    Inr (if \<exists>i. unat base \<le> i \<and> i < unat base + unat n \<and> bad i then Return r else Next ())"
proof (rule for_loop_rule [where
      P = "\<lambda>q u. \<forall>i. unat base \<le> i \<and> i < unat base + unat n \<and> i < unat q \<longrightarrow> \<not> bad i"])
  fix q :: u64 and u
  assume P: "\<forall>i. unat base \<le> i \<and> i < unat base + unat n \<and> i < unat q \<longrightarrow> \<not> bad i"
    and q: "q < N"
  have in_b: "in_block base n q \<longleftrightarrow> unat base \<le> unat q \<and> unat q < unat base + unat n"
    using sum by (simp add: in_block_def word_le_nat_alt word_less_nat_alt)
  have "\<not> bad i" if "\<not> (in_block base n q \<and> bad (unat q))" "unat base \<le> i" "i < unat base + unat n"
    "i < Suc (unat q)" for i
    using that P in_b by (cases "i = unat q") auto
  then show "case body q u of
      Inl e \<Rightarrow> Inl e = Inr (if \<exists>i. unat base \<le> i \<and> i < unat base + unat n \<and> bad i then Return r else Next ())
    | Inr (Next t') \<Rightarrow> \<forall>i. unat base \<le> i \<and> i < unat base + unat n \<and> i < unat (q + 1) \<longrightarrow> \<not> bad i
    | Inr c \<Rightarrow> Inr c = Inr (if \<exists>i. unat base \<le> i \<and> i < unat base + unat n \<and> bad i then Return r else Next ())"
    using q in_b by (auto simp: body word_less_nat_alt unat_u64_Suc)
qed (use blk in auto)

text \<open>A block that passed the argument checks lies in the array and its end does not wrap.\<close>

lemma block_in_array:
  assumes "base \<le> NPAGE b" and "n \<le> NPAGE b" and "base + n \<le> NPAGE b"
  shows "unat (base + n) = unat base + unat n" and "unat base + unat n \<le> unat (NPAGE b)"
proof -
  show sum: "unat (base + n) = unat base + unat n"
    using assms NPAGE_bounds(2) [of b] by (intro unat_add_pages) (simp_all add: word_le_nat_alt)
  show "unat base + unat n \<le> unat (NPAGE b)"
    using assms(3) sum by (simp add: word_le_nat_alt)
qed

lemma init_memmap_loops:
  assumes ok: "mm_ok b m" and sum: "unat (base + n) = unat base + unat n"
    and blk: "unat base + unat n \<le> unat (NPAGE b)"
  shows "init_memmap_check_reserved b base n m =
      Inr (if \<exists>i. unat base \<le> i \<and> i < unat base + unat n \<and> \<not> reserved m i then Return 5 else Next ())"
    and "init_memmap_check_allocated b base n m =
      Inr (if \<exists>i. unat base \<le> i \<and> i < unat base + unat n \<and> allocated m i then Return 6 else Next ())"
    and "init_memmap_clear b base n m =
      Inr (Next (upd_range clr_rsv (unat base) (unat base + unat n) m))"
proof -
  show "init_memmap_check_reserved b base n m =
      Inr (if \<exists>i. unat base \<le> i \<and> i < unat base + unat n \<and> \<not> reserved m i then Return 5 else Next ())"
    unfolding init_memmap_check_reserved_def using ok
    by (intro for_loop_check [OF sum blk]) (simp add: mm_ok_def mm_simps)
  show "init_memmap_check_allocated b base n m =
      Inr (if \<exists>i. unat base \<le> i \<and> i < unat base + unat n \<and> allocated m i then Return 6 else Next ())"
    unfolding init_memmap_check_allocated_def using ok
    by (intro for_loop_check [OF sum blk]) (simp add: mm_ok_def mm_simps)
  show "init_memmap_clear b base n m =
      Inr (Next (upd_range clr_rsv (unat base) (unat base + unat n) m))"
    unfolding init_memmap_clear_def using ok
    by (intro for_loop_pages [OF _ blk sum]) (simp_all add: mm_ok_def mm_simps)
qed

lemma mark_loops:
  assumes ok: "mm_ok b m" and sum: "unat (base + n) = unat base + unat n"
    and blk: "unat base + unat n \<le> unat (NPAGE b)"
  shows "alloc_mark b base n m =
      Inr (Next (upd_range set_alc (unat base) (unat base + unat n) m))"
    and "free_unmark b base n m =
      Inr (Next (upd_range clr_alc (unat base) (unat base + unat n) m))"
  unfolding alloc_mark_def free_unmark_def using ok
  by (auto simp: mm_ok_def mm_simps intro!: for_loop_pages [OF _ blk sum])

section \<open>First fit\<close>

text \<open>The \<open>k\<close> pages from \<open>i\<close> on exist and are all available.\<close>

definition free_run :: "build \<Rightarrow> mm \<Rightarrow> nat \<Rightarrow> nat \<Rightarrow> bool" where
  "free_run b m i k \<longleftrightarrow>
     i + k \<le> unat (NPAGE b) \<and> (\<forall>j. i \<le> j \<and> j < i + k \<longrightarrow> available m j)"

text \<open>
  The scan's invariant at page \<open>q\<close>: the pages from \<open>first_usable\<close> to \<open>q\<close> are available and too few,
  and no run of \<open>n\<close> pages starts before \<open>first_usable\<close>.
\<close>

definition scan_inv :: "build \<Rightarrow> mm \<Rightarrow> nat \<Rightarrow> u64 \<Rightarrow> size_t \<times> size_t \<Rightarrow> bool" where
  "scan_inv b m n q st \<longleftrightarrow>
     fst st = NULLPAGE \<and> unat (snd st) \<le> unat q \<and> unat q < unat (snd st) + n \<and>
     (\<forall>j. unat (snd st) \<le> j \<and> j < unat q \<longrightarrow> available m j) \<and>
     (\<forall>j < unat (snd st). \<not> free_run b m j n)"

lemma scan_inv_used:
  assumes "scan_inv b m n q st" and "q < N" and "\<not> available m (unat q)" and "0 < n"
  shows "scan_inv b m n (q + 1) (fst st, q + 1)"
proof -
  have "\<not> free_run b m j n" if "j < Suc (unat q)" for j
    using that assms(1,3) by (cases "j < unat (snd st)") (auto simp: scan_inv_def free_run_def)
  with assms show ?thesis by (auto simp: scan_inv_def unat_u64_Suc)
qed

lemma scan_inv_free:
  assumes "scan_inv b m n q st" and "q < N" and "available m (unat q)"
    and "Suc (unat q) \<noteq> unat (snd st) + n"
  shows "scan_inv b m n (q + 1) st"
  using assms by (auto simp: scan_inv_def unat_u64_Suc less_Suc_eq)

lemma alloc_scan_result:
  assumes ok: "mm_ok b m" and n: "0 < unat n"
  shows "(\<exists>i. alloc_scan b n m = Inr (Break (of_nat i, of_nat i)) \<and>
            free_run b m i (unat n) \<and> (\<forall>j < i. \<not> free_run b m j (unat n))) \<or>
         (\<exists>fu. alloc_scan b n m = Inr (Next (NULLPAGE, fu)) \<and> (\<forall>j. \<not> free_run b m j (unat n)))"
    (is "?Q (alloc_scan b n m)")
  unfolding alloc_scan_def
proof (rule for_loop_rule [where P = "scan_inv b m (unat n)"])
  show "scan_inv b m (unat n) 0 (NULLPAGE, 0)" using n by (simp add: scan_inv_def)
  show "(0 :: u64) \<le> NPAGE b" by simp
next
  fix q :: u64 and st
  assume inv: "scan_inv b m (unat n) q st" and q: "q < NPAGE b"
  obtain page fu where st: "st = (page, fu)" by (cases st)
  have rng: "unat q < length (pages m)" using q ok by (simp add: mm_ok_def word_less_nat_alt)
  have fu: "fu \<le> q" using inv st by (simp add: scan_inv_def word_le_nat_alt)
  have len: "unat (q - fu + 1) = Suc (unat q) - unat fu"
  proof -
    have "q - fu < NPAGE b" using q fu
      by (simp add: word_less_nat_alt unat_u64_sub less_imp_diff_less)
    then show ?thesis using fu by (simp add: unat_u64_Suc unat_u64_sub word_le_nat_alt Suc_diff_le)
  qed
  have last: "q - fu + 1 = n \<longleftrightarrow> Suc (unat q) = unat fu + unat n"
    using len fu by (auto simp: word_unat_eq_iff word_le_nat_alt)
  have found: "free_run b m (unat fu) (unat n) \<and> (\<forall>j < unat fu. \<not> free_run b m j (unat n))"
    if "available m (unat q)" and "q - fu + 1 = n"
  proof -
    have S: "Suc (unat q) = unat fu + unat n" using that(2) last by blast
    have "available m j" if "unat fu \<le> j" "j < unat fu + unat n" for j
      using that S \<open>available m (unat q)\<close> inv st by (cases "j = unat q") (auto simp: scan_inv_def)
    with S q inv st show ?thesis by (auto simp: scan_inv_def free_run_def word_less_nat_alt)
  qed
  show "case (case st of (page, first_usable) \<Rightarrow>
        res_bind (PageReserved q m) (\<lambda>r.
        res_bind (if r then Inr True else PageAllocated q m) (\<lambda>used.
         if used then Inr (Next (page, q + 1))
         else if q - first_usable + 1 = n then Inr (Break (first_usable, first_usable))
         else Inr (Next (page, first_usable))))) of
      Inl e \<Rightarrow> ?Q (Inl e) | Inr (Next st') \<Rightarrow> scan_inv b m (unat n) (q + 1) st' | Inr c \<Rightarrow> ?Q (Inr c)"
  proof (cases "available m (unat q)")
    case True
    then show ?thesis
      using found scan_inv_free [OF inv q] last rng st
      by (auto simp: page_tests available_def intro: exI [of _ "unat fu"])
  next
    case False
    then show ?thesis
      using scan_inv_used [OF inv q _ n] rng st by (auto simp: page_tests available_def)
  qed
next
  fix st
  assume inv: "scan_inv b m (unat n) (NPAGE b) st"
  have "\<not> free_run b m j (unat n)" for j
    using inv by (cases "j < unat (snd st)") (auto simp: scan_inv_def free_run_def)
  moreover from inv have "fst st = NULLPAGE" by (simp add: scan_inv_def)
  ultimately show "?Q (Inr (Next st))" by (cases st) auto
qed

section \<open>Results of the operations\<close>

lemma range_tests [mm_simps]:
  assumes "i < length (pages m)"
  shows "reserved (upd_range clr_rsv lo hi m) i \<longleftrightarrow> reserved m i \<and> \<not> (lo \<le> i \<and> i < hi)"
    and "allocated (upd_range clr_rsv lo hi m) i \<longleftrightarrow> allocated m i"
    and "reserved (upd_range set_alc lo hi m) i \<longleftrightarrow> reserved m i"
    and "allocated (upd_range set_alc lo hi m) i \<longleftrightarrow> allocated m i \<or> lo \<le> i \<and> i < hi"
    and "reserved (upd_range clr_alc lo hi m) i \<longleftrightarrow> reserved m i"
    and "allocated (upd_range clr_alc lo hi m) i \<longleftrightarrow> allocated m i \<and> \<not> (lo \<le> i \<and> i < hi)"
  using assms by (auto simp: reserved_def allocated_def upd_range_flags flag_bits
      flag_bits [unfolded One_nat_def])

lemma nr_free_upd_tests [simp]:
  "reserved (m\<lparr>nr_free := k\<rparr>) i = reserved m i"
  "allocated (m\<lparr>nr_free := k\<rparr>) i = allocated m i"
  "available (m\<lparr>nr_free := k\<rparr>) i = available m i"
  by (simp_all add: reserved_def allocated_def available_def)

text \<open>The checks \<open>default_init_memmap\<close> makes, as one error code: the first that fails.\<close>

definition memmap_code :: "build \<Rightarrow> size_t \<Rightarrow> size_t \<Rightarrow> mm \<Rightarrow> u64" where
  "memmap_code b base n m =
     (if n = 0 then 1 else if NPAGE b < n then 2 else if NPAGE b < base then 3
      else if unat (NPAGE b) < unat base + unat n then 4
      else if \<exists>i. unat base \<le> i \<and> i < unat base + unat n \<and> \<not> reserved m i then 5
      else if \<exists>i. unat base \<le> i \<and> i < unat base + unat n \<and> allocated m i then 6 else 0)"

lemma default_init_memmap_result:
  assumes ok: "mm_ok b m"
  shows "default_init_memmap b base n m =
    Inr (memmap_code b base n m,
         if memmap_code b base n m = 0
         then (upd_range clr_rsv (unat base) (unat base + unat n) m)
                \<lparr>nr_free := nr_free m + n\<rparr>
         else m)"
proof (cases "n = 0 \<or> NPAGE b < n \<or> NPAGE b < base")
  case True
  then show ?thesis
    by (auto simp: default_init_memmap_def memmap_code_def not_le not_less)
next
  case False
  then have sum: "unat (base + n) = unat base + unat n"
    using NPAGE_bounds(2) [of b] by (intro unat_add_pages) (auto simp: word_less_nat_alt)
  show ?thesis
  proof (cases "base + n \<le> NPAGE b")
    case True
    then have blk: "unat base + unat n \<le> unat (NPAGE b)" using sum by (simp add: word_le_nat_alt)
    show ?thesis
      using False True blk init_memmap_loops [OF ok sum blk]
      by (auto simp: default_init_memmap_def memmap_code_def not_le not_less word_gt_0)
  next
    case gt: False
    then have "unat (NPAGE b) < unat base + unat n" using sum by (simp add: word_le_nat_alt)
    with False gt show ?thesis
      by (auto simp: default_init_memmap_def memmap_code_def not_le not_less word_gt_0)
  qed
qed

lemma default_free_pages_result:
  assumes ok: "mm_ok b m"
  shows "default_free_pages b base n m =
    Inr (if base < NPAGE b \<and> n \<noteq> 0 \<and> unat base + unat n \<le> unat (NPAGE b)
         then (upd_range clr_alc (unat base) (unat base + unat n) m)
                \<lparr>nr_free := nr_free m + n\<rparr>
         else m)"
proof (cases "base < NPAGE b \<and> n \<noteq> 0 \<and> n \<le> NPAGE b")
  case True
  then have sum: "unat (base + n) = unat base + unat n"
    using NPAGE_bounds(2) [of b]
    by (intro unat_add_pages) (auto simp: word_less_nat_alt word_le_nat_alt)
  show ?thesis
  proof (cases "unat base + unat n \<le> unat (NPAGE b)")
    case blk: True
    then have "base + n \<le> NPAGE b" using sum by (simp add: word_le_nat_alt)
    with True blk mark_loops [OF ok sum blk] show ?thesis
      by (auto simp: default_free_pages_def not_le not_less)
  next
    case False
    then have "\<not> base + n \<le> NPAGE b" using sum by (simp add: word_le_nat_alt)
    with True False show ?thesis by (auto simp: default_free_pages_def not_le not_less)
  qed
next
  case False
  then show ?thesis
    by (auto simp: default_free_pages_def not_le not_less word_le_nat_alt word_less_nat_alt)
qed

lemma default_alloc_pages_found:
  assumes ok: "mm_ok b m" and n: "0 < unat n"
    and run: "free_run b m i (unat n)" and least: "\<forall>j < i. \<not> free_run b m j (unat n)"
  shows "default_alloc_pages b n m =
    Inr (of_nat i, (upd_range set_alc i (i + unat n) m)\<lparr>nr_free := nr_free m - n\<rparr>)"
proof -
  let ?p = "of_nat i :: u64"
  from run have blk: "i + unat n \<le> unat (NPAGE b)" by (simp add: free_run_def)
  then have i: "i \<le> 4096" and nle: "unat n \<le> 4096"
    using NPAGE_bounds(2) [of b] by auto
  then have p: "unat ?p = i" by (intro unat_of_nat_u64) simp
  have sum: "unat (?p + n) = unat ?p + unat n" using i nle p by (intro unat_add_pages) simp_all
  have "alloc_scan b n m = Inr (Break (?p, ?p))"
    using alloc_scan_result [OF ok n] run least by (auto dest: leD simp: linorder_neq_iff)
       (metis linorder_neqE_nat)
  moreover have "?p \<noteq> NULLPAGE"
    using p blk NPAGE_less_NULLPAGE [of b] by auto
  moreover have "0 < n" and "n \<le> NPAGE b"
    using n blk by (auto simp: word_le_nat_alt word_less_nat_alt)
  ultimately show ?thesis
    using mark_loops(1) [OF ok sum] blk p by (simp add: default_alloc_pages_def)
qed

lemma default_alloc_pages_none:
  assumes ok: "mm_ok b m" and none: "n = 0 \<or> (\<forall>j. \<not> free_run b m j (unat n))"
  shows "default_alloc_pages b n m = Inr (NULLPAGE, m)"
proof (cases "n = 0 \<or> NPAGE b < n")
  case True
  then show ?thesis by (auto simp: default_alloc_pages_def not_le)
next
  case False
  then have "0 < unat n" by (simp add: unat_gt_0)
  then obtain fu where "alloc_scan b n m = Inr (Next (NULLPAGE, fu))"
    using alloc_scan_result [OF ok, of n] none False by auto
  with False show ?thesis by (simp add: default_alloc_pages_def)
qed

lemma default_alloc_pages_cases:
  assumes "mm_ok b m"
  obtains (none) "n = 0 \<or> (\<forall>j. \<not> free_run b m j (unat n))"
      and "default_alloc_pages b n m = Inr (NULLPAGE, m)"
    | (found) i where "0 < unat n" and "free_run b m i (unat n)"
      and "\<forall>j < i. \<not> free_run b m j (unat n)"
      and "default_alloc_pages b n m =
        Inr (of_nat i, (upd_range set_alc i (i + unat n) m)\<lparr>nr_free := nr_free m - n\<rparr>)"
proof (cases "n = 0 \<or> (\<forall>j. \<not> free_run b m j (unat n))")
  case True
  then show ?thesis using none default_alloc_pages_none [OF assms] by blast
next
  case False
  then have n: "0 < unat n" and "\<exists>j. free_run b m j (unat n)" by (auto simp: unat_gt_0)
  then obtain i where "free_run b m i (unat n)" and "\<forall>j < i. \<not> free_run b m j (unat n)"
    using exists_least_iff [of "\<lambda>j. free_run b m j (unat n)"] by blast
  with n show ?thesis using found default_alloc_pages_found [OF assms] by blast
qed

end
