(* ===== verification/Pmm_Spec.thy ===== *)
theory Pmm_Spec
  imports Default_Pmm
begin

text \<open>
  What a page manager promises, independently of how it keeps its data: an abstract state of two
  sets of frame numbers, the abstract operations on it, and the contract of \<open>struct pmm_manager\<close>
  (\<open>kern/mm/pmm.h\<close>) as a locale. Facts every client may use are proved in the locale; the
  interpretation at the end discharges the contract for the allocator of \<open>Default_Pmm\<close>, in both
  builds, and so is the refinement proof.
\<close>

section \<open>The abstract allocator\<close>

record frames =
  rsv :: "nat set"
  alc :: "nat set"

definition frames_free :: "nat \<Rightarrow> frames \<Rightarrow> nat set" where
  "frames_free N a = {..<N} - rsv a - alc a"

definition frames_run :: "nat \<Rightarrow> nat \<Rightarrow> frames \<Rightarrow> nat \<Rightarrow> bool" where
  "frames_run N k a i \<longleftrightarrow> {i..<i + k} \<subseteq> frames_free N a"

text \<open>First fit: the lowest run of \<open>k\<close> free frames is taken.\<close>

definition alloc_frames :: "nat \<Rightarrow> nat \<Rightarrow> frames \<Rightarrow> nat option \<times> frames" where
  "alloc_frames N k a =
     (if k = 0 then (None, a)
      else case find (frames_run N k a) [0..<N] of
             None \<Rightarrow> (None, a)
           | Some i \<Rightarrow> (Some i, a\<lparr>alc := alc a \<union> {i..<i + k}\<rparr>))"

definition release_frames :: "nat \<Rightarrow> nat \<Rightarrow> frames \<Rightarrow> frames" where
  "release_frames i k a = a\<lparr>alc := alc a - {i..<i + k}\<rparr>"

definition open_frames :: "nat \<Rightarrow> nat \<Rightarrow> frames \<Rightarrow> frames" where
  "open_frames i k a = a\<lparr>rsv := rsv a - {i..<i + k}\<rparr>"

lemma finite_frames_free [simp]: "finite (frames_free N a)"
  by (simp add: frames_free_def)

lemma alloc_frames_Some:
  "alloc_frames N k a = (Some i, a') \<longleftrightarrow>
     0 < k \<and> frames_run N k a i \<and> (\<forall>j < i. \<not> frames_run N k a j) \<and>
     a' = a\<lparr>alc := alc a \<union> {i..<i + k}\<rparr>"
proof -
  have lt: "i < N" if "0 < k" "frames_run N k a i" for i
    using that by (auto simp: frames_run_def frames_free_def subset_eq)
  have "find (frames_run N k a) [0..<N] = Some i \<longleftrightarrow>
      frames_run N k a i \<and> (\<forall>j < i. \<not> frames_run N k a j)" if "0 < k"
    using that lt by (auto simp: find_Some_iff intro!: exI [of _ i])
      (metis add_0 less_trans nth_upt)
  then show ?thesis
    by (auto simp: alloc_frames_def split: option.splits)
qed

lemma alloc_frames_None:
  "alloc_frames N k a = (None, a') \<longleftrightarrow> (k = 0 \<or> (\<forall>i. \<not> frames_run N k a i)) \<and> a' = a"
proof -
  have "i < N" if "0 < k" "frames_run N k a i" for i
    using that by (auto simp: frames_run_def frames_free_def subset_eq)
  then have "find (frames_run N k a) [0..<N] = None \<longleftrightarrow> (\<forall>i. \<not> frames_run N k a i)" if "0 < k"
    using that by (auto simp: find_None_iff)
  then show ?thesis
    by (auto simp: alloc_frames_def split: option.splits)
qed

text \<open>How the number of free frames changes.\<close>

lemma card_free_alloc:
  assumes "frames_run N k a i"
  shows "frames_free N (a\<lparr>alc := alc a \<union> {i..<i + k}\<rparr>) = frames_free N a - {i..<i + k}"
    and "card (frames_free N (a\<lparr>alc := alc a \<union> {i..<i + k}\<rparr>)) + k = card (frames_free N a)"
proof -
  show eq: "frames_free N (a\<lparr>alc := alc a \<union> {i..<i + k}\<rparr>) = frames_free N a - {i..<i + k}"
    by (auto simp: frames_free_def)
  have "card (frames_free N a - {i..<i + k}) = card (frames_free N a) - k"
    using assms by (subst card_Diff_subset) (auto simp: frames_run_def)
  moreover have "k \<le> card (frames_free N a)"
    using assms card_mono [of "frames_free N a" "{i..<i + k}"] by (simp add: frames_run_def)
  ultimately show "card (frames_free N (a\<lparr>alc := alc a \<union> {i..<i + k}\<rparr>)) + k = card (frames_free N a)"
    using eq by simp
qed

lemma card_free_release:
  assumes "{i..<i + k} \<subseteq> {..<N}"
  shows "card (frames_free N (release_frames i k a)) =
    card (frames_free N a) + card ({i..<i + k} \<inter> (alc a - rsv a))"
proof -
  have "frames_free N (release_frames i k a) = frames_free N a \<union> ({i..<i + k} \<inter> (alc a - rsv a))"
    using assms by (auto simp: frames_free_def release_frames_def)
  then show ?thesis
    by (simp add: card_Un_disjoint frames_free_def disjoint_iff)
qed

lemma card_free_open:
  assumes "{i..<i + k} \<subseteq> {..<N}"
  shows "card (frames_free N (open_frames i k a)) =
    card (frames_free N a) + card ({i..<i + k} \<inter> (rsv a - alc a))"
proof -
  have "frames_free N (open_frames i k a) = frames_free N a \<union> ({i..<i + k} \<inter> (rsv a - alc a))"
    using assms by (auto simp: frames_free_def open_frames_def)
  then show ?thesis
    by (simp add: card_Un_disjoint frames_free_def disjoint_iff)
qed

section \<open>The contract of a page manager\<close>

locale page_manager =
  fixes N :: nat
    and init_memmap :: "size_t \<Rightarrow> size_t \<Rightarrow> 's \<Rightarrow> (u64 \<times> 's) res"
    and alloc :: "size_t \<Rightarrow> 's \<Rightarrow> (size_t \<times> 's) res"
    and free :: "size_t \<Rightarrow> size_t \<Rightarrow> 's \<Rightarrow> 's res"
    and count :: "'s \<Rightarrow> size_t"
    and frames_in :: "'s \<Rightarrow> frames"
    and inv :: "'s \<Rightarrow> bool"
  assumes memmap_law: "inv s \<Longrightarrow> \<exists>r s'. init_memmap base n s = Inr (r, s') \<and> inv s' \<and>
      (r = 0 \<longleftrightarrow> 0 < unat n \<and>
        {unat base..<unat base + unat n} \<subseteq> {..<N} \<inter> rsv (frames_in s) - alc (frames_in s)) \<and>
      frames_in s' =
        (if r = 0 then open_frames (unat base) (unat n) (frames_in s) else frames_in s)"
    and alloc_law: "inv s \<Longrightarrow> \<exists>p s'. alloc n s = Inr (p, s') \<and> inv s' \<and>
      alloc_frames N (unat n) (frames_in s) =
        (if p = NULLPAGE then None else Some (unat p), frames_in s')"
    and free_law: "inv s \<Longrightarrow> 0 < unat n \<Longrightarrow>
      {unat base..<unat base + unat n} \<subseteq> {..<N} \<inter> alc (frames_in s) - rsv (frames_in s) \<Longrightarrow>
      \<exists>s'. free base n s = Inr s' \<and> inv s' \<and>
        frames_in s' = release_frames (unat base) (unat n) (frames_in s)"
    and count_law: "inv s \<Longrightarrow> unat (count s) = card (frames_free N (frames_in s))"
begin

lemma alloc_block:
  assumes "inv s" and "alloc n s = Inr (p, s')" and "p \<noteq> NULLPAGE"
  shows "inv s'" and "0 < unat n"
    and "{unat p..<unat p + unat n} \<subseteq> frames_free N (frames_in s)"
    and "frames_in s' = (frames_in s)\<lparr>alc := alc (frames_in s) \<union> {unat p..<unat p + unat n}\<rparr>"
    and "unat (count s') + unat n = unat (count s)"
proof -
  from alloc_law [OF assms(1), of n] assms(2,3) have inv: "inv s'"
    and "alloc_frames N (unat n) (frames_in s) = (Some (unat p), frames_in s')" by auto
  then have a: "0 < unat n" "frames_run N (unat n) (frames_in s) (unat p)"
    "frames_in s' = (frames_in s)\<lparr>alc := alc (frames_in s) \<union> {unat p..<unat p + unat n}\<rparr>"
    by (simp_all add: alloc_frames_Some)
  then show "inv s'" and "0 < unat n"
    and "{unat p..<unat p + unat n} \<subseteq> frames_free N (frames_in s)"
    and "frames_in s' = (frames_in s)\<lparr>alc := alc (frames_in s) \<union> {unat p..<unat p + unat n}\<rparr>"
    using inv by (simp_all add: frames_run_def)
  show "unat (count s') + unat n = unat (count s)"
    using card_free_alloc(2) [OF a(2)] a(3) count_law [OF inv] count_law [OF assms(1)] by simp
qed

lemma alloc_fails_iff:
  assumes "inv s" and "alloc n s = Inr (p, s')"
  shows "p = NULLPAGE \<longleftrightarrow> n = 0 \<or> (\<forall>i. \<not> frames_run N (unat n) (frames_in s) i)"
  using alloc_law [OF assms(1), of n] assms(2)
  by (auto simp: alloc_frames_None alloc_frames_Some unsigned_eq_0_iff split: if_splits)

text \<open>Two allocations in a row never share a frame.\<close>

lemma alloc_alloc_disjoint:
  assumes "inv s" and "alloc n s = Inr (p, s')" and "alloc k s' = Inr (q, s'')"
    and "p \<noteq> NULLPAGE" and "q \<noteq> NULLPAGE"
  shows "{unat p..<unat p + unat n} \<inter> {unat q..<unat q + unat k} = {}"
  using alloc_block [OF assms(1,2,4)] alloc_block(3) [OF _ assms(3,5)]
  by (fastforce simp: frames_free_def)

text \<open>Giving back what was just allocated restores the frames and the count.\<close>

lemma alloc_free_roundtrip:
  assumes "inv s" and "alloc n s = Inr (p, s')" and "p \<noteq> NULLPAGE"
  shows "\<exists>s''. free p n s' = Inr s'' \<and> inv s'' \<and> frames_in s'' = frames_in s \<and> count s'' = count s"
proof -
  note a = alloc_block [OF assms]
  have "{unat p..<unat p + unat n} \<subseteq> {..<N} \<inter> alc (frames_in s') - rsv (frames_in s')"
    using a(3,4) by (auto simp: frames_free_def)
  from free_law [OF a(1,2) this] obtain s'' where s'': "free p n s' = Inr s''" "inv s''"
    "frames_in s'' = release_frames (unat p) (unat n) (frames_in s')" by blast
  moreover have fr: "frames_in s'' = frames_in s"
    using s''(3) a(3,4)
    by (auto simp: release_frames_def frames_free_def intro!: frames.equality)
  moreover have "count s'' = count s"
    using count_law [OF s''(2)] count_law [OF assms(1)] fr by (simp add: word_unat_eq_iff)
  ultimately show ?thesis by blast
qed

end

section \<open>The default manager meets the contract\<close>

definition frames_of :: "build \<Rightarrow> mm \<Rightarrow> frames" where
  "frames_of b m =
     \<lparr>rsv = {i. i < unat (NPAGE b) \<and> reserved m i}, alc = {i. i < unat (NPAGE b) \<and> allocated m i}\<rparr>"

text \<open>
  The invariant the code relies on (\<open>nr_free_eq\<close> in \<open>verif/llvm-spec.rkt\<close>): the counter is the
  number of pages that are neither reserved nor allocated.
\<close>

definition pmm_inv :: "build \<Rightarrow> mm \<Rightarrow> bool" where
  "pmm_inv b m \<longleftrightarrow>
     mm_ok b m \<and> unat (nr_free m) = card {i. i < unat (NPAGE b) \<and> available m i}"

lemma frames_free_of:
  "frames_free (unat (NPAGE b)) (frames_of b m) = {i. i < unat (NPAGE b) \<and> available m i}"
  by (auto simp: frames_free_def frames_of_def available_def)

lemma frames_run_of:
  "0 < k \<Longrightarrow> frames_run (unat (NPAGE b)) k (frames_of b m) i \<longleftrightarrow> free_run b m i k"
proof -
  assume k: "0 < k"
  have "i + k \<le> N" if "{i..<i + k} \<subseteq> {..<N}" for N
    using that k by (metis ivl_subset lessThan_atLeast0 less_add_same_cancel1 not_less)
  moreover have "{i. i < unat (NPAGE b) \<and> available m i} \<subseteq> {..<unat (NPAGE b)}" by auto
  ultimately show ?thesis
    unfolding frames_run_def frames_free_of free_run_def
    by (auto dest: subset_trans)
qed

lemma frames_of_upd:
  assumes "mm_ok b m"
  shows "frames_of b ((upd_range clr_rsv i (i + k) m)\<lparr>nr_free := c\<rparr>) =
      open_frames i k (frames_of b m)"
    and "frames_of b ((upd_range clr_alc i (i + k) m)\<lparr>nr_free := c\<rparr>) =
      release_frames i k (frames_of b m)"
    and "i + k \<le> unat (NPAGE b) \<Longrightarrow>
      frames_of b ((upd_range set_alc i (i + k) m)\<lparr>nr_free := c\<rparr>) =
      (frames_of b m)\<lparr>alc := alc (frames_of b m) \<union> {i..<i + k}\<rparr>"
  using assms
  by (auto simp: frames_of_def mm_ok_def range_tests open_frames_def release_frames_def)

lemma card_free_le: "card (frames_free N a) \<le> N"
  using card_mono [of "{..<N}" "frames_free N a"] by (auto simp: frames_free_def)

text \<open>Adding a page count to the counter does not wrap while the sum is a number of pages.\<close>

lemma pmm_invI:
  assumes "mm_ok b m" and "unat (nr_free m) = card (frames_free (unat (NPAGE b)) (frames_of b m))"
  shows "pmm_inv b m"
  using assms by (simp add: pmm_inv_def frames_free_of)

lemma pmm_inv_count:
  "pmm_inv b m \<Longrightarrow> unat (nr_free m) = card (frames_free (unat (NPAGE b)) (frames_of b m))"
  by (simp add: pmm_inv_def frames_free_of)

lemma pmm_inv_ok: "pmm_inv b m \<Longrightarrow> mm_ok b m"
  by (simp add: pmm_inv_def)

lemma unat_count_add:
  assumes "pmm_inv b m" and "n \<le> NPAGE b"
  shows "unat (nr_free m + n) = unat (nr_free m) + unat n"
proof (rule unat_add_pages)
  show "unat (nr_free m) \<le> 4096"
    using pmm_inv_count [OF assms(1)] card_free_le [of "unat (NPAGE b)" "frames_of b m"]
      NPAGE_bounds(2) [of b] by simp
  show "unat n \<le> 4096" using assms(2) NPAGE_bounds(2) [of b] by (simp add: word_le_nat_alt)
qed

lemma default_alloc_law:
  assumes inv: "pmm_inv b m"
  shows "\<exists>p m'. default_alloc_pages b n m = Inr (p, m') \<and> pmm_inv b m' \<and>
    alloc_frames (unat (NPAGE b)) (unat n) (frames_of b m) =
      (if p = NULLPAGE then None else Some (unat p), frames_of b m')"
  using pmm_inv_ok [OF inv]
proof (cases rule: default_alloc_pages_cases [where n = n])
  case none
  then have "unat n = 0 \<or> (\<forall>i. \<not> frames_run (unat (NPAGE b)) (unat n) (frames_of b m) i)"
    by (auto simp: frames_run_of)
  then show ?thesis using none(2) inv by (simp add: alloc_frames_None)
next
  case (found i)
  let ?m = "(upd_range set_alc i (i + unat n) m)\<lparr>nr_free := nr_free m - n\<rparr>"
  have blk: "i + unat n \<le> unat (NPAGE b)" using found(2) by (simp add: free_run_def)
  have run: "frames_run (unat (NPAGE b)) (unat n) (frames_of b m) i"
    using found(1,2) by (simp add: frames_run_of)
  have i: "unat (of_nat i :: u64) = i" and "(of_nat i :: u64) \<noteq> NULLPAGE"
  proof -
    show i: "unat (of_nat i :: u64) = i"
      using blk NPAGE_bounds(2) [of b] by (intro unat_of_nat_u64) simp
    show "(of_nat i :: u64) \<noteq> NULLPAGE" using i blk NPAGE_less_NULLPAGE [of b] by auto
  qed
  note fr = frames_of_upd(3) [OF pmm_inv_ok [OF inv] blk, of "nr_free m - n"]
  have cnt: "card (frames_free (unat (NPAGE b)) (frames_of b ?m)) + unat n = unat (nr_free m)"
    using card_free_alloc(2) [OF run] pmm_inv_count [OF inv] fr by simp
  then have "unat (nr_free m - n) = unat (nr_free m) - unat n"
    by (intro unat_u64_sub) (simp add: word_le_nat_alt)
  then have "pmm_inv b ?m"
    using cnt pmm_inv_ok [OF inv] by (intro pmm_invI) (auto simp: mm_ok_def)
  moreover have "alloc_frames (unat (NPAGE b)) (unat n) (frames_of b m) = (Some i, frames_of b ?m)"
    using found(1,2,3) run fr by (auto simp: alloc_frames_Some frames_run_of)
  ultimately show ?thesis using found(4) i \<open>of_nat i \<noteq> NULLPAGE\<close> by auto
qed

lemma block_subset_iff:
  "0 < k \<Longrightarrow> {i..<i + k} \<subseteq> {..<N} \<longleftrightarrow> i + k \<le> (N :: nat)"
  by (metis (no_types, lifting) atLeast0LessThan ivl_subset le0 less_add_same_cancel1 linorder_not_less)

lemma memmap_code_0_iff:
  "memmap_code b base n m = 0 \<longleftrightarrow> 0 < unat n \<and>
    {unat base..<unat base + unat n} \<subseteq>
      {..<unat (NPAGE b)} \<inter> rsv (frames_of b m) - alc (frames_of b m)" (is "_ \<longleftrightarrow> ?R")
proof
  assume "memmap_code b base n m = 0"
  then have n: "n \<noteq> 0" and blk: "unat base + unat n \<le> unat (NPAGE b)"
    and "\<forall>i. unat base \<le> i \<and> i < unat base + unat n \<longrightarrow> reserved m i \<and> \<not> allocated m i"
    by (auto simp: memmap_code_def not_less split: if_splits)
  then show ?R by (auto simp: frames_of_def unat_gt_0)
next
  assume R: ?R
  then have n: "0 < unat n" and sub: "{unat base..<unat base + unat n} \<subseteq> {..<unat (NPAGE b)}" by auto
  then have blk: "unat base + unat n \<le> unat (NPAGE b)" by (simp add: block_subset_iff)
  with n have "n \<noteq> 0" "\<not> NPAGE b < n" "\<not> NPAGE b < base"
    by (auto simp: word_less_nat_alt)
  with R blk show "memmap_code b base n m = 0"
    by (auto simp: memmap_code_def frames_of_def subset_eq)
qed

lemma default_memmap_law:
  assumes inv: "pmm_inv b m"
  shows "\<exists>r m'. default_init_memmap b base n m = Inr (r, m') \<and> pmm_inv b m' \<and>
      (r = 0 \<longleftrightarrow> 0 < unat n \<and> {unat base..<unat base + unat n} \<subseteq>
        {..<unat (NPAGE b)} \<inter> rsv (frames_of b m) - alc (frames_of b m)) \<and>
      frames_of b m' =
        (if r = 0 then open_frames (unat base) (unat n) (frames_of b m) else frames_of b m)"
proof (cases "memmap_code b base n m = 0")
  case True
  let ?m = "(upd_range clr_rsv (unat base) (unat base + unat n) m)\<lparr>nr_free := nr_free m + n\<rparr>"
  from True have n: "0 < unat n" and sub: "{unat base..<unat base + unat n} \<subseteq>
      {..<unat (NPAGE b)} \<inter> rsv (frames_of b m) - alc (frames_of b m)"
    by (auto simp only: memmap_code_0_iff)
  then have in_N: "{unat base..<unat base + unat n} \<subseteq> {..<unat (NPAGE b)}" by blast
  then have "n \<le> NPAGE b" using n by (simp add: block_subset_iff word_le_nat_alt)
  then have "unat (nr_free ?m) = unat (nr_free m) + unat n" using unat_count_add [OF inv] by simp
  moreover have "{unat base..<unat base + unat n} \<inter> (rsv (frames_of b m) - alc (frames_of b m)) =
      {unat base..<unat base + unat n}" using sub by blast
  ultimately have "pmm_inv b ?m"
    using pmm_inv_ok [OF inv] pmm_inv_count [OF inv] frames_of_upd(1) [OF pmm_inv_ok [OF inv]]
      card_free_open [OF in_N, of "frames_of b m"]
    by (intro pmm_invI) (auto simp: mm_ok_def)
  then show ?thesis
    using True n sub frames_of_upd(1) [OF pmm_inv_ok [OF inv]]
    by (auto simp: default_init_memmap_result [OF pmm_inv_ok [OF inv]])
next
  case False
  then show ?thesis
    using inv memmap_code_0_iff [of b base n m]
    by (auto simp: default_init_memmap_result [OF pmm_inv_ok [OF inv]])
qed

text \<open>
  Freeing: the counter grows by \<open>n\<close>, the free pages by those of the block that were allocated and
  not reserved. The two agree exactly when all of them were.
\<close>

lemma default_free_pages_inv:
  assumes inv: "pmm_inv b m" and n: "0 < unat n" and blk: "unat base + unat n \<le> unat (NPAGE b)"
  shows "\<exists>m'. default_free_pages b base n m = Inr m' \<and>
      frames_of b m' = release_frames (unat base) (unat n) (frames_of b m) \<and>
      (pmm_inv b m' \<longleftrightarrow>
        {unat base..<unat base + unat n} \<subseteq> alc (frames_of b m) - rsv (frames_of b m))"
proof -
  let ?B = "{unat base..<unat base + unat n}"
  let ?m = "(upd_range clr_alc (unat base) (unat base + unat n) m)\<lparr>nr_free := nr_free m + n\<rparr>"
  let ?X = "alc (frames_of b m) - rsv (frames_of b m)"
  note ok = pmm_inv_ok [OF inv]
  have in_N: "?B \<subseteq> {..<unat (NPAGE b)}" using n blk by (simp add: block_subset_iff)
  have "base < NPAGE b" "n \<noteq> 0" using n blk by (auto simp: word_less_nat_alt)
  with blk have run: "default_free_pages b base n m = Inr ?m"
    by (simp add: default_free_pages_result [OF ok])
  have "n \<le> NPAGE b" using blk by (simp add: word_le_nat_alt)
  then have "unat (nr_free ?m) = unat (nr_free m) + unat n" using unat_count_add [OF inv] by simp
  moreover have "card (frames_free (unat (NPAGE b)) (frames_of b ?m)) =
      unat (nr_free m) + card (?B \<inter> ?X)"
    unfolding frames_of_upd(2) [OF ok] card_free_release [OF in_N] pmm_inv_count [OF inv] by simp
  moreover have "mm_ok b ?m" using ok by (simp add: mm_ok_def)
  ultimately have "pmm_inv b ?m \<longleftrightarrow> card (?B \<inter> ?X) = unat n"
    unfolding pmm_inv_def frames_free_of [symmetric] by auto
  also have "\<dots> \<longleftrightarrow> ?B \<subseteq> ?X"
  proof
    assume "card (?B \<inter> ?X) = unat n"
    then have "?B \<inter> ?X = ?B" by (intro card_subset_eq) auto
    then show "?B \<subseteq> ?X" by blast
  next
    assume "?B \<subseteq> ?X"
    then have "?B \<inter> ?X = ?B" by blast
    then show "card (?B \<inter> ?X) = unat n" by simp
  qed
  finally show ?thesis using run frames_of_upd(2) [OF ok] by auto
qed

interpretation default_mgr: page_manager "unat (NPAGE b)" "default_init_memmap b"
  "default_alloc_pages b" "default_free_pages b" default_nr_free_pages "frames_of b" "pmm_inv b"
  for b
proof
  fix m base and n :: u64
  assume inv: "pmm_inv b m"
  show "\<exists>r m'. default_init_memmap b base n m = Inr (r, m') \<and> pmm_inv b m' \<and>
      (r = 0 \<longleftrightarrow> 0 < unat n \<and> {unat base..<unat base + unat n} \<subseteq>
        {..<unat (NPAGE b)} \<inter> rsv (frames_of b m) - alc (frames_of b m)) \<and>
      frames_of b m' =
        (if r = 0 then open_frames (unat base) (unat n) (frames_of b m) else frames_of b m)"
    using inv by (rule default_memmap_law)
  show "\<exists>p m'. default_alloc_pages b n m = Inr (p, m') \<and> pmm_inv b m' \<and>
      alloc_frames (unat (NPAGE b)) (unat n) (frames_of b m) =
        (if p = NULLPAGE then None else Some (unat p), frames_of b m')"
    using inv by (rule default_alloc_law)
  show "unat (default_nr_free_pages m) =
      card (frames_free (unat (NPAGE b)) (frames_of b m))"
    using pmm_inv_count [OF inv] by (simp add: default_nr_free_pages_def)
  assume n: "0 < unat n" and sub: "{unat base..<unat base + unat n} \<subseteq>
      {..<unat (NPAGE b)} \<inter> alc (frames_of b m) - rsv (frames_of b m)"
  then have "{unat base..<unat base + unat n} \<subseteq> {..<unat (NPAGE b)}" by blast
  then have "unat base + unat n \<le> unat (NPAGE b)" using n by (simp add: block_subset_iff)
  from default_free_pages_inv [OF inv n this] sub
  show "\<exists>m'. default_free_pages b base n m = Inr m' \<and> pmm_inv b m' \<and>
      frames_of b m' = release_frames (unat base) (unat n) (frames_of b m)"
    by blast
qed

text \<open>Freeing pages that were not allocated makes the counter run ahead of the free pages.\<close>

lemma free_unallocated_count:
  assumes inv: "pmm_inv b m" and n: "0 < unat n" and blk: "unat base + unat n \<le> unat (NPAGE b)"
    and av: "{unat base..<unat base + unat n} \<inter> alc (frames_of b m) = {}"
  shows "\<exists>m'. default_free_pages b base n m = Inr m' \<and>
    unat (nr_free m') = card {i. i < unat (NPAGE b) \<and> available m' i} + unat n"
proof -
  let ?m = "(upd_range clr_alc (unat base) (unat base + unat n) m)\<lparr>nr_free := nr_free m + n\<rparr>"
  note ok = pmm_inv_ok [OF inv]
  have "base < NPAGE b" "n \<noteq> 0" "n \<le> NPAGE b"
    using n blk by (auto simp: word_less_nat_alt word_le_nat_alt)
  with blk have "default_free_pages b base n m = Inr ?m"
    by (simp add: default_free_pages_result [OF ok])
  moreover have "release_frames (unat base) (unat n) (frames_of b m) = frames_of b m"
    using av by (simp add: release_frames_def Diff_triv Int_commute)
  then have "card {i. i < unat (NPAGE b) \<and> available ?m i} = unat (nr_free m)"
    unfolding frames_free_of [symmetric] frames_of_upd(2) [OF ok]
    using pmm_inv_count [OF inv] by simp
  moreover have "unat (nr_free ?m) = unat (nr_free m) + unat n"
    using unat_count_add [OF inv \<open>n \<le> NPAGE b\<close>] by simp
  ultimately show ?thesis by (intro exI [of _ ?m]) simp
qed

text \<open>Clearing the flag a page just got gives back its word.\<close>

lemma upd_range_nr_free [simp]:
  "upd_range f lo hi (m\<lparr>nr_free := c\<rparr>) = (upd_range f lo hi m)\<lparr>nr_free := c\<rparr>"
  by (simp add: upd_range_def)

lemma clr_set_alc:
  assumes w: "\<not> bit w 1"
  shows "clr_alc (set_alc w) = w"
proof (rule bit_eqI)
  fix j assume "possible_bit TYPE(u64) j"
  then have j: "j < 64" by simp
  then have "bit (2 :: u64) j \<longleftrightarrow> j = 1" using bit_mask_iff [of j 1] by simp
  with w j show "bit (clr_alc (set_alc w)) j = bit w j"
    unfolding clr_alc_def set_alc_def bit_and_iff bit_or_iff bit_not_iff by auto
qed

lemma alloc_free_pages_same:
  assumes "mm_ok b m" and run: "free_run b m i k"
  shows "upd_range clr_alc i (i + k) (upd_range set_alc i (i + k) m) = m"
proof -
  have "clr_alc (set_alc (flags (pages m ! j))) = flags (pages m ! j)" if "i \<le> j" "j < i + k" for j
    using run that by (intro clr_set_alc) (simp add: free_run_def available_def allocated_def)
  then have "pages (upd_range clr_alc i (i + k) (upd_range set_alc i (i + k) m)) = pages m"
    by (auto simp: upd_range_def intro!: nth_equalityI)
  then show ?thesis by (simp add: upd_range_def)
qed

section \<open>Properties\<close>

text \<open>An executable form of the invariant, and a small state of the \<open>Verif\<close> build for the witnesses.\<close>

lemma pmm_inv_code [code]:
  "pmm_inv b m \<longleftrightarrow>
     mm_ok b m \<and> unat (nr_free m) = length (filter (available m) [0..<unat (NPAGE b)])"
proof -
  have "{i. i < unat (NPAGE b) \<and> available m i} = set (filter (available m) [0..<unat (NPAGE b)])"
    by auto
  then show ?thesis
    unfolding pmm_inv_def using distinct_card [of "filter (available m) [0..<unat (NPAGE b)]"] by simp
qed

definition demo_mm :: mm where
  "demo_mm = \<lparr>pages = [\<lparr>flags = 1\<rparr>, \<lparr>flags = 0\<rparr>, \<lparr>flags = 2\<rparr>, \<lparr>flags = 0\<rparr>, \<lparr>flags = 0\<rparr>],
     nr_free = 3\<rparr>"

lemma demo_mm_inv: "pmm_inv Verif demo_mm"
  by code_simp

text \<open>
  C1. Allocation refines first fit: from a state whose counter is right, \<open>default_alloc_pages\<close>
  never faults, takes the lowest run of \<open>n\<close> available pages (or returns \<open>NULLPAGE\<close> and changes
  nothing when there is none, or \<open>n\<close> is zero), marks exactly these pages allocated and keeps the
  counter right. Both builds.
\<close>

theorem default_alloc_refines_first_fit:
  assumes "pmm_inv b m"
  shows "\<exists>p m'. default_alloc_pages b n m = Inr (p, m') \<and> pmm_inv b m' \<and>
    alloc_frames (unat (NPAGE b)) (unat n) (frames_of b m) =
      (if p = NULLPAGE then None else Some (unat p), frames_of b m')"
  using assms by (rule default_mgr.alloc_law)

theorem default_alloc_refines_first_fit_witness:
  "pmm_inv Verif demo_mm \<and>
   (\<exists>p m'. default_alloc_pages Verif 2 demo_mm = Inr (p, m') \<and> pmm_inv Verif m' \<and>
     alloc_frames 5 2 (frames_of Verif demo_mm) =
       (if p = NULLPAGE then None else Some (unat p), frames_of Verif m')) \<and>
   default_alloc_pages Verif 2 demo_mm =
     Inr (3, \<lparr>pages = [\<lparr>flags = 1\<rparr>, \<lparr>flags = 0\<rparr>, \<lparr>flags = 2\<rparr>, \<lparr>flags = 2\<rparr>, \<lparr>flags = 2\<rparr>], nr_free = 1\<rparr>)"
proof (intro conjI)
  show "\<exists>p m'. default_alloc_pages Verif 2 demo_mm = Inr (p, m') \<and> pmm_inv Verif m' \<and>
     alloc_frames 5 2 (frames_of Verif demo_mm) =
       (if p = NULLPAGE then None else Some (unat p), frames_of Verif m')"
    using default_alloc_refines_first_fit [OF demo_mm_inv, of 2] by simp
  show "default_alloc_pages Verif 2 demo_mm =
     Inr (3, \<lparr>pages = [\<lparr>flags = 1\<rparr>, \<lparr>flags = 0\<rparr>, \<lparr>flags = 2\<rparr>, \<lparr>flags = 2\<rparr>, \<lparr>flags = 2\<rparr>], nr_free = 1\<rparr>)"
    by code_simp
qed (rule demo_mm_inv)

text \<open>
  C8. \<open>default_init_memmap\<close> on any arguments: it returns the code of the first check that fails (in
  the order of its comment: empty, too long, base too high, end too high, a page not reserved, a
  page allocated) and then changes nothing; with code 0 exactly the pages of the block stop being
  reserved and the counter stays right.
\<close>

theorem default_init_memmap_correct:
  assumes "pmm_inv b m"
  shows "\<exists>m'. default_init_memmap b base n m = Inr (memmap_code b base n m, m') \<and> pmm_inv b m' \<and>
    (memmap_code b base n m \<noteq> 0 \<longrightarrow> m' = m) \<and>
    (memmap_code b base n m = 0 \<longrightarrow>
      frames_of b m' = open_frames (unat base) (unat n) (frames_of b m))"
  using default_mgr.memmap_law [OF assms, of base n]
  by (auto simp: default_init_memmap_result [OF pmm_inv_ok [OF assms]] split: if_splits)

theorem default_init_memmap_correct_witness:
  "pmm_inv Verif demo_mm \<and>
   (\<exists>m'. default_init_memmap Verif 0 1 demo_mm = Inr (memmap_code Verif 0 1 demo_mm, m') \<and>
     pmm_inv Verif m' \<and> (memmap_code Verif 0 1 demo_mm \<noteq> 0 \<longrightarrow> m' = demo_mm) \<and>
     (memmap_code Verif 0 1 demo_mm = 0 \<longrightarrow>
       frames_of Verif m' = open_frames 0 1 (frames_of Verif demo_mm))) \<and>
   default_init_memmap Verif 0 1 demo_mm = Inr (0, \<lparr>pages = [\<lparr>flags = 0\<rparr>, \<lparr>flags = 0\<rparr>, \<lparr>flags = 2\<rparr>,
     \<lparr>flags = 0\<rparr>, \<lparr>flags = 0\<rparr>], nr_free = 4\<rparr>) \<and>
   default_init_memmap Verif 4 3 demo_mm = Inr (4, demo_mm)"
proof (intro conjI)
  show "\<exists>m'. default_init_memmap Verif 0 1 demo_mm = Inr (memmap_code Verif 0 1 demo_mm, m') \<and>
     pmm_inv Verif m' \<and> (memmap_code Verif 0 1 demo_mm \<noteq> 0 \<longrightarrow> m' = demo_mm) \<and>
     (memmap_code Verif 0 1 demo_mm = 0 \<longrightarrow>
       frames_of Verif m' = open_frames 0 1 (frames_of Verif demo_mm))"
    using default_init_memmap_correct [OF demo_mm_inv, of 0 1] by simp
  show "default_init_memmap Verif 0 1 demo_mm = Inr (0, \<lparr>pages = [\<lparr>flags = 0\<rparr>, \<lparr>flags = 0\<rparr>, \<lparr>flags = 2\<rparr>,
     \<lparr>flags = 0\<rparr>, \<lparr>flags = 0\<rparr>], nr_free = 4\<rparr>)" by code_simp
  show "default_init_memmap Verif 4 3 demo_mm = Inr (4, demo_mm)" by code_simp
qed (rule demo_mm_inv)

text \<open>
  C24. \<open>default_free_pages\<close> on a block inside the array: it never faults, clears the allocated flag of
  exactly the pages of the block, and keeps the counter right if and only if every page of the
  block was allocated and not reserved. The code does not check this.
\<close>

theorem default_free_count_iff_allocated:
  assumes "pmm_inv b m" and "0 < unat n" and "unat base + unat n \<le> unat (NPAGE b)"
  shows "\<exists>m'. default_free_pages b base n m = Inr m' \<and>
      frames_of b m' = release_frames (unat base) (unat n) (frames_of b m) \<and>
      (pmm_inv b m' \<longleftrightarrow>
        {unat base..<unat base + unat n} \<subseteq> alc (frames_of b m) - rsv (frames_of b m))"
  using assms by (rule default_free_pages_inv)

theorem default_free_count_iff_allocated_witness:
  "pmm_inv Verif demo_mm \<and>
   (\<exists>m'. default_free_pages Verif 2 1 demo_mm = Inr m' \<and>
      frames_of Verif m' = release_frames 2 1 (frames_of Verif demo_mm) \<and>
      (pmm_inv Verif m' \<longleftrightarrow>
        {2..<3} \<subseteq> alc (frames_of Verif demo_mm) - rsv (frames_of Verif demo_mm))) \<and>
   default_free_pages Verif 2 1 demo_mm = Inr \<lparr>pages = [\<lparr>flags = 1\<rparr>, \<lparr>flags = 0\<rparr>, \<lparr>flags = 0\<rparr>,
     \<lparr>flags = 0\<rparr>, \<lparr>flags = 0\<rparr>], nr_free = 4\<rparr>"
proof (intro conjI)
  show "\<exists>m'. default_free_pages Verif 2 1 demo_mm = Inr m' \<and>
      frames_of Verif m' = release_frames 2 1 (frames_of Verif demo_mm) \<and>
      (pmm_inv Verif m' \<longleftrightarrow>
        {2..<3} \<subseteq> alc (frames_of Verif demo_mm) - rsv (frames_of Verif demo_mm))"
    using default_free_count_iff_allocated [OF demo_mm_inv, of 1 2] by simp
  show "default_free_pages Verif 2 1 demo_mm = Inr \<lparr>pages = [\<lparr>flags = 1\<rparr>, \<lparr>flags = 0\<rparr>, \<lparr>flags = 0\<rparr>,
     \<lparr>flags = 0\<rparr>, \<lparr>flags = 0\<rparr>], nr_free = 4\<rparr>" by code_simp
qed (rule demo_mm_inv)

text \<open>
  C32. Freeing pages that are not allocated (a second free of the same block) makes \<open>nr_free\<close> exceed
  the number of free pages by the size of the block.
\<close>

theorem double_free_overcounts:
  assumes "pmm_inv b m" and "0 < unat n" and "unat base + unat n \<le> unat (NPAGE b)"
    and "{unat base..<unat base + unat n} \<inter> alc (frames_of b m) = {}"
  shows "\<exists>m'. default_free_pages b base n m = Inr m' \<and>
    unat (nr_free m') = card {i. i < unat (NPAGE b) \<and> available m' i} + unat n"
  using assms by (rule free_unallocated_count)

theorem double_free_overcounts_witness:
  "pmm_inv Verif demo_mm \<and> {3..<5} \<inter> alc (frames_of Verif demo_mm) = {} \<and>
   (\<exists>m'. default_free_pages Verif 3 2 demo_mm = Inr m' \<and>
    unat (nr_free m') = card {i. i < 5 \<and> available m' i} + 2)"
proof -
  have "\<not> allocated demo_mm 3" "\<not> allocated demo_mm 4" by code_simp+
  then have h: "{3..<5} \<inter> alc (frames_of Verif demo_mm) = {}"
    by (auto simp: frames_of_def atLeastLessThan_nat_numeral)
  show ?thesis
    using h demo_mm_inv double_free_overcounts [OF demo_mm_inv, of 2 3] by simp
qed

text \<open>
  C25. Freeing what was just allocated gives back the very same globals: every flag word and the
  counter.
\<close>

theorem alloc_then_free_restores:
  assumes "mm_ok b m" and "default_alloc_pages b n m = Inr (p, m')" and "p \<noteq> NULLPAGE"
  shows "default_free_pages b p n m' = Inr m"
  using assms(1)
proof (cases rule: default_alloc_pages_cases [where n = n])
  case none
  with assms(2,3) show ?thesis by simp
next
  case (found i)
  with assms(2) have p: "p = of_nat i"
    and m': "m' = (upd_range set_alc i (i + unat n) m)\<lparr>nr_free := nr_free m - n\<rparr>" by auto
  have blk: "i + unat n \<le> unat (NPAGE b)" using found(2) by (simp add: free_run_def)
  then have i: "unat p = i" unfolding p using NPAGE_bounds(2) [of b] by (intro unat_of_nat_u64) simp
  then have "p < NPAGE b" "n \<noteq> 0" using blk found(1) by (auto simp: word_less_nat_alt)
  moreover have "mm_ok b m'" using assms(1) m' by (simp add: mm_ok_def)
  moreover have "(upd_range clr_alc i (i + unat n) m')\<lparr>nr_free := nr_free m' + n\<rparr> = m"
    using alloc_free_pages_same [OF assms(1) found(2)] m' by simp
  ultimately show ?thesis using blk i by (simp add: default_free_pages_result)
qed

theorem alloc_then_free_restores_witness:
  "default_free_pages Verif 3 2
     \<lparr>pages = [\<lparr>flags = 1\<rparr>, \<lparr>flags = 0\<rparr>, \<lparr>flags = 2\<rparr>, \<lparr>flags = 2\<rparr>, \<lparr>flags = 2\<rparr>], nr_free = 1\<rparr> = Inr demo_mm"
proof (rule alloc_then_free_restores)
  show "mm_ok Verif demo_mm" by code_simp
  show "default_alloc_pages Verif 2 demo_mm =
     Inr (3, \<lparr>pages = [\<lparr>flags = 1\<rparr>, \<lparr>flags = 0\<rparr>, \<lparr>flags = 2\<rparr>, \<lparr>flags = 2\<rparr>, \<lparr>flags = 2\<rparr>], nr_free = 1\<rparr>)"
    by code_simp
  show "(3 :: u64) \<noteq> NULLPAGE" by code_simp
qed

end
