(* ===== verification/Llvm_Spec.thy ===== *)
theory Llvm_Spec
  imports Pmm_Spec
begin

text \<open>
  The executable specification the repository checks its allocator against
  (\<open>verif/llvm-spec.rkt\<close>), with the abstraction function of \<open>verif/llvm-impl.rkt\<close>, and the refinement
  that \<open>verif/llvm.rkt\<close> asks the solver for. There the proof is a bounded one, with \<open>NPAGE\<close> fixed to
  5 and every loop unrolled; here it holds for both values of \<open>NPAGE\<close>.
\<close>

section \<open>The specification\<close>

text \<open>
  Of the registers only \<open>a0\<close> matters, the returned value; \<open>None\<close> is \<open>(void)\<close>. The page database is a
  total function on 64-bit page numbers.
\<close>

record spec_state =
  a0 :: "u64 option"
  nrfree :: u64
  pagedb_flag :: "u64 \<Rightarrow> u64"

definition page_flag_mask :: "nat \<Rightarrow> u64" where
  "page_flag_mask flag = push_bit flag 1"

definition page_in_bound :: "build \<Rightarrow> u64 \<Rightarrow> bool" where
  "page_in_bound b pageno \<longleftrightarrow> pageno < NPAGE b"

definition page_has_flag :: "build \<Rightarrow> spec_state \<Rightarrow> u64 \<Rightarrow> nat \<Rightarrow> bool" where
  "page_has_flag b s pageno flag \<longleftrightarrow>
     page_in_bound b pageno \<and> pagedb_flag s pageno AND page_flag_mask flag \<noteq> 0"

definition page_reserved :: "build \<Rightarrow> spec_state \<Rightarrow> u64 \<Rightarrow> bool" where
  "page_reserved b s pageno = page_has_flag b s pageno (nat PG_reserved)"

definition page_allocated :: "build \<Rightarrow> spec_state \<Rightarrow> u64 \<Rightarrow> bool" where
  "page_allocated b s pageno = page_has_flag b s pageno (nat PG_allocated)"

definition page_available :: "build \<Rightarrow> spec_state \<Rightarrow> u64 \<Rightarrow> bool" where
  "page_available b s pageno \<longleftrightarrow> \<not> page_allocated b s pageno \<and> \<not> page_reserved b s pageno"

definition set_return :: "spec_state \<Rightarrow> u64 option \<Rightarrow> spec_state" where
  "set_return s val = s\<lparr>a0 := val\<rparr>"

definition update_func :: "(u64 \<Rightarrow> u64) \<Rightarrow> (u64 \<Rightarrow> bool) \<Rightarrow> (u64 \<Rightarrow> u64) \<Rightarrow> u64 \<Rightarrow> u64" where
  "update_func f prd value_func = (\<lambda>arg. if prd arg then value_func (f arg) else f arg)"

definition page_set_flag_func :: "spec_state \<Rightarrow> (u64 \<Rightarrow> bool) \<Rightarrow> nat \<Rightarrow> spec_state" where
  "page_set_flag_func s prd flag =
     s\<lparr>pagedb_flag := update_func (pagedb_flag s) prd (\<lambda>val. val OR page_flag_mask flag)\<rparr>"

definition page_clear_flag_func :: "spec_state \<Rightarrow> (u64 \<Rightarrow> bool) \<Rightarrow> nat \<Rightarrow> spec_state" where
  "page_clear_flag_func s prd flag =
     s\<lparr>pagedb_flag := update_func (pagedb_flag s) prd (\<lambda>val. NOT (page_flag_mask flag) AND val)\<rparr>"

definition all_page_numbers :: "build \<Rightarrow> u64 list" where
  "all_page_numbers b = map of_nat [0..<unat (NPAGE b)]"

definition spec_default_init :: "spec_state \<Rightarrow> spec_state" where
  "spec_default_init s = set_return (s\<lparr>nrfree := 0\<rparr>) None"

definition page_valid_flag :: "build \<Rightarrow> spec_state \<Rightarrow> u64 \<Rightarrow> u64 \<Rightarrow> nat \<Rightarrow> bool" where
  "page_valid_flag b s base num flag =
     list_all (\<lambda>pageno. pageno \<ge> base \<and> pageno < base + num \<longrightarrow> page_has_flag b s pageno flag)
       (all_page_numbers b)"

definition page_sat_flag :: "build \<Rightarrow> spec_state \<Rightarrow> u64 \<Rightarrow> u64 \<Rightarrow> nat \<Rightarrow> bool" where
  "page_sat_flag b s base num flag =
     list_ex (\<lambda>pageno. (pageno \<ge> base \<and> pageno < base + num) \<and> page_has_flag b s pageno flag)
       (all_page_numbers b)"

definition spec_default_init_memmap :: "build \<Rightarrow> u64 \<Rightarrow> u64 \<Rightarrow> spec_state \<Rightarrow> spec_state" where
  "spec_default_init_memmap b base num s =
     (let (val, s') =
        (if \<not> num > 0 then (1, s)
         else if \<not> num \<le> NPAGE b then (2, s)
         else if \<not> base \<le> NPAGE b then (3, s)
         else if \<not> base + num \<le> NPAGE b then (4, s)
         else if \<not> page_valid_flag b s base num (nat PG_reserved) then (5, s)
         else if page_sat_flag b s base num (nat PG_allocated) then (6, s)
         else
           (let s1 = page_clear_flag_func s (\<lambda>pageno. pageno \<ge> base \<and> pageno < base + num)
                       (nat PG_reserved)
            in (0, s1\<lparr>nrfree := nrfree s1 + num\<rparr>)))
      in set_return s' (Some val))"

fun find_free_accumulate ::
  "build \<Rightarrow> spec_state \<Rightarrow> u64 \<Rightarrow> u64 list \<Rightarrow> u64 \<Rightarrow> u64 \<Rightarrow> u64 option" where
  "find_free_accumulate b s num [] acc ans = (if num = acc then Some ans else None)"
| "find_free_accumulate b s num (p # ps) acc ans =
     (if num = acc then Some ans
      else if page_available b s p
      then find_free_accumulate b s num ps (acc + 1) (if acc = 0 then p else ans)
      else find_free_accumulate b s num ps 0 0)"

definition find_free_pages :: "build \<Rightarrow> spec_state \<Rightarrow> u64 \<Rightarrow> u64 option" where
  "find_free_pages b s num = find_free_accumulate b s num (all_page_numbers b) 0 0"

definition spec_default_alloc_pages :: "build \<Rightarrow> u64 \<Rightarrow> spec_state \<Rightarrow> spec_state" where
  "spec_default_alloc_pages b num s =
     (let (val, s') =
        (if \<not> 0 < num then (NULLPAGE, s)
         else if \<not> num \<le> NPAGE b then (NULLPAGE, s)
         else
           (case find_free_pages b s num of
              Some freeblk \<Rightarrow>
                (let s1 = s\<lparr>nrfree := nrfree s - num\<rparr>
                 in (freeblk,
                     page_set_flag_func s1
                       (\<lambda>pageno. freeblk \<le> pageno \<and> pageno < num + freeblk) (nat PG_allocated)))
            | None \<Rightarrow> (NULLPAGE, s)))
      in set_return s' (Some val))"

definition spec_default_free_pages :: "build \<Rightarrow> u64 \<Rightarrow> u64 \<Rightarrow> spec_state \<Rightarrow> spec_state" where
  "spec_default_free_pages b base num s =
     set_return
       (if \<not> base \<ge> NPAGE b \<and> num \<noteq> 0 \<and> \<not> num > NPAGE b \<and> \<not> base + num > NPAGE b
        then let s1 = page_clear_flag_func s (\<lambda>pageno. pageno \<ge> base \<and> pageno < base + num)
                        (nat PG_allocated)
             in s1\<lparr>nrfree := nrfree s1 + num\<rparr>
        else s) None"

definition spec_default_nr_free_pages :: "spec_state \<Rightarrow> spec_state" where
  "spec_default_nr_free_pages s = set_return s (Some (nrfree s))"

fun bvcount :: "('a \<Rightarrow> bool) \<Rightarrow> 'a list \<Rightarrow> u64" where
  "bvcount f [] = 0"
| "bvcount f (x # l) = (let cnt = bvcount f l in if f x then cnt + 1 else cnt)"

definition nr_free_eq :: "build \<Rightarrow> spec_state \<Rightarrow> bool" where
  "nr_free_eq b st \<longleftrightarrow> bvcount (\<lambda>idx. page_available b st idx) (all_page_numbers b) = nrfree st"

text \<open>Equality of states (\<open>equal-proc\<close>): the page database is compared on existing pages only.\<close>

definition spec_eq :: "build \<Rightarrow> spec_state \<Rightarrow> spec_state \<Rightarrow> bool" where
  "spec_eq b s t \<longleftrightarrow> a0 s = a0 t \<and> nrfree s = nrfree t \<and>
     (\<forall>pageno. page_in_bound b pageno \<longrightarrow> pagedb_flag s pageno = pagedb_flag t pageno)"

text \<open>
  The abstraction (\<open>mregions-abstract\<close>): what the memory blocks \<open>nr_free\<close> and \<open>pages\<close> hold, and the
  returned value. A load outside \<open>pages\<close> has no value; \<open>spec_eq\<close> never looks at one.
\<close>

definition mregions_abstract :: "mm \<Rightarrow> u64 option \<Rightarrow> spec_state" where
  "mregions_abstract m retval =
     \<lparr>a0 = retval, nrfree = nr_free m,
      pagedb_flag = (\<lambda>pageno.
        if unat pageno < length (pages m) then flags (pages m ! unat pageno) else 0)\<rparr>"

section \<open>Reading the specification through the abstraction\<close>

lemma page_has_flag_abs:
  assumes "mm_ok b m" and "i < unat (NPAGE b)"
  shows "page_has_flag b (mregions_abstract m r) (of_nat i) k \<longleftrightarrow> bit (flags (pages m ! i)) k"
proof -
  have "unat (of_nat i :: u64) = i"
    using assms(2) NPAGE_bounds(2) [of b] by (intro unat_of_nat_u64) simp
  with assms show ?thesis
    by (simp add: page_has_flag_def page_in_bound_def mregions_abstract_def mm_ok_def
        page_flag_mask_def word_less_nat_alt and_exp_eq_0_iff_not_bit)
qed

lemma page_tests_abs:
  assumes "mm_ok b m" and "i < unat (NPAGE b)"
  shows "page_reserved b (mregions_abstract m r) (of_nat i) = reserved m i"
    and "page_allocated b (mregions_abstract m r) (of_nat i) = allocated m i"
    and "page_available b (mregions_abstract m r) (of_nat i) = available m i"
  using page_has_flag_abs [OF assms]
  by (auto simp: page_reserved_def page_allocated_def page_available_def PG_reserved_def
      PG_allocated_def reserved_def allocated_def available_def)

lemma block_number_iff:
  fixes base n :: u64
  assumes "unat (base + n) = unat base + unat n" and "i < unat (NPAGE b)"
  shows "base \<le> of_nat i \<and> of_nat i < base + n \<longleftrightarrow> unat base \<le> i \<and> i < unat base + unat n"
proof -
  have "unat (of_nat i :: u64) = i"
    using assms(2) NPAGE_bounds(2) [of b] by (intro unat_of_nat_u64) simp
  with assms(1) show ?thesis by (simp add: word_le_nat_alt word_less_nat_alt)
qed

lemma block_checks_abs:
  assumes ok: "mm_ok b m" and sum: "unat (base + n) = unat base + unat n"
    and blk: "unat base + unat n \<le> unat (NPAGE b)"
  shows "page_valid_flag b (mregions_abstract m r) base n k \<longleftrightarrow>
      (\<forall>i. unat base \<le> i \<and> i < unat base + unat n \<longrightarrow> bit (flags (pages m ! i)) k)"
    and "page_sat_flag b (mregions_abstract m r) base n k \<longleftrightarrow>
      (\<exists>i. unat base \<le> i \<and> i < unat base + unat n \<and> bit (flags (pages m ! i)) k)"
proof -
  note num = block_number_iff [OF sum, of _ b] page_has_flag_abs [OF ok]
  show "page_valid_flag b (mregions_abstract m r) base n k \<longleftrightarrow>
      (\<forall>i. unat base \<le> i \<and> i < unat base + unat n \<longrightarrow> bit (flags (pages m ! i)) k)"
    using blk num
    by (auto simp: page_valid_flag_def all_page_numbers_def list_all_iff)
  show "page_sat_flag b (mregions_abstract m r) base n k \<longleftrightarrow>
      (\<exists>i. unat base \<le> i \<and> i < unat base + unat n \<and> bit (flags (pages m ! i)) k)"
  proof
    assume "page_sat_flag b (mregions_abstract m r) base n k"
    then obtain i where i: "i < unat (NPAGE b)" and "base \<le> of_nat i \<and> of_nat i < base + n"
      and "page_has_flag b (mregions_abstract m r) (of_nat i) k"
      by (auto simp: page_sat_flag_def all_page_numbers_def list_ex_iff)
    then show "\<exists>i. unat base \<le> i \<and> i < unat base + unat n \<and> bit (flags (pages m ! i)) k"
      using num [OF i] by auto
  next
    assume "\<exists>i. unat base \<le> i \<and> i < unat base + unat n \<and> bit (flags (pages m ! i)) k"
    then obtain i where "unat base \<le> i" "i < unat base + unat n" "bit (flags (pages m ! i)) k"
      and i: "i < unat (NPAGE b)" using blk by auto
    then have "(base \<le> of_nat i \<and> of_nat i < base + n) \<and>
        page_has_flag b (mregions_abstract m r) (of_nat i) k" using num [OF i] by simp
    with i show "page_sat_flag b (mregions_abstract m r) base n k"
      unfolding page_sat_flag_def all_page_numbers_def list_ex_iff by fastforce
  qed
qed

text \<open>The specification's search finds the first fit.\<close>

lemma find_free_accumulate_first_fit:
  assumes ok: "mm_ok b m" and num: "0 < unat num" and q: "q \<le> unat (NPAGE b)"
    and acc: "unat acc \<le> q" "unat acc \<le> unat num"
    and av: "\<forall>j. q - unat acc \<le> j \<and> j < q \<longrightarrow> available m j"
    and ans: "0 < unat acc \<Longrightarrow> ans = of_nat (q - unat acc)"
    and none: "\<forall>j < q - unat acc. \<not> free_run b m j (unat num)"
  shows "(\<exists>i. free_run b m i (unat num) \<and> (\<forall>j < i. \<not> free_run b m j (unat num)) \<and>
      find_free_accumulate b (mregions_abstract m r) num (map of_nat [q..<unat (NPAGE b)]) acc ans =
        Some (of_nat i)) \<or>
    ((\<forall>j. \<not> free_run b m j (unat num)) \<and>
      find_free_accumulate b (mregions_abstract m r) num (map of_nat [q..<unat (NPAGE b)]) acc ans =
        None)"
  using q acc av ans none
proof (induction "unat (NPAGE b) - q" arbitrary: q acc ans)
  case 0
  then have q: "q = unat (NPAGE b)" by simp
  show ?case
  proof (cases "num = acc")
    case True
    then have "free_run b m (q - unat num) (unat num)"
      using 0(2-6) by (auto simp: free_run_def)
    with True 0(6,7) num q show ?thesis by (auto intro!: exI [of _ "q - unat num"])
  next
    case False
    then have "unat acc < unat num" using 0(4) by (simp add: word_unat_eq_iff)
    with q 0(3,7) have "\<not> free_run b m j (unat num)" for j
      by (cases "j < q - unat acc") (auto simp: free_run_def)
    with False q show ?thesis by simp
  qed
next
  case (Suc d)
  have qN: "q < unat (NPAGE b)" using Suc.hyps(2) by simp
  then have list: "map of_nat [q..<unat (NPAGE b)] =
      (of_nat q :: u64) # map of_nat [Suc q..<unat (NPAGE b)]" by (simp add: upt_conv_Cons)
  note avq = page_tests_abs(3) [OF ok qN, of r]
  show ?case
  proof (cases "num = acc")
    case True
    then have "free_run b m (q - unat num) (unat num)"
      using Suc.prems(1-4) by (auto simp: free_run_def)
    with True Suc.prems(5,6) num show ?thesis by (auto simp: list intro!: exI [of _ "q - unat num"])
  next
    case False
    then have less: "unat acc < unat num" using Suc.prems(3) by (simp add: word_unat_eq_iff)
    show ?thesis
    proof (cases "available m q")
      case True
      have acc1: "unat (acc + 1) = Suc (unat acc)"
        using less by (intro unat_u64_Suc [of acc num]) (simp add: word_less_nat_alt)
      have "\<forall>j. Suc q - Suc (unat acc) \<le> j \<and> j < Suc q \<longrightarrow> available m j"
        using Suc.prems(4) True by (auto simp: less_Suc_eq)
      moreover have "(if acc = 0 then of_nat q else ans) = (of_nat (Suc q - Suc (unat acc)) :: u64)"
        using Suc.prems(5) by (auto simp: unat_gt_0)
      ultimately show ?thesis
        using Suc.hyps(1) [of "Suc q" "acc + 1" "if acc = 0 then of_nat q else ans"]
          Suc.hyps(2) qN Suc.prems(2,6) less True False avq acc1
        by (simp add: list)
    next
      case na: False
      have "\<not> free_run b m j (unat num)" if "j < Suc q" for j
        using that less na Suc.prems(2,6)
        by (cases "j < q - unat acc") (auto simp: free_run_def intro!: exI [of _ q])
      then show ?thesis
        using Suc.hyps(1) [of "Suc q" 0 0] Suc.hyps(2) qN na False avq
        by (simp add: list not_le [symmetric])
    qed
  qed
qed

lemma find_free_pages_first_fit:
  assumes "mm_ok b m" and "0 < unat num"
  shows "(\<exists>i. free_run b m i (unat num) \<and> (\<forall>j < i. \<not> free_run b m j (unat num)) \<and>
      find_free_pages b (mregions_abstract m r) num = Some (of_nat i)) \<or>
    ((\<forall>j. \<not> free_run b m j (unat num)) \<and> find_free_pages b (mregions_abstract m r) num = None)"
  unfolding find_free_pages_def all_page_numbers_def
  by (rule find_free_accumulate_first_fit [OF assms]) simp_all

section \<open>Refinement\<close>

lemma unat_in_bound: "mm_ok b m \<Longrightarrow> page_in_bound b p \<longleftrightarrow> unat p < length (pages m)"
  by (simp add: page_in_bound_def mm_ok_def word_less_nat_alt)

text \<open>
  Updating the flags of a block of pages is updating the page database on the block's numbers.
\<close>

lemma spec_eq_upd_range:
  assumes ok: "mm_ok b m" and sum: "unat (base + n) = unat base + unat n"
  shows "spec_eq b
     (mregions_abstract ((upd_range f (unat base) (unat base + unat n) m)\<lparr>nr_free := c\<rparr>) r)
     \<lparr>a0 = r, nrfree = c,
      pagedb_flag = update_func (pagedb_flag (mregions_abstract m r'))
        (\<lambda>p. base \<le> p \<and> p < base + n) f\<rparr>"
  using assms
  by (auto simp: spec_eq_def mregions_abstract_def update_func_def unat_in_bound [OF ok]
      upd_range_flags word_le_nat_alt word_less_nat_alt)

lemma flag_masks:
  "page_flag_mask (nat PG_reserved) = 1" "page_flag_mask (nat PG_allocated) = 2"
  by (simp_all add: page_flag_mask_def PG_reserved_def PG_allocated_def)

lemma spec_eq_refl [simp]: "spec_eq b s s"
  by (simp add: spec_eq_def)

lemma abs_flag:
  "pagedb_flag (mregions_abstract m r) =
     (\<lambda>p. if unat p < length (pages m) then flags (pages m ! unat p) else 0)"
  by (simp add: mregions_abstract_def)

lemma abs_fields [simp]:
  "a0 (mregions_abstract m r) = r" "nrfree (mregions_abstract m r) = nr_free m"
  "(mregions_abstract m r)\<lparr>a0 := r'\<rparr> = mregions_abstract m r'"
  by (simp_all add: mregions_abstract_def)

lemma record_upd_block:
  "page_clear_flag_func s prd (nat PG_reserved) =
     s\<lparr>pagedb_flag := update_func (pagedb_flag s) prd clr_rsv\<rparr>"
  "page_clear_flag_func s prd (nat PG_allocated) =
     s\<lparr>pagedb_flag := update_func (pagedb_flag s) prd clr_alc\<rparr>"
  "page_set_flag_func s prd (nat PG_allocated) =
     s\<lparr>pagedb_flag := update_func (pagedb_flag s) prd set_alc\<rparr>"
proof -
  have "(\<lambda>val. NOT w AND val) = (\<lambda>val. val AND NOT w)" for w :: u64
    by (simp add: fun_eq_iff and.commute)
  then show "page_clear_flag_func s prd (nat PG_reserved) =
      s\<lparr>pagedb_flag := update_func (pagedb_flag s) prd clr_rsv\<rparr>"
    and "page_clear_flag_func s prd (nat PG_allocated) =
      s\<lparr>pagedb_flag := update_func (pagedb_flag s) prd clr_alc\<rparr>"
    by (simp_all only: page_clear_flag_func_def flag_masks clr_rsv_def [abs_def] clr_alc_def [abs_def])
  show "page_set_flag_func s prd (nat PG_allocated) =
      s\<lparr>pagedb_flag := update_func (pagedb_flag s) prd set_alc\<rparr>"
    by (simp only: page_set_flag_func_def flag_masks set_alc_def [abs_def])
qed

lemma refine_init_memmap:
  assumes ok: "mm_ok b m"
  shows "\<exists>c m'. default_init_memmap b base n m = Inr (c, m') \<and>
    spec_eq b (mregions_abstract m' (Some c))
      (spec_default_init_memmap b base n (mregions_abstract m r))"
proof (cases "n = 0 \<or> NPAGE b < n \<or> NPAGE b < base")
  case True
  then have code: "memmap_code b base n m = (if n = 0 then 1 else if NPAGE b < n then 2 else 3)"
    by (auto simp: memmap_code_def)
  show ?thesis
    unfolding default_init_memmap_result [OF ok] code spec_default_init_memmap_def
    using True by (cases "n = 0"; cases "NPAGE b < n")
      (simp_all add: set_return_def not_le word_gt_0 Let_def)
next
  case False
  then have sum: "unat (base + n) = unat base + unat n"
    using NPAGE_bounds(2) [of b] by (intro unat_add_pages) (auto simp: word_less_nat_alt)
  show ?thesis
  proof (cases "unat base + unat n \<le> unat (NPAGE b)")
    case blk: True
    then have le: "base + n \<le> NPAGE b" using sum by (simp add: word_le_nat_alt)
    have valid: "page_valid_flag b (mregions_abstract m r) base n (nat PG_reserved) \<longleftrightarrow>
        \<not> (\<exists>i. unat base \<le> i \<and> i < unat base + unat n \<and> \<not> reserved m i)"
      unfolding block_checks_abs [OF ok sum blk] by (auto simp: PG_reserved_def reserved_def)
    have sat: "page_sat_flag b (mregions_abstract m r) base n (nat PG_allocated) \<longleftrightarrow>
        (\<exists>i. unat base \<le> i \<and> i < unat base + unat n \<and> allocated m i)"
      unfolding block_checks_abs [OF ok sum blk] by (simp add: PG_allocated_def allocated_def)
    show ?thesis
      unfolding default_init_memmap_result [OF ok] spec_default_init_memmap_def valid sat
        record_upd_block
      using False blk le
        spec_eq_upd_range [OF ok sum, where f = clr_rsv and c = "nr_free m + n" and r = "Some 0" and r' = r]
      by (simp add: memmap_code_def set_return_def not_le not_less word_gt_0 spec_eq_def Let_def)
  next
    case gt: False
    then have "\<not> base + n \<le> NPAGE b" using sum by (simp add: word_le_nat_alt)
    moreover have "memmap_code b base n m = 4" using False gt by (simp add: memmap_code_def)
    ultimately show ?thesis
      unfolding default_init_memmap_result [OF ok] spec_default_init_memmap_def
      using False by (simp add: set_return_def not_le not_less word_gt_0 Let_def)
  qed
qed

lemma refine_free_pages:
  assumes ok: "mm_ok b m"
  shows "\<exists>m'. default_free_pages b base n m = Inr m' \<and>
    spec_eq b (mregions_abstract m' None)
      (spec_default_free_pages b base n (mregions_abstract m r))"
proof (cases "base < NPAGE b \<and> n \<noteq> 0 \<and> n \<le> NPAGE b")
  case True
  then have sum: "unat (base + n) = unat base + unat n"
    using NPAGE_bounds(2) [of b]
    by (intro unat_add_pages) (auto simp: word_less_nat_alt word_le_nat_alt)
  then have "base + n \<le> NPAGE b \<longleftrightarrow> unat base + unat n \<le> unat (NPAGE b)"
    by (simp add: word_le_nat_alt)
  with True spec_eq_upd_range [OF ok sum, where f = clr_alc and c = "nr_free m + n" and r = None and r' = r] show ?thesis
    by (auto simp: default_free_pages_result [OF ok] spec_default_free_pages_def set_return_def
        not_le not_less record_upd_block spec_eq_def Let_def abs_flag)
next
  case False
  then have "\<not> (base < NPAGE b \<and> n \<noteq> 0 \<and> unat base + unat n \<le> unat (NPAGE b))"
    by (auto simp: word_le_nat_alt)
  with False show ?thesis
    by (auto simp: default_free_pages_result [OF ok] spec_default_free_pages_def set_return_def
        not_le not_less)
qed

lemma refine_alloc_pages:
  assumes ok: "mm_ok b m"
  shows "\<exists>p m'. default_alloc_pages b n m = Inr (p, m') \<and>
    spec_eq b (mregions_abstract m' (Some p))
      (spec_default_alloc_pages b n (mregions_abstract m r))"
proof (cases "n = 0 \<or> NPAGE b < n")
  case True
  then show ?thesis
    by (auto simp: default_alloc_pages_def spec_default_alloc_pages_def set_return_def not_le)
next
  case False
  then have n: "0 < unat n" by (simp add: unat_gt_0)
  from ok show ?thesis
  proof (cases rule: default_alloc_pages_cases [where n = n])
    case none
    then have "find_free_pages b (mregions_abstract m r) n = None"
      using find_free_pages_first_fit [OF ok n, of r] False by auto
    with none False show ?thesis
      by (simp add: spec_default_alloc_pages_def set_return_def not_le word_gt_0)
  next
    case (found i)
    then have fit: "find_free_pages b (mregions_abstract m r) n = Some (of_nat i)"
      using find_free_pages_first_fit [OF ok n, of r] by (metis linorder_neqE_nat)
    have blk: "i + unat n \<le> unat (NPAGE b)" using found(2) by (simp add: free_run_def)
    then have i: "unat (of_nat i :: u64) = i"
      using NPAGE_bounds(2) [of b] by (intro unat_of_nat_u64) simp
    then have sum: "unat (of_nat i + n) = unat (of_nat i :: u64) + unat n"
      using blk NPAGE_bounds(2) [of b] by (intro unat_add_pages) auto
    show ?thesis
      using found(4) fit False i
        spec_eq_upd_range [OF ok sum, where f = set_alc and c = "nr_free m - n" and r = "Some (of_nat i)" and r' = r]
      by (auto simp: spec_default_alloc_pages_def set_return_def not_le word_gt_0 record_upd_block
          spec_eq_def Let_def add.commute [of n])
  qed
qed

lemma bvcount_filter: "bvcount f xs = of_nat (length (filter f xs))"
  by (induction xs) (simp_all add: Let_def)

lemma nr_free_eq_abs:
  assumes ok: "mm_ok b m"
  shows "nr_free_eq b (mregions_abstract m r) \<longleftrightarrow> pmm_inv b m"
proof -
  let ?n = "length (filter (available m) [0..<unat (NPAGE b)])"
  have "filter (page_available b (mregions_abstract m r) \<circ> of_nat) [0..<unat (NPAGE b)] =
      filter (available m) [0..<unat (NPAGE b)]"
    using page_tests_abs(3) [OF ok] by (intro filter_cong) auto
  then have "nr_free_eq b (mregions_abstract m r) \<longleftrightarrow> (of_nat ?n :: u64) = nr_free m"
    by (simp add: nr_free_eq_def bvcount_filter all_page_numbers_def filter_map)
  moreover have "?n \<le> 4096"
    using length_filter_le [of "available m" "[0..<unat (NPAGE b)]"] NPAGE_bounds(2) [of b] by simp
  then have "unat (of_nat ?n :: u64) = ?n" by (intro unat_of_nat_u64) simp
  ultimately show ?thesis
    using ok by (auto simp: pmm_inv_code word_unat_eq_iff)
qed

section \<open>Properties\<close>

text \<open>
  C6. Every operation of the allocator refines the repository's specification: run on any globals
  with one descriptor per page and any 64-bit arguments it returns without a fault, and the
  abstraction of its result is the specification's result on the abstraction of its start, for
  both values of \<open>NPAGE\<close>.
\<close>

theorem llvm_spec_refinement:
  assumes "mm_ok b m"
  shows "spec_eq b (mregions_abstract (default_init m) None)
      (spec_default_init (mregions_abstract m r)) \<and>
    (\<exists>c m'. default_init_memmap b base n m = Inr (c, m') \<and>
      spec_eq b (mregions_abstract m' (Some c))
        (spec_default_init_memmap b base n (mregions_abstract m r))) \<and>
    (\<exists>p m'. default_alloc_pages b n m = Inr (p, m') \<and>
      spec_eq b (mregions_abstract m' (Some p))
        (spec_default_alloc_pages b n (mregions_abstract m r))) \<and>
    (\<exists>m'. default_free_pages b base n m = Inr m' \<and>
      spec_eq b (mregions_abstract m' None)
        (spec_default_free_pages b base n (mregions_abstract m r))) \<and>
    spec_eq b (mregions_abstract m (Some (default_nr_free_pages m)))
      (spec_default_nr_free_pages (mregions_abstract m r))"
proof (intro conjI)
  show "spec_eq b (mregions_abstract (default_init m) None)
      (spec_default_init (mregions_abstract m r))"
    by (simp add: spec_eq_def spec_default_init_def set_return_def default_init_def abs_flag)
  show "spec_eq b (mregions_abstract m (Some (default_nr_free_pages m)))
      (spec_default_nr_free_pages (mregions_abstract m r))"
    by (simp add: spec_default_nr_free_pages_def set_return_def default_nr_free_pages_def)
qed (rule refine_init_memmap [OF assms] refine_alloc_pages [OF assms] refine_free_pages [OF assms])+

theorem llvm_spec_refinement_witness:
  "mm_ok Verif demo_mm \<and>
   (\<exists>p m'. default_alloc_pages Verif 2 demo_mm = Inr (p, m') \<and>
      spec_eq Verif (mregions_abstract m' (Some p))
        (spec_default_alloc_pages Verif 2 (mregions_abstract demo_mm None))) \<and>
   a0 (spec_default_alloc_pages Verif 2 (mregions_abstract demo_mm None)) = Some 3"
proof (intro conjI)
  show ok: "mm_ok Verif demo_mm" by code_simp
  show "\<exists>p m'. default_alloc_pages Verif 2 demo_mm = Inr (p, m') \<and>
      spec_eq Verif (mregions_abstract m' (Some p))
        (spec_default_alloc_pages Verif 2 (mregions_abstract demo_mm None))"
    using llvm_spec_refinement [OF ok] by blast
  show "a0 (spec_default_alloc_pages Verif 2 (mregions_abstract demo_mm None)) = Some 3"
    by code_simp
qed

text \<open>
  C34. The specification's invariant \<open>nr_free_eq\<close> is the development's invariant, and allocation and
  memory-map initialisation keep it, whatever their arguments.
\<close>

theorem nr_free_eq_preserved:
  assumes "mm_ok b m" and "nr_free_eq b (mregions_abstract m r)"
  shows "pmm_inv b m \<and>
    (\<exists>p m'. default_alloc_pages b n m = Inr (p, m') \<and> nr_free_eq b (mregions_abstract m' r')) \<and>
    (\<exists>c m'. default_init_memmap b base n m = Inr (c, m') \<and> nr_free_eq b (mregions_abstract m' r'))"
proof -
  have inv: "pmm_inv b m" using assms by (simp add: nr_free_eq_abs)
  have eq: "nr_free_eq b (mregions_abstract m' r')" if "pmm_inv b m'" for m'
    using that by (simp add: nr_free_eq_abs pmm_inv_ok)
  have "\<exists>p m'. default_alloc_pages b n m = Inr (p, m') \<and> nr_free_eq b (mregions_abstract m' r')"
    using default_mgr.alloc_law [OF inv, of n] eq by blast
  moreover have "\<exists>c m'. default_init_memmap b base n m = Inr (c, m') \<and>
      nr_free_eq b (mregions_abstract m' r')"
    using default_mgr.memmap_law [OF inv, of base n] eq by blast
  ultimately show ?thesis using inv by blast
qed

theorem nr_free_eq_preserved_witness:
  "nr_free_eq Verif (mregions_abstract demo_mm None) \<and>
   (\<exists>p m'. default_alloc_pages Verif 2 demo_mm = Inr (p, m') \<and>
     nr_free_eq Verif (mregions_abstract m' None))"
proof -
  have ok: "mm_ok Verif demo_mm" by code_simp
  have eq: "nr_free_eq Verif (mregions_abstract demo_mm None)" by code_simp
  with nr_free_eq_preserved [OF ok eq, of 2 None] show ?thesis by blast
qed

end
