(* ===== verification/Llvm_Ni.thy ===== *)
theory Llvm_Ni
  imports Llvm_Spec
begin

text \<open>
  Isolation between pages (\<open>verif/llvm-ni.rkt\<close>): an observer of page \<open>u\<close> sees the flag word of \<open>u\<close>,
  and an operation on the block \<open>[base, base + n)\<close> affects the observers in the block only. The file
  checks local respect and weak step consistency of single operations; the locale derives from
  them that the operations outside an observer's sources can be removed from a whole sequence.
\<close>

section \<open>Unwinding\<close>

text \<open>
  A sequence of operations; the observers whose views can reach \<open>u\<close> through it; the sequence without
  the operations that touch none of them.
\<close>

primrec run_ops :: "('op \<Rightarrow> 's \<Rightarrow> 's) \<Rightarrow> 'op list \<Rightarrow> 's \<Rightarrow> 's" where
  "run_ops step [] s = s"
| "run_ops step (a # as) s = run_ops step as (step a s)"

primrec sources :: "('op \<Rightarrow> 'u \<Rightarrow> bool) \<Rightarrow> 'op list \<Rightarrow> 'u \<Rightarrow> 'u set" where
  "sources touches [] u = {u}"
| "sources touches (a # as) u =
     (if \<exists>w \<in> sources touches as u. touches a w
      then sources touches as u \<union> {v. touches a v} else sources touches as u)"

primrec purge :: "('op \<Rightarrow> 'u \<Rightarrow> bool) \<Rightarrow> 'op list \<Rightarrow> 'u \<Rightarrow> 'op list" where
  "purge touches [] u = []"
| "purge touches (a # as) u =
     (if \<exists>w \<in> sources touches as u. touches a w then a # purge touches as u else purge touches as u)"

locale unwinding_system =
  fixes step :: "'op \<Rightarrow> 's \<Rightarrow> 's"
    and touches :: "'op \<Rightarrow> 'u \<Rightarrow> bool"
    and sees :: "'u \<Rightarrow> 's \<Rightarrow> 's \<Rightarrow> bool"
    and inv :: "'s \<Rightarrow> bool"
  assumes sees_refl: "sees u s s"
    and sees_sym: "sees u s t \<Longrightarrow> sees u t s"
    and sees_trans: "sees u s t \<Longrightarrow> sees u t v \<Longrightarrow> sees u s v"
    and inv_step: "inv s \<Longrightarrow> inv (step a s)"
    and local_respect: "inv s \<Longrightarrow> \<not> touches a u \<Longrightarrow> sees u s (step a s)"
    and weak_step: "inv s \<Longrightarrow> inv t \<Longrightarrow> sees u s t \<Longrightarrow> (\<And>v. touches a v \<Longrightarrow> sees v s t) \<Longrightarrow>
      sees u (step a s) (step a t)"
begin

lemma noninterference:
  assumes "inv s" and "inv t" and "\<And>v. v \<in> sources touches as u \<Longrightarrow> sees v s t"
  shows "sees u (run_ops step as s) (run_ops step (purge touches as u) t)"
  using assms
proof (induction as arbitrary: s t)
  case Nil
  then show ?case by simp
next
  case (Cons a as)
  show ?case
  proof (cases "\<exists>w \<in> sources touches as u. touches a w")
    case True
    then have "sees v (step a s) (step a t)" if "v \<in> sources touches as u" for v
      using that Cons.prems by (intro weak_step) auto
    then have "sees u (run_ops step as (step a s)) (run_ops step (purge touches as u) (step a t))"
      using Cons.prems(1,2) by (intro Cons.IH) (auto intro: inv_step)
    with True show ?thesis by simp
  next
    case False
    have "sees v (step a s) t" if v: "v \<in> sources touches as u" for v
    proof -
      have "sees v s (step a s)" using False v Cons.prems(1) by (intro local_respect) auto
      moreover have "sees v s t" using Cons.prems(3) v False by simp
      ultimately show ?thesis by (blast intro: sees_sym sees_trans)
    qed
    then have "sees u (run_ops step as (step a s)) (run_ops step (purge touches as u) t)"
      using Cons.prems(1,2) by (intro Cons.IH) (auto intro: inv_step)
    with False show ?thesis by simp
  qed
qed

end

section \<open>The allocator's block operations\<close>

text \<open>\<open>u\<close> is a page number.\<close>

definition unwinding :: "u64 \<Rightarrow> spec_state \<Rightarrow> spec_state \<Rightarrow> bool" where
  "unwinding u s t \<longleftrightarrow> pagedb_flag s u = pagedb_flag t u"

datatype block_op = Free_pages size_t size_t | Init_memmap size_t size_t

fun block_step :: "build \<Rightarrow> block_op \<Rightarrow> mm \<Rightarrow> mm" where
  "block_step b (Free_pages base n) m =
     (case default_free_pages b base n m of Inl e \<Rightarrow> m | Inr m' \<Rightarrow> m')"
| "block_step b (Init_memmap base n) m =
     (case default_init_memmap b base n m of Inl e \<Rightarrow> m | Inr (c, m') \<Rightarrow> m')"

fun touches_page :: "block_op \<Rightarrow> u64 \<Rightarrow> bool" where
  "touches_page (Free_pages base n) u = in_block base n u"
| "touches_page (Init_memmap base n) u = in_block base n u"

definition same_page :: "u64 \<Rightarrow> mm \<Rightarrow> mm \<Rightarrow> bool" where
  "same_page u s t \<longleftrightarrow> unwinding u (mregions_abstract s None) (mregions_abstract t None)"

lemma same_page_upd_range:
  assumes "unat (base + n) = unat base + unat n"
  shows "same_page u ((upd_range f (unat base) (unat base + unat n) m)\<lparr>nr_free := c\<rparr>) t \<longleftrightarrow>
    (if in_block base n u \<and> unat u < length (pages m)
     then f (flags (pages m ! unat u)) = pagedb_flag (mregions_abstract t None) u
     else same_page u m t)"
  using assms
  by (auto simp: same_page_def unwinding_def abs_flag upd_range_flags in_block_def
      word_le_nat_alt word_less_nat_alt)

lemma memmap_code_same_block:
  assumes "mm_ok b s" and "mm_ok b t" and "\<And>v. in_block base n v \<Longrightarrow> same_page v s t"
  shows "memmap_code b base n s = memmap_code b base n t"
proof (cases "n = 0 \<or> NPAGE b < n \<or> NPAGE b < base \<or> unat (NPAGE b) < unat base + unat n")
  case True
  then show ?thesis by (auto simp: memmap_code_def)
next
  case False
  then have sum: "unat (base + n) = unat base + unat n"
    using NPAGE_bounds(2) [of b] by (intro unat_add_pages) (auto simp: word_less_nat_alt)
  have "flags (pages s ! i) = flags (pages t ! i)" if i: "unat base \<le> i" "i < unat base + unat n" for i
  proof -
    have "i < unat (NPAGE b)" and u: "unat (of_nat i :: u64) = i"
      using i False NPAGE_bounds(2) [of b] by (auto intro!: unat_of_nat_u64)
    moreover have "same_page (of_nat i) s t"
      using i u sum by (intro assms(3)) (simp add: in_block_def word_le_nat_alt word_less_nat_alt)
    ultimately show ?thesis using assms(1,2)
      by (simp add: same_page_def unwinding_def abs_flag mm_ok_def)
  qed
  then show ?thesis unfolding memmap_code_def reserved_def allocated_def by (simp cong: conj_cong)
qed

lemma block_step_cases:
  assumes "mm_ok b m"
  shows "block_step b (Free_pages base n) m =
      (if base < NPAGE b \<and> n \<noteq> 0 \<and> unat base + unat n \<le> unat (NPAGE b)
       then (upd_range clr_alc (unat base) (unat base + unat n) m)\<lparr>nr_free := nr_free m + n\<rparr> else m)"
    and "block_step b (Init_memmap base n) m =
      (if memmap_code b base n m = 0
       then (upd_range clr_rsv (unat base) (unat base + unat n) m)\<lparr>nr_free := nr_free m + n\<rparr> else m)"
  by (simp_all add: default_free_pages_result [OF assms] default_init_memmap_result [OF assms])

lemma block_step_ok: "mm_ok b m \<Longrightarrow> mm_ok b (block_step b a m)"
  by (cases a) (simp_all add: block_step_cases mm_ok_def del: block_step.simps)

text \<open>
  Whatever a step does is a function \<open>f\<close> of the flag words of its block, or nothing, and which of the
  two depends on the flags of the block only.
\<close>

lemma block_step_shape:
  assumes "mm_ok b s" and "mm_ok b t" and "\<And>v. touches_page a v \<Longrightarrow> same_page v s t"
  obtains "block_step b a s = s" and "block_step b a t = t"
  | base n f c c' where "unat (base + n) = unat base + unat n"
      and "\<And>u. touches_page a u \<longleftrightarrow> in_block base n u"
      and "block_step b a s = (upd_range f (unat base) (unat base + unat n) s)\<lparr>nr_free := c\<rparr>"
      and "block_step b a t = (upd_range f (unat base) (unat base + unat n) t)\<lparr>nr_free := c'\<rparr>"
proof (cases a)
  case (Free_pages base n)
  show ?thesis
  proof (cases "base < NPAGE b \<and> n \<noteq> 0 \<and> unat base + unat n \<le> unat (NPAGE b)")
    case True
    then have "unat (base + n) = unat base + unat n"
      using NPAGE_bounds(2) [of b] by (intro unat_add_pages) auto
    with True that(2) [where base = base and n = n and f = clr_alc] show ?thesis
      by (simp add: Free_pages block_step_cases [OF assms(1)] block_step_cases [OF assms(2)]
          del: block_step.simps)
  qed (use that(1) in \<open>auto simp add: Free_pages block_step_cases [OF assms(1)]
    block_step_cases [OF assms(2)] simp del: block_step.simps\<close>)
next
  case (Init_memmap base n)
  have code: "memmap_code b base n t = memmap_code b base n s"
    using assms(3) Init_memmap memmap_code_same_block [OF assms(1,2)] by auto
  show ?thesis
  proof (cases "memmap_code b base n s = 0")
    case True
    then have "unat base + unat n \<le> unat (NPAGE b)" by (simp add: memmap_code_def split: if_splits)
    then have "unat (base + n) = unat base + unat n"
      using NPAGE_bounds(2) [of b] by (intro unat_add_pages) auto
    with True that(2) [where base = base and n = n and f = clr_rsv] show ?thesis
      by (simp add: Init_memmap code block_step_cases [OF assms(1)] block_step_cases [OF assms(2)]
          del: block_step.simps)
  qed (use that(1) in \<open>auto simp add: Init_memmap code block_step_cases [OF assms(1)]
    block_step_cases [OF assms(2)] simp del: block_step.simps\<close>)
qed

lemma same_page_equiv:
  "same_page u s s" "same_page u s t \<Longrightarrow> same_page u t s"
  "same_page u s t \<Longrightarrow> same_page u t v \<Longrightarrow> same_page u s v"
  by (simp_all add: same_page_def unwinding_def)

lemma same_page_lengths:
  assumes "mm_ok b s" and "mm_ok b t"
  shows "length (pages s) = length (pages t)"
  using assms by (simp add: mm_ok_def)

interpretation page_isolation: unwinding_system "block_step b" touches_page same_page "mm_ok b" for b
proof unfold_locales
  fix s a u assume ok: "mm_ok b s" and "\<not> touches_page a u"
  then show "same_page u s (block_step b a s)"
    by (rule_tac block_step_shape [OF ok ok, of a])
       (auto simp: same_page_equiv same_page_upd_range intro!: same_page_equiv(2))
next
  fix s t u a
  assume ok: "mm_ok b s" "mm_ok b t" and u: "same_page u s t"
    and blk: "\<And>v. touches_page a v \<Longrightarrow> same_page v s t"
  show "same_page u (block_step b a s) (block_step b a t)"
  proof (rule block_step_shape [OF ok blk])
    fix base n f c c'
    assume sum: "unat (base + n) = unat base + unat n"
      and s': "block_step b a s = (upd_range f (unat base) (unat base + unat n) s)\<lparr>nr_free := c\<rparr>"
      and t': "block_step b a t = (upd_range f (unat base) (unat base + unat n) t)\<lparr>nr_free := c'\<rparr>"
    show ?thesis
      using u sum same_page_lengths [OF ok]
      by (auto simp: s' t' same_page_def unwinding_def abs_flag upd_range_flags)
  qed (use u in auto)
qed (fact same_page_equiv block_step_ok)+

section \<open>Properties\<close>

text \<open>
  C22. Isolation of pages: in a sequence of frees and memory-map initialisations the flags that page
  \<open>u\<close> ends with depend only on the pages in the sources of \<open>u\<close>: started from states that agree on
  them, the whole sequence and the sequence without the operations that touch no source of \<open>u\<close> leave
  page \<open>u\<close> with the same flags.
\<close>

theorem block_ops_noninterference:
  assumes "mm_ok b s" and "mm_ok b t" and "\<forall>v \<in> sources touches_page ops u. same_page v s t"
  shows "same_page u (run_ops (block_step b) ops s)
    (run_ops (block_step b) (purge touches_page ops u) t)"
  using assms by (intro page_isolation.noninterference) auto

theorem block_ops_noninterference_witness:
  "same_page 3 (run_ops (block_step Verif) [Free_pages 1 1, Free_pages 3 2] demo_mm)
     (run_ops (block_step Verif) [Free_pages 3 2] demo_mm) \<and>
   purge touches_page [Free_pages 1 1, Free_pages 3 2] 3 = [Free_pages 3 2]"
proof -
  have "\<not> in_block 1 1 w" if "w = 3 \<or> in_block 3 2 w" for w
    using that by (auto simp: in_block_def word_le_nat_alt word_less_nat_alt)
  then have purge: "purge touches_page [Free_pages 1 1, Free_pages 3 2] 3 = [Free_pages 3 2]"
    by (auto simp: in_block_def)
  have ok: "mm_ok Verif demo_mm" by code_simp
  have "same_page 3 (run_ops (block_step Verif) [Free_pages 1 1, Free_pages 3 2] demo_mm)
     (run_ops (block_step Verif) (purge touches_page [Free_pages 1 1, Free_pages 3 2] 3) demo_mm)"
    using ok same_page_equiv(1) by (intro block_ops_noninterference) auto
  with purge show ?thesis by simp
qed

end
