(* ===== verification/Klist.thy ===== *)
theory Klist
  imports CC_Prelude
begin

text \<open>
  The circular doubly linked lists of \<open>libs/list.h\<close>. The store maps the address of an entry to its
  two pointers; following a pointer to no entry is a fault. The abstraction \<open>ring h hd xs\<close> says that
  the list with head \<open>hd\<close> links the entries \<open>xs\<close>, in this order, in both directions.
\<close>

section \<open>Entries\<close>

record list_entry =
  prev :: uintptr_t
  nxt :: uintptr_t

type_synonym store = "uintptr_t \<Rightarrow> list_entry option"

definition load_entry :: "uintptr_t \<Rightarrow> store \<Rightarrow> list_entry res" where
  "load_entry p h = (case h p of None \<Rightarrow> Inl OutOfBounds | Some e \<Rightarrow> Inr e)"

definition set_prev :: "uintptr_t \<Rightarrow> uintptr_t \<Rightarrow> store \<Rightarrow> store res" where
  "set_prev p v h = res_bind (load_entry p h) (\<lambda>e. Inr (h(p \<mapsto> e\<lparr>prev := v\<rparr>)))"

definition set_next :: "uintptr_t \<Rightarrow> uintptr_t \<Rightarrow> store \<Rightarrow> store res" where
  "set_next p v h = res_bind (load_entry p h) (\<lambda>e. Inr (h(p \<mapsto> e\<lparr>nxt := v\<rparr>)))"

section \<open>Operations\<close>

text \<open>
  A chained assignment stores from right to left, so \<open>elm->prev = elm->next = elm\<close> sets \<open>next\<close> first
  and \<open>prev->next = next->prev = elm\<close> sets \<open>next->prev\<close> first.
\<close>

definition list_init :: "uintptr_t \<Rightarrow> store \<Rightarrow> store res" where
  "list_init elm h = res_bind (set_next elm elm h) (set_prev elm elm)"

definition list_add_between :: "uintptr_t \<Rightarrow> uintptr_t \<Rightarrow> uintptr_t \<Rightarrow> store \<Rightarrow> store res" where
  "list_add_between elm p n h =
     res_bind (set_prev n elm h) (\<lambda>h1.
     res_bind (set_next p elm h1) (\<lambda>h2.
     res_bind (set_next elm n h2) (\<lambda>h3.
     set_prev elm p h3)))"

definition list_del_between :: "uintptr_t \<Rightarrow> uintptr_t \<Rightarrow> store \<Rightarrow> store res" where
  "list_del_between p n h = res_bind (set_next p n h) (set_prev n p)"

definition list_add_before :: "uintptr_t \<Rightarrow> uintptr_t \<Rightarrow> store \<Rightarrow> store res" where
  "list_add_before listelm elm h =
     res_bind (load_entry listelm h) (\<lambda>e. list_add_between elm (prev e) listelm h)"

definition list_add_after :: "uintptr_t \<Rightarrow> uintptr_t \<Rightarrow> store \<Rightarrow> store res" where
  "list_add_after listelm elm h =
     res_bind (load_entry listelm h) (\<lambda>e. list_add_between elm listelm (nxt e) h)"

definition list_add :: "uintptr_t \<Rightarrow> uintptr_t \<Rightarrow> store \<Rightarrow> store res" where
  "list_add listelm elm h = list_add_after listelm elm h"

definition list_del :: "uintptr_t \<Rightarrow> store \<Rightarrow> store res" where
  "list_del listelm h =
     res_bind (load_entry listelm h) (\<lambda>e. list_del_between (prev e) (nxt e) h)"

definition list_del_init :: "uintptr_t \<Rightarrow> store \<Rightarrow> store res" where
  "list_del_init listelm h = res_bind (list_del listelm h) (list_init listelm)"

definition list_empty :: "uintptr_t \<Rightarrow> store \<Rightarrow> bool res" where
  "list_empty lst h = res_bind (load_entry lst h) (\<lambda>e. Inr (nxt e = lst))"

definition list_next :: "uintptr_t \<Rightarrow> store \<Rightarrow> uintptr_t res" where
  "list_next listelm h = res_bind (load_entry listelm h) (\<lambda>e. Inr (nxt e))"

definition list_prev :: "uintptr_t \<Rightarrow> store \<Rightarrow> uintptr_t res" where
  "list_prev listelm h = res_bind (load_entry listelm h) (\<lambda>e. Inr (prev e))"

text \<open>\<open>to_struct(ptr, type, member)\<close>, with the offset of the member.\<close>

definition to_struct :: "uintptr_t \<Rightarrow> u64 \<Rightarrow> uintptr_t" where
  "to_struct ptr offset = ptr - offset"

section \<open>Rings\<close>

text \<open>The pointers of an entry, and two entries that point to each other.\<close>

definition next_of :: "store \<Rightarrow> uintptr_t \<Rightarrow> uintptr_t option" where
  "next_of h p = map_option nxt (h p)"

definition prev_of :: "store \<Rightarrow> uintptr_t \<Rightarrow> uintptr_t option" where
  "prev_of h p = map_option prev (h p)"

definition link :: "store \<Rightarrow> uintptr_t \<Rightarrow> uintptr_t \<Rightarrow> bool" where
  "link h p q \<longleftrightarrow> next_of h p = Some q \<and> prev_of h q = Some p"

fun chain :: "store \<Rightarrow> uintptr_t list \<Rightarrow> bool" where
  "chain h (x # y # zs) = (link h x y \<and> chain h (y # zs))"
| "chain h xs = True"

definition ring :: "store \<Rightarrow> uintptr_t \<Rightarrow> uintptr_t list \<Rightarrow> bool" where
  "ring h r xs \<longleftrightarrow> distinct (r # xs) \<and> chain h (r # xs @ [r])"

lemma chain_append:
  "chain h (xs @ a # b # ys) \<longleftrightarrow> chain h (xs @ [a]) \<and> link h a b \<and> chain h (b # ys)"
  by (induction xs rule: induct_list012) auto

text \<open>
  A chain does not depend on the \<open>prev\<close> pointer of its first entry, on the \<open>next\<close> pointer of its last,
  nor on entries outside it.
\<close>

lemma chain_cong:
  assumes "\<forall>x \<in> set (butlast xs). next_of h' x = next_of h x"
    and "\<forall>x \<in> set (tl xs). prev_of h' x = prev_of h x"
  shows "chain h' xs = chain h xs"
  using assms by (induction h xs rule: chain.induct) (auto simp: link_def)

text \<open>A ring cut between two neighbours.\<close>

lemma ring_split:
  assumes "r # as = xs @ [p]" and "bs @ [r] = n # ys"
  shows "ring h r (as @ bs) \<longleftrightarrow> distinct (r # as @ bs) \<and>
     chain h (xs @ [p]) \<and> link h p n \<and> chain h (n # ys)"
proof -
  have "r # (as @ bs) @ [r] = xs @ p # n # ys"
    using assms by (metis append.assoc append_Cons append_Nil)
  then show ?thesis by (simp only: ring_def chain_append)
qed

lemma cut_ring:
  obtains xs p n ys where "r # as = xs @ [p]" and "bs @ [r] = n # ys"
  by (metis append_butlast_last_id hd_Cons_tl list.distinct(1) snoc_eq_iff_butlast)

section \<open>What the operations store\<close>

lemma load_entry_Some: "h p = Some e \<Longrightarrow> load_entry p h = Inr e"
  by (simp add: load_entry_def)

lemma set_next_effect:
  assumes "h p \<noteq> None"
  shows "\<exists>h'. set_next p v h = Inr h' \<and> next_of h' = (next_of h)(p \<mapsto> v) \<and> prev_of h' = prev_of h"
proof -
  obtain e where e: "h p = Some e" using assms by auto
  then show ?thesis
    by (intro exI [of _ "h(p \<mapsto> e\<lparr>nxt := v\<rparr>)"])
       (simp add: set_next_def load_entry_def next_of_def prev_of_def fun_eq_iff)
qed

lemma set_prev_effect:
  assumes "h p \<noteq> None"
  shows "\<exists>h'. set_prev p v h = Inr h' \<and> prev_of h' = (prev_of h)(p \<mapsto> v) \<and> next_of h' = next_of h"
proof -
  obtain e where e: "h p = Some e" using assms by auto
  then show ?thesis
    by (intro exI [of _ "h(p \<mapsto> e\<lparr>prev := v\<rparr>)"])
       (simp add: set_prev_def load_entry_def next_of_def prev_of_def fun_eq_iff)
qed

lemma dom_next_of: "h p = None \<longleftrightarrow> next_of h p = None"
  by (simp add: next_of_def)

lemma list_add_between_effect:
  assumes "h p \<noteq> None" and "h n \<noteq> None" and "h elm \<noteq> None"
  shows "\<exists>h'. list_add_between elm p n h = Inr h' \<and>
    next_of h' = (next_of h)(p \<mapsto> elm, elm \<mapsto> n) \<and> prev_of h' = (prev_of h)(n \<mapsto> elm, elm \<mapsto> p)"
proof -
  obtain h1 where h1: "set_prev n elm h = Inr h1" "prev_of h1 = (prev_of h)(n \<mapsto> elm)"
    "next_of h1 = next_of h" using set_prev_effect [of h n] assms(2) by blast
  then have "h1 p \<noteq> None" using assms(1) by (simp add: dom_next_of)
  then obtain h2 where h2: "set_next p elm h1 = Inr h2" "next_of h2 = (next_of h1)(p \<mapsto> elm)"
    "prev_of h2 = prev_of h1" using set_next_effect by blast
  then have "h2 elm \<noteq> None" using assms(3) h1 by (simp add: dom_next_of)
  then obtain h3 where h3: "set_next elm n h2 = Inr h3" "next_of h3 = (next_of h2)(elm \<mapsto> n)"
    "prev_of h3 = prev_of h2" using set_next_effect by blast
  then have "h3 elm \<noteq> None" by (simp add: dom_next_of)
  then obtain h4 where "set_prev elm p h3 = Inr h4" "prev_of h4 = (prev_of h3)(elm \<mapsto> p)"
    "next_of h4 = next_of h3" using set_prev_effect by blast
  with h1 h2 h3 show ?thesis by (simp add: list_add_between_def)
qed

lemma list_del_between_effect:
  assumes "h p \<noteq> None" and "h n \<noteq> None"
  shows "\<exists>h'. list_del_between p n h = Inr h' \<and>
    next_of h' = (next_of h)(p \<mapsto> n) \<and> prev_of h' = (prev_of h)(n \<mapsto> p)"
proof -
  obtain h1 where h1: "set_next p n h = Inr h1" "next_of h1 = (next_of h)(p \<mapsto> n)"
    "prev_of h1 = prev_of h" using set_next_effect [of h p] assms(1) by blast
  then have "h1 n \<noteq> None" using assms(2) by (simp add: dom_next_of)
  then obtain h2 where "set_prev n p h1 = Inr h2" "prev_of h2 = (prev_of h1)(n \<mapsto> p)"
    "next_of h2 = next_of h1" using set_prev_effect by blast
  with h1 show ?thesis by (simp add: list_del_between_def)
qed

lemma list_init_effect:
  assumes "h elm \<noteq> None"
  shows "\<exists>h'. list_init elm h = Inr h' \<and>
    next_of h' = (next_of h)(elm \<mapsto> elm) \<and> prev_of h' = (prev_of h)(elm \<mapsto> elm)"
proof -
  obtain h1 where h1: "set_next elm elm h = Inr h1" "next_of h1 = (next_of h)(elm \<mapsto> elm)"
    "prev_of h1 = prev_of h" using set_next_effect [of h elm] assms by blast
  then have "h1 elm \<noteq> None" by (simp add: dom_next_of)
  then obtain h2 where "set_prev elm elm h1 = Inr h2" "prev_of h2 = (prev_of h1)(elm \<mapsto> elm)"
    "next_of h2 = next_of h1" using set_prev_effect by blast
  with h1 show ?thesis by (simp add: list_init_def)
qed

section \<open>What the operations do to a ring\<close>

lemma in_set_tl: "x \<in> set (tl zs) \<Longrightarrow> x \<in> set zs"
  by (cases zs) auto

lemma cut_sets:
  assumes "distinct (r # as @ bs)" and cut: "r # as = xs @ [p]" "bs @ [r] = n # ys"
  shows "p \<notin> set xs" "p \<notin> set (butlast (n # ys))" "n \<notin> set (tl (xs @ [p]))" "n \<notin> set ys"
    "set (xs @ [p]) \<union> set (n # ys) = set (r # as @ bs)"
proof -
  have "tl (xs @ [p]) = as" "butlast (n # ys) = bs"
    by (simp_all flip: cut)
  moreover have "p \<in> set (r # as)" "n \<in> set (bs @ [r])"
    by (simp_all only: cut) simp_all
  moreover have "distinct (r # as)" "distinct (bs @ [r])" using assms(1) by auto
  then have "distinct (xs @ [p])" "distinct (n # ys)" by (simp_all only: cut)
  moreover have "set (xs @ [p]) = set (r # as)" "set (n # ys) = set (bs @ [r])"
    by (simp_all only: cut)
  ultimately show "p \<notin> set xs" "p \<notin> set (butlast (n # ys))" "n \<notin> set (tl (xs @ [p]))" "n \<notin> set ys"
    "set (xs @ [p]) \<union> set (n # ys) = set (r # as @ bs)"
    using assms(1) by auto
qed

lemma add_between_ring:
  assumes ring: "ring h r (as @ bs)" and cut: "r # as = xs @ [p]" "bs @ [r] = n # ys"
    and elm: "elm \<notin> set (r # as @ bs)" "h elm \<noteq> None"
  shows "\<exists>h'. list_add_between elm p n h = Inr h' \<and> ring h' r (as @ elm # bs) \<and>
    (\<forall>x. x \<notin> {p, n, elm} \<longrightarrow> next_of h' x = next_of h x \<and> prev_of h' x = prev_of h x) \<and>
    (\<forall>x. h' x = None \<longleftrightarrow> h x = None)"
proof -
  have d: "distinct (r # as @ bs)" and c: "chain h (xs @ [p])" "chain h (n # ys)" "link h p n"
    using ring ring_split [OF cut] by auto
  then have dom: "h p \<noteq> None" "h n \<noteq> None" by (auto simp: link_def next_of_def prev_of_def)
  obtain h' where h': "list_add_between elm p n h = Inr h'"
    "next_of h' = (next_of h)(p \<mapsto> elm, elm \<mapsto> n)" "prev_of h' = (prev_of h)(n \<mapsto> elm, elm \<mapsto> p)"
    using list_add_between_effect [OF dom elm(2)] by blast
  note sets = cut_sets [OF d cut]
  have fresh: "elm \<notin> set (xs @ [p])" "elm \<notin> set (n # ys)" using elm(1) sets(5) by auto
  have "chain h' (xs @ [p]) = chain h (xs @ [p])"
    using sets(1,3) fresh(1) by (intro chain_cong) (auto simp: h' dest: in_set_tl)
  moreover have "chain h' (n # ys) = chain h (n # ys)"
    using sets(2,4) fresh(2) by (intro chain_cong) (auto simp: h' dest: in_set_butlastD)
  moreover have "link h' p elm" "link h' elm n" using fresh by (auto simp: link_def h')
  moreover have "r # (as @ elm # bs) @ [r] = xs @ p # elm # n # ys"
    using cut by (metis append.assoc append_Cons append_Nil)
  moreover have "distinct (r # as @ elm # bs)" using d elm(1) by auto
  ultimately have "ring h' r (as @ elm # bs)"
    using c by (simp only: ring_def chain_append chain.simps simp_thms)
  moreover have "h' x = None \<longleftrightarrow> h x = None" for x
    using dom elm(2) by (auto simp: dom_next_of h')
  ultimately show ?thesis using h' by auto
qed

lemma del_between_ring:
  assumes ring: "ring h r (as @ x # bs)" and cut: "r # as = xs @ [p]" "bs @ [r] = n # ys"
  shows "\<exists>h'. list_del_between p n h = Inr h' \<and> ring h' r (as @ bs) \<and>
    next_of h x = Some n \<and> prev_of h x = Some p \<and>
    (\<forall>y. y \<notin> {p, n} \<longrightarrow> next_of h' y = next_of h y \<and> prev_of h' y = prev_of h y) \<and>
    (\<forall>y. h' y = None \<longleftrightarrow> h y = None)"
proof -
  have "r # (as @ x # bs) @ [r] = xs @ p # x # n # ys"
    using cut by (metis append.assoc append_Cons append_Nil)
  with ring have d: "distinct (r # as @ x # bs)" and c: "chain h (xs @ [p])" "chain h (n # ys)"
    and l: "link h p x" "link h x n"
    by (auto simp: ring_def chain_append)
  from l have dom: "h p \<noteq> None" "h n \<noteq> None" by (auto simp: link_def next_of_def prev_of_def)
  obtain h' where h': "list_del_between p n h = Inr h'"
    "next_of h' = (next_of h)(p \<mapsto> n)" "prev_of h' = (prev_of h)(n \<mapsto> p)"
    using list_del_between_effect [OF dom] by blast
  have d': "distinct (r # as @ bs)" using d by auto
  note sets = cut_sets [OF d' cut]
  have "chain h' (xs @ [p]) = chain h (xs @ [p])"
    using sets(1,3) by (intro chain_cong) (auto simp: h' dest: in_set_tl)
  moreover have "chain h' (n # ys) = chain h (n # ys)"
    using sets(2,4) by (intro chain_cong) (auto simp: h' dest: in_set_butlastD)
  moreover have "link h' p n" by (simp add: link_def h')
  ultimately have "ring h' r (as @ bs)" using c d' by (simp add: ring_split [OF cut])
  moreover have "h' y = None \<longleftrightarrow> h y = None" for y using dom by (auto simp: dom_next_of h')
  ultimately show ?thesis using h' l by (auto simp: link_def)
qed

lemma ring_cong:
  assumes "\<forall>x \<in> set (r # xs). next_of h' x = next_of h x \<and> prev_of h' x = prev_of h x"
  shows "ring h' r xs = ring h r xs"
proof -
  have "chain h' (r # xs @ [r]) = chain h (r # xs @ [r])"
    using assms by (intro chain_cong) (auto simp: butlast_append)
  then show ?thesis by (simp add: ring_def)
qed

lemma chain_dom: "chain h xs \<Longrightarrow> 2 \<le> length xs \<Longrightarrow> x \<in> set xs \<Longrightarrow> h x \<noteq> None"
proof (induction h xs rule: chain.induct)
  case (1 h a b zs)
  then show ?case by (cases zs) (auto simp: link_def next_of_def prev_of_def)
qed auto

lemma ring_dom: "ring h r xs \<Longrightarrow> x \<in> set (r # xs) \<Longrightarrow> h x \<noteq> None"
  using chain_dom [of h "r # xs @ [r]" x] by (simp add: ring_def)

text \<open>The neighbours of an entry are where its pointers lead.\<close>

lemma link_load:
  assumes "link h p n"
  shows "\<exists>e. load_entry p h = Inr e \<and> nxt e = n" and "\<exists>e. load_entry n h = Inr e \<and> prev e = p"
  using assms by (auto simp: link_def next_of_def prev_of_def load_entry_def)

lemma add_after_between:
  "link h p n \<Longrightarrow> list_add_after p elm h = list_add_between elm p n h"
  using link_load(1) [of h p n] by (auto simp: list_add_after_def)

lemma add_before_between:
  "link h p n \<Longrightarrow> list_add_before n elm h = list_add_between elm p n h"
  using link_load(2) [of h p n] by (auto simp: list_add_before_def)

lemma del_between:
  "next_of h x = Some n \<Longrightarrow> prev_of h x = Some p \<Longrightarrow> list_del x h = list_del_between p n h"
  by (auto simp: list_del_def load_entry_def next_of_def prev_of_def)

section \<open>The interface\<close>

text \<open>
  What a client of the lists may rely on. \<open>r # as\<close> ends with \<open>p\<close> and \<open>bs @ [r]\<close> starts with \<open>n\<close> where an
  entry is added between \<open>p\<close> and \<open>n\<close>.
\<close>

primrec on_all :: "('p \<Rightarrow> 'h \<Rightarrow> 'h res) \<Rightarrow> 'p list \<Rightarrow> 'h \<Rightarrow> 'h res" where
  "on_all f [] h = Inr h"
| "on_all f (e # es) h = res_bind (f e h) (on_all f es)"

locale linked_rings =
  fixes is_ring :: "'h \<Rightarrow> 'p \<Rightarrow> 'p list \<Rightarrow> bool"
    and valid :: "'h \<Rightarrow> 'p \<Rightarrow> bool"
    and add_after add_before :: "'p \<Rightarrow> 'p \<Rightarrow> 'h \<Rightarrow> 'h res"
    and del :: "'p \<Rightarrow> 'h \<Rightarrow> 'h res"
  assumes add_after_law: "is_ring h r (as @ bs) \<Longrightarrow> e \<notin> set (r # as @ bs) \<Longrightarrow> valid h e \<Longrightarrow>
      \<exists>h'. add_after (last (r # as)) e h = Inr h' \<and> is_ring h' r (as @ e # bs) \<and> valid h' = valid h \<and>
        (\<forall>q ys. set (q # ys) \<inter> set (e # r # as @ bs) = {} \<longrightarrow> is_ring h' q ys = is_ring h q ys)"
    and add_before_law: "is_ring h r (as @ bs) \<Longrightarrow> e \<notin> set (r # as @ bs) \<Longrightarrow> valid h e \<Longrightarrow>
      \<exists>h'. add_before (hd (bs @ [r])) e h = Inr h' \<and> is_ring h' r (as @ e # bs) \<and> valid h' = valid h \<and>
        (\<forall>q ys. set (q # ys) \<inter> set (e # r # as @ bs) = {} \<longrightarrow> is_ring h' q ys = is_ring h q ys)"
    and del_law: "is_ring h r (as @ e # bs) \<Longrightarrow>
      \<exists>h'. del e h = Inr h' \<and> is_ring h' r (as @ bs) \<and> valid h' = valid h \<and>
        (\<forall>q ys. set (q # ys) \<inter> set (r # as @ bs) = {} \<longrightarrow> is_ring h' q ys = is_ring h q ys)"
begin

lemma push_back_all:
  assumes "is_ring h r xs" and "distinct (es @ r # xs)" and "\<forall>e \<in> set es. valid h e"
  shows "\<exists>h'. on_all (add_before r) es h = Inr h' \<and> is_ring h' r (xs @ es)"
  using assms
proof (induction es arbitrary: h xs)
  case (Cons e es)
  then obtain h' where "add_before r e h = Inr h'" "is_ring h' r (xs @ [e])" "valid h' = valid h"
    using add_before_law [of h r xs "[]" e] by auto
  moreover from this obtain h'' where "on_all (add_before r) es h' = Inr h''"
    "is_ring h'' r ((xs @ [e]) @ es)" using Cons.IH [of h' "xs @ [e]"] Cons.prems by auto
  ultimately show ?case by simp
qed simp

lemma push_front_all:
  assumes "is_ring h r xs" and "distinct (es @ r # xs)" and "\<forall>e \<in> set es. valid h e"
  shows "\<exists>h'. on_all (add_after r) es h = Inr h' \<and> is_ring h' r (rev es @ xs)"
  using assms
proof (induction es arbitrary: h xs)
  case (Cons e es)
  then obtain h' where "add_after r e h = Inr h'" "is_ring h' r (e # xs)" "valid h' = valid h"
    using add_after_law [of h r "[]" xs e] by auto
  moreover from this obtain h'' where "on_all (add_after r) es h' = Inr h''"
    "is_ring h'' r (rev es @ e # xs)" using Cons.IH [of h' "e # xs"] Cons.prems by auto
  ultimately show ?case by simp
qed simp

lemma drain:
  assumes "is_ring h r (es @ xs)"
  shows "\<exists>h'. on_all del es h = Inr h' \<and> is_ring h' r xs"
  using assms
proof (induction es arbitrary: h)
  case (Cons e es)
  then obtain h' where "del e h = Inr h'" "is_ring h' r (es @ xs)"
    using del_law [of h r "[]" e "es @ xs"] by auto
  with Cons.IH [of h'] show ?case by simp
qed simp

text \<open>Adding and then deleting an entry anywhere gives the list back; another list never notices.\<close>

lemma add_del_roundtrip:
  assumes "is_ring h r (as @ bs)" and "e \<notin> set (r # as @ bs)" and "valid h e"
    and "is_ring h q ys" and "set (q # ys) \<inter> set (e # r # as @ bs) = {}"
  shows "\<exists>h1 h2. add_after (last (r # as)) e h = Inr h1 \<and> del e h1 = Inr h2 \<and>
    is_ring h2 r (as @ bs) \<and> is_ring h2 q ys"
proof -
  obtain h1 where h1: "add_after (last (r # as)) e h = Inr h1" "is_ring h1 r (as @ e # bs)"
    "is_ring h1 q ys" using add_after_law [OF assms(1-3)] assms(4,5) by blast
  obtain h2 where "del e h1 = Inr h2" "is_ring h2 r (as @ bs)"
    "\<forall>q ys. set (q # ys) \<inter> set (r # as @ bs) = {} \<longrightarrow> is_ring h2 q ys = is_ring h1 q ys"
    using del_law [OF h1(2)] by blast
  with h1 assms(5) show ?thesis by auto
qed

end

definition mapped :: "store \<Rightarrow> uintptr_t \<Rightarrow> bool" where
  "mapped h p \<longleftrightarrow> h p \<noteq> None"

lemma mapped_eqI: "\<forall>x. h' x = None \<longleftrightarrow> h x = None \<Longrightarrow> mapped h' = mapped h"
  by (simp add: mapped_def fun_eq_iff)

lemma cut_last_hd:
  assumes "r # as = xs @ [p]" and "bs @ [r] = n # ys"
  shows "p = last (r # as)" "n = hd (bs @ [r])" "p \<in> set (r # as)" "n \<in> set (r # bs)"
proof -
  show "p = last (r # as)" "n = hd (bs @ [r])" by (simp_all only: assms) simp_all
  then show "p \<in> set (r # as)" "n \<in> set (r # bs)" by (auto simp: hd_append)
qed

lemma add_laws:
  assumes "ring h r (as @ bs)" and "e \<notin> set (r # as @ bs)" and "mapped h e"
  shows "\<exists>h'. list_add_after (last (r # as)) e h = Inr h' \<and> list_add_before (hd (bs @ [r])) e h = Inr h' \<and>
    ring h' r (as @ e # bs) \<and> mapped h' = mapped h \<and>
    (\<forall>q ys. set (q # ys) \<inter> set (e # r # as @ bs) = {} \<longrightarrow> ring h' q ys = ring h q ys)"
proof -
  obtain xs p n ys where cut: "r # as = xs @ [p]" "bs @ [r] = n # ys" by (rule cut_ring)
  note pn = cut_last_hd [OF cut]
  have l: "link h p n" using assms(1) ring_split [OF cut] by simp
  obtain h' where h': "list_add_between e p n h = Inr h'" "ring h' r (as @ e # bs)"
    "\<forall>x. x \<notin> {p, n, e} \<longrightarrow> next_of h' x = next_of h x \<and> prev_of h' x = prev_of h x"
    "\<forall>x. h' x = None \<longleftrightarrow> h x = None"
    using add_between_ring [OF assms(1) cut assms(2)] assms(3) by (auto simp: mapped_def)
  have "ring h' q zs = ring h q zs" if "set (q # zs) \<inter> set (e # r # as @ bs) = {}" for q zs
    using that pn(3,4) h'(3) by (intro ring_cong) auto
  then show ?thesis
    using h'(1,2) mapped_eqI [OF h'(4)] add_after_between [OF l] add_before_between [OF l] pn(1,2)
    by auto
qed

lemma del_ring_law:
  assumes "ring h r (as @ e # bs)"
  shows "\<exists>h'. list_del e h = Inr h' \<and> ring h' r (as @ bs) \<and> mapped h' = mapped h \<and>
    (\<forall>q ys. set (q # ys) \<inter> set (r # as @ bs) = {} \<longrightarrow> ring h' q ys = ring h q ys)"
proof -
  obtain xs p n ys where cut: "r # as = xs @ [p]" "bs @ [r] = n # ys" by (rule cut_ring)
  note pn = cut_last_hd [OF cut]
  obtain h' where h': "list_del_between p n h = Inr h'" "ring h' r (as @ bs)"
    "next_of h e = Some n" "prev_of h e = Some p"
    "\<forall>x. x \<notin> {p, n} \<longrightarrow> next_of h' x = next_of h x \<and> prev_of h' x = prev_of h x"
    "\<forall>x. h' x = None \<longleftrightarrow> h x = None"
    using del_between_ring [OF assms cut] by auto
  have "ring h' q zs = ring h q zs" if "set (q # zs) \<inter> set (r # as @ bs) = {}" for q zs
    using that pn(3,4) h'(5) by (intro ring_cong) auto
  then show ?thesis
    using h'(1,2) mapped_eqI [OF h'(6)] del_between [OF h'(3,4)] by auto
qed

interpretation klist: linked_rings ring mapped list_add_after list_add_before list_del
proof unfold_locales
  fix h :: store and r as bs e
  assume h: "ring h r (as @ bs)" "e \<notin> set (r # as @ bs)" "mapped h e"
  show "\<exists>h'. list_add_after (last (r # as)) e h = Inr h' \<and> ring h' r (as @ e # bs) \<and> mapped h' = mapped h \<and>
    (\<forall>q ys. set (q # ys) \<inter> set (e # r # as @ bs) = {} \<longrightarrow> ring h' q ys = ring h q ys)"
    and "\<exists>h'. list_add_before (hd (bs @ [r])) e h = Inr h' \<and> ring h' r (as @ e # bs) \<and> mapped h' = mapped h \<and>
    (\<forall>q ys. set (q # ys) \<inter> set (e # r # as @ bs) = {} \<longrightarrow> ring h' q ys = ring h q ys)"
    using add_laws [OF h] by auto
qed (rule del_ring_law)

section \<open>Properties\<close>

text \<open>Two empty lists and two fresh entries, for concrete runs.\<close>

definition demo_store :: store where
  "demo_store = (\<lambda>p. if p = 16 \<or> p = 48 then Some \<lparr>prev = p, nxt = p\<rparr>
     else if p = 32 \<or> p = 64 then Some \<lparr>prev = 0, nxt = 0\<rparr> else None)"

lemma demo_store_facts:
  "ring demo_store 16 []" "ring demo_store 48 []" "mapped demo_store 32" "mapped demo_store 64"
  by code_simp+

text \<open>
  C20. List operations keep the two-way links: on a list with entries \<open>as @ bs\<close>, \<open>list_add_after\<close> the last
  entry of \<open>as\<close> and \<open>list_add_before\<close> the first of \<open>bs\<close> (the head standing for a missing entry) both give
  \<open>as @ e # bs\<close>; \<open>list_del\<close> and \<open>list_del_init\<close> of that entry give \<open>as @ bs\<close> back, the latter also leaving the entry
  as an empty list; every other list in the store is untouched.
\<close>

theorem list_add_del_correct:
  assumes "ring h r (as @ bs)" and "e \<notin> set (r # as @ bs)" and "mapped h e"
    and "ring h q ys" and "set (q # ys) \<inter> set (e # r # as @ bs) = {}"
  shows "\<exists>h1 h2 h3. list_add_after (last (r # as)) e h = Inr h1 \<and> list_add_before (hd (bs @ [r])) e h = Inr h1 \<and>
    ring h1 r (as @ e # bs) \<and> ring h1 q ys \<and>
    list_del e h1 = Inr h2 \<and> ring h2 r (as @ bs) \<and> ring h2 q ys \<and>
    list_del_init e h1 = Inr h3 \<and> ring h3 r (as @ bs) \<and> ring h3 e [] \<and> ring h3 q ys"
proof -
  obtain h1 where h1: "list_add_after (last (r # as)) e h = Inr h1"
    "list_add_before (hd (bs @ [r])) e h = Inr h1" "ring h1 r (as @ e # bs)" "ring h1 q ys"
    using add_laws [OF assms(1-3)] assms(4,5) by blast
  obtain h2 where h2: "list_del e h1 = Inr h2" "ring h2 r (as @ bs)" "mapped h2 = mapped h1"
    "\<forall>q ys. set (q # ys) \<inter> set (r # as @ bs) = {} \<longrightarrow> ring h2 q ys = ring h1 q ys"
    using del_ring_law [OF h1(3)] by blast
  then have q2: "ring h2 q ys" using h1(4) assms(5) by auto
  have "h2 e \<noteq> None" using h2(3) ring_dom [OF h1(3), of e] by (auto simp: mapped_def fun_eq_iff)
  then obtain h3 where h3: "list_init e h2 = Inr h3"
    "next_of h3 = (next_of h2)(e \<mapsto> e)" "prev_of h3 = (prev_of h2)(e \<mapsto> e)"
    using list_init_effect by blast
  have "ring h3 r (as @ bs) = ring h2 r (as @ bs)"
    using assms(2) by (intro ring_cong) (auto simp: h3)
  moreover have "ring h3 q ys = ring h2 q ys" using assms(5) by (intro ring_cong) (auto simp: h3)
  moreover have "ring h3 e []" by (simp add: ring_def link_def h3)
  ultimately show ?thesis using h1 h2 q2 h3(1) by (auto simp: list_del_init_def)
qed

theorem list_add_del_correct_witness:
  "\<exists>h1 h2 h3. list_add_after 16 32 demo_store = Inr h1 \<and> ring h1 16 [32] \<and>
     list_del 32 h1 = Inr h2 \<and> ring h2 16 [] \<and>
     list_del_init 32 h1 = Inr h3 \<and> ring h3 32 [] \<and> ring h3 48 []"
  using list_add_del_correct [of demo_store 16 "[]" "[]" 32 48 "[]"] demo_store_facts by auto

text \<open>
  Order: adding entries one by one before the head appends them (a queue), adding them with
  \<open>list_add\<close> after the head prepends them (a stack), deleting the first entries one by one drains them,
  and \<open>list_empty\<close>, \<open>list_next\<close> and \<open>list_prev\<close> of the head see emptiness, the first and the last entry.
\<close>

theorem list_order:
  assumes "ring h r xs" and "distinct (es @ r # xs)" and "\<forall>e \<in> set es. mapped h e"
  shows "(\<exists>h'. on_all (list_add_before r) es h = Inr h' \<and> ring h' r (xs @ es)) \<and>
    (\<exists>h'. on_all (list_add r) es h = Inr h' \<and> ring h' r (rev es @ xs)) \<and>
    (\<exists>h'. on_all list_del (take k xs) h = Inr h' \<and> ring h' r (drop k xs)) \<and>
    list_empty r h = Inr (xs = []) \<and> list_next r h = Inr (hd (xs @ [r])) \<and>
    list_prev r h = Inr (last (r # xs))"
proof -
  have "list_add r = list_add_after r" by (simp add: fun_eq_iff list_add_def)
  then have "\<exists>h'. on_all (list_add r) es h = Inr h' \<and> ring h' r (rev es @ xs)"
    using klist.push_front_all [OF assms] by simp
  moreover have "\<exists>h'. on_all list_del (take k xs) h = Inr h' \<and> ring h' r (drop k xs)"
    using klist.drain [of h r "take k xs" "drop k xs"] assms(1) by simp
  moreover have "list_next r h = Inr (hd (xs @ [r])) \<and> list_empty r h = Inr (xs = [])"
  proof -
    obtain n ys where n: "xs @ [r] = n # ys" by (cases "xs @ [r]") auto
    then have "link h r n" using assms(1) ring_split [of r "[]" "[]" r xs n ys h] by simp
    moreover have "n = r \<longleftrightarrow> xs = []" using n assms(1) by (cases xs) (auto simp: ring_def)
    ultimately show ?thesis using link_load(1) [of h r n] n
      by (auto simp: list_next_def list_empty_def)
  qed
  moreover have "list_prev r h = Inr (last (r # xs))"
  proof -
    obtain zs p where p: "r # xs = zs @ [p]" by (metis append_butlast_last_id list.distinct(1))
    then have "link h p r" using assms(1) ring_split [of r xs zs p "[]" r "[]" h] by simp
    then show ?thesis using link_load(2) [of h p r] p by (auto simp: list_prev_def)
  qed
  ultimately show ?thesis using klist.push_back_all [OF assms] by blast
qed

theorem list_order_witness:
  "\<exists>h' h''. on_all (list_add_before 16) [32, 64] demo_store = Inr h' \<and> ring h' 16 [32, 64] \<and>
     on_all (list_add 16) [32, 64] demo_store = Inr h'' \<and> ring h'' 16 [64, 32]"
  using list_order [of demo_store 16 "[]" "[32, 64]"] demo_store_facts by auto

end
