(* ===== verification/Kstring.thy ===== *)
theory Kstring
  imports CC_Prelude
begin

text \<open>
  The string and memory routines of \<open>libs/string.c\<close>, over a flat byte memory indexed by 64-bit
  addresses, as the kernel sees it: every address can be read and written. Plain \<open>char\<close> is unsigned
  on RISC-V. A loop with no bound of its own is a \<open>partial_function\<close>, whose value \<open>None\<close> is not
  returning; the theorems prove that it returns where a NUL byte ends the string.
\<close>

section \<open>Memory\<close>

type_synonym mem = "u64 \<Rightarrow> u8"

text \<open>A memory with the bytes \<open>cs\<close> stored from \<open>p\<close> on, and the \<open>n\<close> bytes from \<open>p\<close> on.\<close>

definition write_bytes :: "mem \<Rightarrow> u64 \<Rightarrow> u8 list \<Rightarrow> mem" where
  "write_bytes m p cs = (\<lambda>a. if unat (a - p) < length cs then cs ! unat (a - p) else m a)"

definition read_bytes :: "mem \<Rightarrow> u64 \<Rightarrow> nat \<Rightarrow> u8 list" where
  "read_bytes m p n = map (\<lambda>i. m (p + of_nat i)) [0..<n]"

text \<open>Two regions without a common address.\<close>

definition separate :: "u64 \<Rightarrow> nat \<Rightarrow> u64 \<Rightarrow> nat \<Rightarrow> bool" where
  "separate p n q k \<longleftrightarrow> n = 0 \<or> k = 0 \<or> n \<le> unat (q - p) \<and> k \<le> unat (p - q)"

text \<open>The NUL-terminated string \<open>cs\<close> stands at \<open>p\<close>.\<close>

definition cstr :: "mem \<Rightarrow> u64 \<Rightarrow> u8 list \<Rightarrow> bool" where
  "cstr m p cs \<longleftrightarrow> read_bytes m p (Suc (length cs)) = cs @ [0] \<and> 0 \<notin> set cs"

definition chr :: "char \<Rightarrow> u8" where
  "chr c = of_char c"

section \<open>Lengths and searches\<close>

partial_function (option) strlen_loop :: "mem \<Rightarrow> u64 \<Rightarrow> size_t \<Rightarrow> size_t option" where
  "strlen_loop m s cnt = (if m s \<noteq> 0 then strlen_loop m (s + 1) (cnt + 1) else Some cnt)"

definition strlen :: "mem \<Rightarrow> u64 \<Rightarrow> size_t option" where
  "strlen m s = strlen_loop m s 0"

function strnlen_loop :: "mem \<Rightarrow> u64 \<Rightarrow> size_t \<Rightarrow> size_t \<Rightarrow> size_t" where
  "strnlen_loop m s len cnt =
     (if cnt < len \<and> m s \<noteq> 0 then strnlen_loop m (s + 1) len (cnt + 1) else cnt)"
  by pat_completeness auto
termination
  by (relation "measure (\<lambda>(m, s, len, cnt). unat len - unat cnt)")
     (auto simp: word_less_nat_alt unat_u64_Suc diff_less_mono2)

definition strnlen :: "mem \<Rightarrow> u64 \<Rightarrow> size_t \<Rightarrow> size_t" where
  "strnlen m s len = strnlen_loop m s len 0"

text \<open>The result 0 is \<open>NULL\<close>.\<close>

partial_function (option) strchr :: "mem \<Rightarrow> u64 \<Rightarrow> u8 \<Rightarrow> u64 option" where
  "strchr m s c =
     (if m s \<noteq> 0 then (if m s = c then Some s else strchr m (s + 1) c) else Some 0)"

partial_function (option) strfind :: "mem \<Rightarrow> u64 \<Rightarrow> u8 \<Rightarrow> u64 option" where
  "strfind m s c =
     (if m s \<noteq> 0 then (if m s = c then Some s else strfind m (s + 1) c) else Some s)"

section \<open>Copies\<close>

partial_function (option) strcpy_loop :: "u64 \<Rightarrow> u64 \<Rightarrow> mem \<Rightarrow> mem option" where
  "strcpy_loop p src m =
     (let m' = m(p := m src)
      in if m src \<noteq> 0 then strcpy_loop (p + 1) (src + 1) m' else Some m')"

definition strcpy :: "u64 \<Rightarrow> u64 \<Rightarrow> mem \<Rightarrow> (u64 \<times> mem) option" where
  "strcpy dst src m = map_option (Pair dst) (strcpy_loop dst src m)"

function strncpy_loop :: "u64 \<Rightarrow> u64 \<Rightarrow> size_t \<Rightarrow> mem \<Rightarrow> mem" where
  "strncpy_loop p src len m =
     (if len > 0
      then let m' = m(p := m src)
           in strncpy_loop (p + 1) (if m' p \<noteq> 0 then src + 1 else src) (len - 1) m'
      else m)"
  by pat_completeness auto
termination
  by (relation "measure (\<lambda>(p, src, len, m). unat len)") (auto simp: unat_minus_one unat_gt_0 word_gt_0)

definition strncpy :: "u64 \<Rightarrow> u64 \<Rightarrow> size_t \<Rightarrow> mem \<Rightarrow> u64 \<times> mem" where
  "strncpy dst src len m = (dst, strncpy_loop dst src len m)"

function memset_loop :: "u64 \<Rightarrow> u8 \<Rightarrow> size_t \<Rightarrow> mem \<Rightarrow> mem" where
  "memset_loop p c n m = (if n > 0 then memset_loop (p + 1) c (n - 1) (m(p := c)) else m)"
  by pat_completeness auto
termination
  by (relation "measure (\<lambda>(p, c, n, m). unat n)") (auto simp: unat_minus_one unat_gt_0 word_gt_0)

definition memset :: "u64 \<Rightarrow> u8 \<Rightarrow> size_t \<Rightarrow> mem \<Rightarrow> u64 \<times> mem" where
  "memset s c n m = (s, memset_loop s c n m)"

function copy_forward :: "u64 \<Rightarrow> u64 \<Rightarrow> size_t \<Rightarrow> mem \<Rightarrow> mem" where
  "copy_forward d s n m =
     (if n > 0 then copy_forward (d + 1) (s + 1) (n - 1) (m(d := m s)) else m)"
  by pat_completeness auto
termination
  by (relation "measure (\<lambda>(d, s, n, m). unat n)") (auto simp: unat_minus_one unat_gt_0 word_gt_0)

function copy_backward :: "u64 \<Rightarrow> u64 \<Rightarrow> size_t \<Rightarrow> mem \<Rightarrow> mem" where
  "copy_backward d s n m =
     (if n > 0 then copy_backward (d - 1) (s - 1) (n - 1) (m(d - 1 := m (s - 1))) else m)"
  by pat_completeness auto
termination
  by (relation "measure (\<lambda>(d, s, n, m). unat n)") (auto simp: unat_minus_one unat_gt_0 word_gt_0)

definition memmove :: "u64 \<Rightarrow> u64 \<Rightarrow> size_t \<Rightarrow> mem \<Rightarrow> u64 \<times> mem" where
  "memmove dst src n m =
     (if src < dst \<and> src + n > dst
      then (dst, copy_backward (dst + n) (src + n) n m)
      else (dst, copy_forward dst src n m))"

definition memcpy :: "u64 \<Rightarrow> u64 \<Rightarrow> size_t \<Rightarrow> mem \<Rightarrow> u64 \<times> mem" where
  "memcpy dst src n m = (dst, copy_forward dst src n m)"

section \<open>Comparisons\<close>

definition byte_diff :: "u8 \<Rightarrow> u8 \<Rightarrow> int" where
  "byte_diff a b = uint a - uint b"

partial_function (option) strcmp :: "mem \<Rightarrow> u64 \<Rightarrow> u64 \<Rightarrow> int option" where
  "strcmp m s1 s2 =
     (if m s1 \<noteq> 0 \<and> m s1 = m s2 then strcmp m (s1 + 1) (s2 + 1)
      else Some (byte_diff (m s1) (m s2)))"

function strncmp :: "mem \<Rightarrow> u64 \<Rightarrow> u64 \<Rightarrow> size_t \<Rightarrow> int" where
  "strncmp m s1 s2 n =
     (if n > 0 \<and> m s1 \<noteq> 0 \<and> m s1 = m s2 then strncmp m (s1 + 1) (s2 + 1) (n - 1)
      else if n = 0 then 0 else byte_diff (m s1) (m s2))"
  by pat_completeness auto
termination
  by (relation "measure (\<lambda>(m, s1, s2, n). unat n)") (auto simp: unat_minus_one unat_gt_0 word_gt_0)

function memcmp :: "mem \<Rightarrow> u64 \<Rightarrow> u64 \<Rightarrow> size_t \<Rightarrow> int" where
  "memcmp m s1 s2 n =
     (if n > 0
      then if m s1 \<noteq> m s2 then byte_diff (m s1) (m s2) else memcmp m (s1 + 1) (s2 + 1) (n - 1)
      else 0)"
  by pat_completeness auto
termination
  by (relation "measure (\<lambda>(m, s1, s2, n). unat n)") (auto simp: unat_minus_one unat_gt_0 word_gt_0)

section \<open>Numbers\<close>

text \<open>The value of a digit, \<open>None\<close> for other bytes.\<close>

definition digit_value :: "u8 \<Rightarrow> int option" where
  "digit_value c =
     (if chr CHR ''0'' \<le> c \<and> c \<le> chr CHR ''9'' then Some (uint c - uint (chr CHR ''0''))
      else if chr CHR ''a'' \<le> c \<and> c \<le> chr CHR ''z'' then Some (uint c - uint (chr CHR ''a'') + 10)
      else if chr CHR ''A'' \<le> c \<and> c \<le> chr CHR ''Z'' then Some (uint c - uint (chr CHR ''A'') + 10)
      else None)"

partial_function (option) skip_blanks :: "mem \<Rightarrow> u64 \<Rightarrow> u64 option" where
  "skip_blanks m s = (if m s = chr CHR '' '' \<or> m s = 9 then skip_blanks m (s + 1) else Some s)"

text \<open>The accumulator \<open>val\<close> has 64 bits and wraps, as the compiled code does; its sign is read by \<open>sint\<close>.\<close>

partial_function (option) strtol_digits :: "mem \<Rightarrow> u64 \<Rightarrow> int \<Rightarrow> u64 \<Rightarrow> (u64 \<times> u64) option" where
  "strtol_digits m s base val =
     (case digit_value (m s) of
        None \<Rightarrow> Some (s, val)
      | Some dig \<Rightarrow>
          if dig \<ge> base then Some (s, val)
          else strtol_digits m (s + 1) base (val * of_int base + of_int dig))"

text \<open>The value and, when \<open>endptr\<close> is not null, what is stored through it.\<close>

definition strtol :: "mem \<Rightarrow> u64 \<Rightarrow> bool \<Rightarrow> int \<Rightarrow> (u64 \<times> u64 option) option" where
  "strtol m s endptr base =
     Option.bind (skip_blanks m s) (\<lambda>s.
       let (s, neg) = (if m s = chr CHR ''+'' then (s + 1, False)
                       else if m s = chr CHR ''-'' then (s + 1, True) else (s, False));
           (s, base) =
             (if (base = 0 \<or> base = 16) \<and> m s = chr CHR ''0'' \<and> m (s + 1) = chr CHR ''x''
              then (s + 2, 16)
              else if base = 0 \<and> m s = chr CHR ''0'' then (s + 1, 8)
              else if base = 0 then (s, 10) else (s, base))
       in map_option (\<lambda>(s, val). (if neg then - val else val, if endptr then Some s else None))
            (strtol_digits m s base 0))"

declare strnlen_loop.simps [simp del] strncpy_loop.simps [simp del] memset_loop.simps [simp del]
  copy_forward.simps [simp del] copy_backward.simps [simp del] strncmp.simps [simp del]
  memcmp.simps [simp del]

lemma counted_loops_0 [simp]:
  "strncpy_loop p src 0 m = m" "memset_loop p c 0 m = m" "copy_forward d s 0 m = m"
  "copy_backward d s 0 m = m" "strncmp m s1 s2 0 = 0" "memcmp m s1 s2 0 = 0"
  by (simp_all add: strncpy_loop.simps memset_loop.simps copy_forward.simps copy_backward.simps
      strncmp.simps memcmp.simps)

lemma counted_loops_step:
  assumes "0 < n"
  shows "strncpy_loop p src n m =
      strncpy_loop (p + 1) (if m src \<noteq> 0 then src + 1 else src) (n - 1) (m(p := m src))"
    and "memset_loop p c n m = memset_loop (p + 1) c (n - 1) (m(p := c))"
    and "copy_forward d s n m = copy_forward (d + 1) (s + 1) (n - 1) (m(d := m s))"
    and "copy_backward d s n m = copy_backward (d - 1) (s - 1) (n - 1) (m(d - 1 := m (s - 1)))"
  using assms
  by (simp_all add: strncpy_loop.simps [of p src n] memset_loop.simps [of p c n]
      copy_forward.simps [of d s n] copy_backward.simps [of d s n] Let_def)

section \<open>Regions of memory\<close>

lemma unat_sub_step: "a \<noteq> p \<Longrightarrow> unat (a - p) = Suc (unat (a - (p + 1) :: u64))"
proof -
  assume "a \<noteq> p"
  then have "a - p \<noteq> 0" by simp
  then have "unat (a - p - 1) = unat (a - p) - 1" by (rule unat_minus_one)
  moreover have "0 < unat (a - p)" using \<open>a - p \<noteq> 0\<close> by (simp add: unat_gt_0)
  ultimately show ?thesis by (simp add: diff_diff_eq)
qed

lemma unat_minus_1_max: "unat (- 1 :: u64) = 2 ^ 64 - 1"
  by (simp add: unsigned_minus_1_eq_mask mask_eq_exp_minus_1)

lemma addr_in_region: "i < n \<Longrightarrow> n \<le> 2 ^ 64 \<Longrightarrow> unat (p + of_nat i - p :: u64) = i"
  by (simp add: unat_of_nat_u64)

lemma read_bytes_simps [simp]:
  "read_bytes m p 0 = []" "read_bytes m p (Suc n) = m p # read_bytes m (p + 1) n"
  "length (read_bytes m p n) = n"
  by (simp_all add: read_bytes_def upt_conv_Cons map_Suc_upt [symmetric] add.assoc del: upt_Suc)

lemma write_bytes_Nil [simp]: "write_bytes m p [] = m"
  by (simp add: write_bytes_def)

lemma write_bytes_Cons:
  assumes "length cs < 2 ^ 64"
  shows "write_bytes m p (c # cs) = write_bytes (m(p := c)) (p + 1) cs"
proof
  fix a
  show "write_bytes m p (c # cs) a = write_bytes (m(p := c)) (p + 1) cs a"
  proof (cases "a = p")
    case True
    then have "unat (a - (p + 1)) = 2 ^ 64 - 1" by (simp add: unat_minus_1_max)
    with True assms show ?thesis by (simp add: write_bytes_def)
  qed (simp add: write_bytes_def unat_sub_step)
qed

lemma write_bytes_snoc:
  assumes "length cs < 2 ^ 64"
  shows "write_bytes m p (cs @ [c]) = write_bytes (m(p + of_nat (length cs) := c)) p cs"
proof
  fix a
  have "a = p + of_nat (length cs) \<longleftrightarrow> unat (a - p) = length cs"
    using assms addr_in_region [of "length cs" "2 ^ 64" p] of_nat_unat_u64 [of "a - p"]
    by (metis add_diff_cancel_left' diff_add_cancel add.commute le_refl)
  then show "write_bytes m p (cs @ [c]) a = write_bytes (m(p + of_nat (length cs) := c)) p cs a"
    by (auto simp: write_bytes_def nth_append)
qed

lemma read_bytes_upd:
  assumes "n \<le> unat (d - s)"
  shows "read_bytes (m(d := x)) s n = read_bytes m s n"
proof -
  have "s + of_nat i \<noteq> d" if "i < n" for i
    using assms that unat_u64_less [of "d - s"] addr_in_region [of i "2 ^ 64" s] by auto
  then show ?thesis by (simp add: read_bytes_def)
qed

lemma read_write_bytes: "length cs \<le> 2 ^ 64 \<Longrightarrow> read_bytes (write_bytes m p cs) p (length cs) = cs"
  by (auto simp: read_bytes_def write_bytes_def intro!: nth_equalityI simp: unat_of_nat_u64)

lemma write_bytes_outside: "length cs \<le> unat (a - p) \<Longrightarrow> write_bytes m p cs a = m a"
  by (simp add: write_bytes_def)

lemma unat_sub_sum: "d \<noteq> s \<Longrightarrow> unat (s - d) + unat (d - s :: u64) = 2 ^ 64"
  using unat_u64_less [of d] unat_u64_less [of s] by (auto simp: unat_sub_if' word_unat_eq_iff)

lemma separate_regions:
  assumes "separate p n q k" and "unat (a - p) < n"
  shows "k \<le> unat (a - q)"
proof (cases "p = q \<or> k = 0")
  case False
  have eq: "a - q = (a - p) + (p - q)" by simp
  have "unat (a - q) = unat (a - p) + unat (p - q)"
    unfolding eq using assms False unat_sub_sum [of p q]
    by (intro unat_u64_add) (auto simp: separate_def)
  with assms False show ?thesis by (auto simp: separate_def)
qed (use assms in \<open>auto simp: separate_def\<close>)

lemma separate_sym: "separate p n q k \<Longrightarrow> separate q k p n"
  by (auto simp: separate_def)

lemma separate_mono: "separate p n q k \<Longrightarrow> n' \<le> n \<Longrightarrow> k' \<le> k \<Longrightarrow> separate p n' q k'"
  by (auto simp: separate_def)

lemma read_write_separate:
  assumes "separate p (length cs) q k"
  shows "read_bytes (write_bytes m p cs) q k = read_bytes m q k"
proof -
  have "length cs \<le> unat (q + of_nat i - p)" if "i < k" for i
    using separate_regions [OF separate_sym [OF assms], of "q + of_nat i"] that assms
      unat_u64_less [of "p - q"] addr_in_region [of i "2 ^ 64" q] by (auto simp: separate_def)
  then show ?thesis by (simp add: read_bytes_def write_bytes_outside)
qed

section \<open>Strings in memory\<close>

lemma cstr_Nil [simp]: "cstr m p [] \<longleftrightarrow> m p = 0"
  by (simp add: cstr_def)

lemma cstr_Cons [simp]: "cstr m p (c # cs) \<longleftrightarrow> m p = c \<and> c \<noteq> 0 \<and> cstr m (p + 1) cs"
  by (auto simp: cstr_def)

lemma cstr_upd: "length cs < unat (d - s) \<Longrightarrow> cstr (m(d := x)) s cs = cstr m s cs"
  by (simp add: cstr_def read_bytes_upd del: read_bytes_simps(2))

lemma cstr_length: "cstr m p cs \<Longrightarrow> length cs < 2 ^ 64"
proof (rule ccontr)
  assume c: "cstr m p cs" and "\<not> length cs < 2 ^ 64"
  then have le: "2 ^ 64 \<le> length cs" by simp
  have nth: "m (p + of_nat i) = (cs @ [0]) ! i" if "i \<le> length cs" for i
    using c that unfolding cstr_def read_bytes_def by (auto dest: arg_cong [where f = "\<lambda>l. l ! i"] simp del: upt_Suc)
  have "(of_nat (length cs - 2 ^ 64) :: u64) = of_nat (length cs)"
    using le by (simp add: of_nat_diff)
  then have "(cs @ [0]) ! (length cs - 2 ^ 64) = 0" using nth [of "length cs"] nth [of "length cs - 2 ^ 64"] by simp
  moreover have less: "length cs - 2 ^ 64 < length cs" using le by (intro diff_less) auto
  ultimately have "cs ! (length cs - 2 ^ 64) = 0" by (simp add: nth_append)
  with c less show False by (auto simp: cstr_def in_set_conv_nth)
qed

lemma cstr_exists: "m a = 0 \<Longrightarrow> \<exists>cs. cstr m p cs"
proof (induction "unat (a - p)" arbitrary: p)
  case 0
  then have "a = p" by (simp add: unsigned_eq_0_iff)
  with 0 have "cstr m p []" by simp
  then show ?case ..
next
  case (Suc k)
  then have "a \<noteq> p" by auto
  then obtain cs where "cstr m (p + 1) cs" using Suc unat_sub_step [of a p] by auto
  then show ?case by (cases "m p = 0") (auto intro: exI [of _ "[]"] exI [of _ "m p # cs"])
qed

section \<open>Lengths and searches on strings\<close>

lemma strlen_loop_cstr: "cstr m s cs \<Longrightarrow> strlen_loop m s cnt = Some (cnt + of_nat (length cs))"
  by (induction cs arbitrary: s cnt) (simp_all add: strlen_loop.simps algebra_simps)

lemma strlen_loop_returns: "strlen_loop m s cnt = Some r \<Longrightarrow> \<exists>a. m a = 0"
  by (rule strlen_loop.raw_induct [where P = "\<lambda>m s cnt r. \<exists>a. m a = 0"]) (auto split: if_splits)

lemma strchr_cstr:
  "cstr m s cs \<Longrightarrow>
   strchr m s c = Some (if c \<in> set cs then s + of_nat (length (takeWhile ((\<noteq>) c) cs)) else 0)"
  by (induction cs arbitrary: s) (auto simp: strchr.simps)

lemma strfind_cstr:
  "cstr m s cs \<Longrightarrow> strfind m s c = Some (s + of_nat (length (takeWhile ((\<noteq>) c) cs)))"
  by (induction cs arbitrary: s) (auto simp: strfind.simps)

lemma strnlen_loop_cstr:
  assumes "cstr m s cs" and "cnt \<le> len"
  shows "unat (strnlen_loop m s len cnt) = min (unat len) (unat cnt + length cs)"
  using assms
proof (induction cs arbitrary: s cnt)
  case Nil
  then show ?case by (simp add: strnlen_loop.simps word_le_nat_alt)
next
  case (Cons c cs)
  show ?case
  proof (cases "cnt < len")
    case True
    then have "unat (cnt + 1) = Suc (unat cnt)" by (rule unat_u64_Suc)
    moreover have "cnt + 1 \<le> len" using True calculation by (simp add: word_le_nat_alt word_less_nat_alt)
    ultimately show ?thesis
      using Cons.IH [of "s + 1" "cnt + 1"] Cons.prems True by (simp add: strnlen_loop.simps [of m s])
  next
    case False
    with Cons.prems(2) show ?thesis
      by (simp add: strnlen_loop.simps word_le_nat_alt word_less_nat_alt)
  qed
qed

section \<open>Copies\<close>

lemma memset_loop_write: "memset_loop p c n m = write_bytes m p (replicate (unat n) c)"
proof (induction n arbitrary: p m rule: u64_countdown)
  case (step n)
  then show ?case
    using unat_u64_less [of "n - 1"] by (simp add: counted_loops_step write_bytes_Cons del: fun_upd_apply)
qed simp

lemma copy_forward_write:
  assumes "d = s \<or> unat n \<le> unat (d - s)"
  shows "copy_forward d s n m = write_bytes m d (read_bytes m s (unat n))"
  using assms
proof (induction n arbitrary: d s m rule: u64_countdown)
  case (step n)
  have k: "unat (n - 1) < 2 ^ 64" by (rule unat_u64_less)
  have "unat (n - 1) \<le> unat (d - (s + 1))"
  proof (cases "d = s")
    case True
    then show ?thesis using k by (simp add: unat_minus_1_max)
  next
    case False
    with step.prems step.hyps show ?thesis by (simp add: unat_sub_step)
  qed
  then have "read_bytes (m(d := m s)) (s + 1) (unat (n - 1)) = read_bytes m (s + 1) (unat (n - 1))"
    by (rule read_bytes_upd)
  moreover have "d + 1 = s + 1 \<or> unat (n - 1) \<le> unat ((d + 1) - (s + 1))"
    using step.prems step.hyps by auto
  ultimately show ?case
    using step.IH [of "d + 1" "s + 1" "m(d := m s)"] step.hyps k
    by (simp add: counted_loops_step write_bytes_Cons del: fun_upd_apply)
qed simp

lemma read_bytes_snoc: "read_bytes m p (Suc n) = read_bytes m p n @ [m (p + of_nat n)]"
  by (simp add: read_bytes_def)

lemma copy_backward_write:
  assumes "d = s \<or> unat n \<le> unat (s - d)"
  shows "copy_backward (d + n) (s + n) n m = write_bytes m d (read_bytes m s (unat n))"
  using assms
proof (induction n arbitrary: m rule: u64_countdown)
  case (step n)
  let ?k = "unat (n - 1)" and ?m = "m(d + (n - 1) := m (s + (n - 1)))"
  have "?k \<le> unat (d + (n - 1) - s)"
  proof (cases "d = s")
    case False
    then have "unat (s - d) + unat (d - s) = 2 ^ 64" by (rule unat_sub_sum)
    moreover have eq: "d + (n - 1) - s = (d - s) + (n - 1)" by simp
    moreover have "unat ((d - s) + (n - 1)) = unat (d - s) + ?k"
      using False step.prems step.hyps calculation(1) by (intro unat_u64_add) auto
    ultimately show ?thesis by (simp only: eq)
  qed simp
  then have "read_bytes ?m s ?k = read_bytes m s ?k" by (rule read_bytes_upd)
  moreover have "d = s \<or> ?k \<le> unat (s - d)" using step.prems step.hyps by auto
  ultimately have "copy_backward (d + (n - 1)) (s + (n - 1)) (n - 1) ?m = write_bytes ?m d (read_bytes m s ?k)"
    using step.IH [of ?m] by (simp del: fun_upd_apply)
  also have "\<dots> = write_bytes m d (read_bytes m s ?k @ [m (s + (n - 1))])"
    using write_bytes_snoc [of "read_bytes m s ?k"] unat_u64_less [of "n - 1"] by simp
  also have "\<dots> = write_bytes m d (read_bytes m s (unat n))"
    by (simp only: step.hyps(2) read_bytes_snoc of_nat_unat_u64)
  finally show ?case
    by (simp only: counted_loops_step(4) [OF step.hyps(1)] add_diff_eq)
qed simp

lemma strcpy_loop_write:
  assumes "cstr m src cs" and "separate p (Suc (length cs)) src (Suc (length cs))"
  shows "strcpy_loop p src m = Some (write_bytes m p (cs @ [0]))"
  using assms
proof (induction cs arbitrary: p src m)
  case Nil
  then show ?case using write_bytes_Cons [of "[]" m p 0]
    by (simp add: strcpy_loop.simps Let_def del: fun_upd_apply)
next
  case (Cons c cs)
  have ps: "p \<noteq> src" using Cons.prems(2) by (auto simp: separate_def)
  have "length cs < unat (p - (src + 1))"
    using Cons.prems(2) unat_sub_step [OF ps] by (simp add: separate_def)
  then have "cstr (m(p := m src)) (src + 1) cs" using Cons.prems(1) by (simp add: cstr_upd)
  moreover have "separate (p + 1) (Suc (length cs)) (src + 1) (Suc (length cs))"
    using Cons.prems(2) by (simp add: separate_def)
  moreover have "length (cs @ [0]) < 2 ^ 64" using cstr_length [OF Cons.prems(1)] by simp
  ultimately show ?case
    using Cons.IH [of "m(p := m src)" "src + 1" "p + 1"] Cons.prems(1) write_bytes_Cons [of "cs @ [0]" m p c]
    by (simp add: strcpy_loop.simps [of p] Let_def del: fun_upd_apply)
qed

lemma separate_next:
  assumes "separate p (Suc n) q (Suc k)"
  shows "separate (p + 1) n (q + 1) k" and "separate (p + 1) n q (Suc k)" and "p \<noteq> q"
    and "Suc k \<le> unat (p - q)" and "k \<le> unat (p - (q + 1))"
proof -
  show pq: "p \<noteq> q" and "Suc k \<le> unat (p - q)" using assms by (auto simp: separate_def)
  then show "k \<le> unat (p - (q + 1))" by (simp add: unat_sub_step)
  show "separate (p + 1) n (q + 1) k" using assms by (auto simp: separate_def)
  show "separate (p + 1) n q (Suc k)"
  proof (cases "n = 0")
    case False
    have q: "unat (q - p) = Suc (unat (q - (p + 1)))" using pq by (intro unat_sub_step) simp
    with assms False have "q \<noteq> p + 1" and "n \<le> unat (q - (p + 1))" by (auto simp: separate_def)
    moreover have "unat (p + 1 - q) = Suc (unat (p - q))"
      using unat_sub_step [of "p + 1" q] calculation(1) by simp
    ultimately show ?thesis using assms by (simp add: separate_def)
  qed (simp add: separate_def)
qed

lemma strncpy_loop_write:
  assumes "cstr m src cs" and "separate p (unat len) src (Suc (length cs))"
  shows "strncpy_loop p src len m =
    write_bytes m p (take (unat len) cs @ replicate (unat len - length cs) 0)"
  using assms
proof (induction len arbitrary: p src m cs rule: u64_countdown)
  case (step len)
  let ?k = "unat (len - 1)" and ?m = "m(p := m src)"
  have k: "?k < 2 ^ 64" by (rule unat_u64_less)
  note sep = separate_next [OF step.prems(2) [unfolded step.hyps(2)]]
  show ?case
  proof (cases cs)
    case Nil
    have "cstr ?m src []" using step.prems(1) Nil sep(3) by simp
    moreover have "separate (p + 1) ?k src (Suc (length ([] :: u8 list)))" using sep(2) Nil by simp
    ultimately show ?thesis
      using step.IH [of ?m src "[]" "p + 1"] step.prems(1) Nil step.hyps k
      by (simp add: counted_loops_step write_bytes_Cons del: fun_upd_apply)
  next
    case (Cons c cs')
    then have "cstr ?m (src + 1) cs'" using step.prems(1) sep(5) by (simp add: cstr_upd)
    moreover have "separate (p + 1) ?k (src + 1) (Suc (length cs'))" using sep(1) Cons by simp
    ultimately show ?thesis
      using step.IH [of ?m "src + 1" cs' "p + 1"] step.prems(1) Cons step.hyps k
      by (simp add: counted_loops_step write_bytes_Cons del: fun_upd_apply)
  qed
qed simp

section \<open>Comparisons\<close>

text \<open>Comparison of byte lists, an absent byte counting as NUL.\<close>

fun bytes_cmp :: "u8 list \<Rightarrow> u8 list \<Rightarrow> int" where
  "bytes_cmp (a # as) (b # bs) = (if a = b then bytes_cmp as bs else byte_diff a b)"
| "bytes_cmp [] (b # bs) = byte_diff 0 b"
| "bytes_cmp (a # as) [] = byte_diff a 0"
| "bytes_cmp [] [] = 0"

lemma byte_diff_simps [simp]: "byte_diff a b = 0 \<longleftrightarrow> a = b" "byte_diff a b < 0 \<longleftrightarrow> a < b"
  by (auto simp: byte_diff_def word_uint_eq_iff word_less_def)

lemma strcmp_cstr: "cstr m s1 as \<Longrightarrow> cstr m s2 bs \<Longrightarrow> strcmp m s1 s2 = Some (bytes_cmp as bs)"
proof (induction as bs arbitrary: s1 s2 rule: bytes_cmp.induct)
  case (1 a as b bs)
  then show ?case by (auto simp: strcmp.simps [of m s1])
qed (auto simp: strcmp.simps)

lemma strncmp_cstr:
  "cstr m s1 as \<Longrightarrow> cstr m s2 bs \<Longrightarrow>
   strncmp m s1 s2 n = bytes_cmp (take (unat n) as) (take (unat n) bs)"
proof (induction n arbitrary: s1 s2 as bs rule: u64_countdown)
  case (step n)
  from step.hyps have "n \<noteq> 0" by auto
  with step show ?case
    by (cases as; cases bs) (auto simp: strncmp.simps [of m s1])
qed simp

lemma memcmp_read:
  "memcmp m s1 s2 n = bytes_cmp (read_bytes m s1 (unat n)) (read_bytes m s2 (unat n))"
proof (induction n arbitrary: s1 s2 rule: u64_countdown)
  case (step n)
  then show ?case by (simp add: memcmp.simps [of m s1])
qed simp

lemma bytes_cmp_0:
  "0 \<notin> set as \<and> 0 \<notin> set bs \<or> length as = length bs \<Longrightarrow> bytes_cmp as bs = 0 \<longleftrightarrow> as = bs"
  by (induction as bs rule: bytes_cmp.induct) auto

lemma bytes_cmp_less:
  "0 \<notin> set as \<and> 0 \<notin> set bs \<or> length as = length bs \<Longrightarrow>
   bytes_cmp as bs < 0 \<longleftrightarrow> (as, bs) \<in> lexord {(a, b). a < b}"
  by (induction as bs rule: bytes_cmp.induct) (auto simp: word_gt_0)

lemma bytes_cmp_swap: "bytes_cmp bs as = - bytes_cmp as bs"
  by (induction as bs rule: bytes_cmp.induct) (auto simp: byte_diff_def)

section \<open>Numbers\<close>

text \<open>Digits in a given base, and their value.\<close>

definition is_digits :: "int \<Rightarrow> u8 list \<Rightarrow> int list \<Rightarrow> bool" where
  "is_digits base ds vs \<longleftrightarrow> map digit_value ds = map Some vs \<and> (\<forall>v \<in> set vs. v < base)"

definition no_digit :: "int \<Rightarrow> u8 \<Rightarrow> bool" where
  "no_digit base c \<longleftrightarrow> (case digit_value c of None \<Rightarrow> True | Some v \<Rightarrow> base \<le> v)"

definition horner :: "int \<Rightarrow> int list \<Rightarrow> int" where
  "horner base vs = foldl (\<lambda>v d. v * base + d) 0 vs"

lemma is_digits_simps [simp]:
  "is_digits base [] vs \<longleftrightarrow> vs = []" "is_digits base ds [] \<longleftrightarrow> ds = []"
  "is_digits base (c # ds) (v # vs) \<longleftrightarrow> digit_value c = Some v \<and> v < base \<and> is_digits base ds vs"
  by (auto simp: is_digits_def)

lemma cstr_append:
  "cstr m p (as @ bs) \<longleftrightarrow> 0 \<notin> set as \<and> read_bytes m p (length as) = as \<and> cstr m (p + of_nat (length as)) bs"
  by (induction as arbitrary: p) (auto simp: algebra_simps)

lemma cstr_hd: "cstr m p cs \<Longrightarrow> cs \<noteq> [] \<Longrightarrow> m p = hd cs"
  by (cases cs) auto

lemma no_digit_0: "no_digit base 0"
  by (simp add: no_digit_def digit_value_def chr_def)

lemma strtol_digits_run:
  assumes "cstr m s (ds @ rest)" and "is_digits base ds vs"
    and "rest = [] \<or> no_digit base (hd rest)"
  shows "strtol_digits m s base (of_int val) =
    Some (s + of_nat (length ds), of_int (foldl (\<lambda>v d. v * base + d) val vs))"
  using assms
proof (induction ds arbitrary: s vs val)
  case Nil
  then have "no_digit base (m s)" using no_digit_0 by (cases rest) auto
  with Nil show ?case
    by (subst strtol_digits.simps) (auto simp: no_digit_def split: option.splits)
next
  case (Cons c ds)
  then obtain v vs' where vs: "vs = v # vs'" by (cases vs) (auto simp: is_digits_def)
  with Cons.prems have "digit_value (m s) = Some v" "v < base" by auto
  moreover have "of_int val * of_int base + of_int v = (of_int (val * base + v) :: u64)" by simp
  ultimately show ?case
    using Cons.IH [of "s + 1" vs' "val * base + v"] Cons.prems vs
    by (subst strtol_digits.simps) (simp add: add.assoc)
qed

lemma skip_blanks_run:
  assumes "cstr m s (bl @ rest)" and "set bl \<subseteq> {32, 9}" and "rest = [] \<or> hd rest \<notin> {32, 9}"
  shows "skip_blanks m s = Some (s + of_nat (length bl))"
  using assms
proof (induction bl arbitrary: s)
  case Nil
  then have "m s \<noteq> 32 \<and> m s \<noteq> 9" by (cases rest) auto
  then show ?case by (simp add: skip_blanks.simps chr_def)
next
  case (Cons c bl)
  then show ?case by (auto simp: skip_blanks.simps [of m s] chr_def algebra_simps)
qed

text \<open>Signs and base prefixes: what precedes the digits, and the base the digits are read in.\<close>

definition sign_prefix :: "u8 list \<Rightarrow> bool \<Rightarrow> bool" where
  "sign_prefix sg neg \<longleftrightarrow> sg = [] \<and> \<not> neg \<or> sg = [chr CHR ''+''] \<and> \<not> neg \<or> sg = [chr CHR ''-''] \<and> neg"

definition base_prefix :: "int \<Rightarrow> u8 list \<Rightarrow> u8 list \<Rightarrow> int \<Rightarrow> bool" where
  "base_prefix base pre ds b \<longleftrightarrow>
     base \<notin> {0, 16} \<and> pre = [] \<and> b = base \<or>
     base \<in> {0, 16} \<and> pre = [chr CHR ''0'', chr CHR ''x''] \<and> b = 16 \<or>
     base = 0 \<and> pre = [chr CHR ''0''] \<and> ds \<noteq> [] \<and> b = 8 \<or>
     base = 0 \<and> pre = [] \<and> hd ds \<noteq> chr CHR ''0'' \<and> b = 10"

lemma digit_not_special:
  "digit_value c = Some v \<Longrightarrow> c \<noteq> chr CHR ''+'' \<and> c \<noteq> chr CHR ''-'' \<and> c \<noteq> 32 \<and> c \<noteq> 9"
  by (auto simp: digit_value_def chr_def split: if_splits)

lemma digit_value_x: "digit_value (chr CHR ''x'') = Some 33"
  by code_simp

text \<open>The text after the blanks, sign and prefix in turn.\<close>

lemma strtol_run:
  assumes str: "cstr m s (bl @ sg @ pre @ ds @ rest)"
    and bl: "set bl \<subseteq> {32, 9}" and sg: "sign_prefix sg neg" and pre: "base_prefix base pre ds b"
    and ds: "is_digits b ds vs" "ds \<noteq> []" and rest: "rest = [] \<or> no_digit b (hd rest)"
  shows "strtol m s endptr base =
    Some (of_int (if neg then - horner b vs else horner b vs),
          if endptr then Some (s + of_nat (length (bl @ sg @ pre @ ds))) else None)"
proof -
  obtain d ds' v vs' where d: "ds = d # ds'" "vs = v # vs'" "digit_value d = Some v" "v < b"
    using ds by (cases ds; cases vs) auto
  note sp = digit_not_special [OF d(3)] digit_not_special [of "chr CHR ''0''" 0]
  have zero: "digit_value (chr CHR ''0'') = Some 0" by code_simp
  have pds: "pre @ ds \<noteq> []" "hd (pre @ ds) \<noteq> chr CHR ''+''" "hd (pre @ ds) \<noteq> chr CHR ''-''"
    "hd (pre @ ds) \<notin> {32, 9}"
    using pre d(1) sp zero by (auto simp: base_prefix_def)
  define s1 where "s1 = s + of_nat (length bl)"
  define s2 where "s2 = s1 + of_nat (length sg)"
  define s3 where "s3 = s2 + of_nat (length pre)"
  have c1: "cstr m s1 (sg @ pre @ ds @ rest)" using str by (simp add: cstr_append s1_def)
  have c2: "cstr m s2 (pre @ ds @ rest)" using c1 by (simp add: cstr_append s2_def)
  have c3: "cstr m s3 (ds @ rest)" using c2 by (simp add: cstr_append s3_def)
  have e1: "skip_blanks m s = Some s1" unfolding s1_def
  proof (rule skip_blanks_run [OF str bl])
    show "sg @ pre @ ds @ rest = [] \<or> hd (sg @ pre @ ds @ rest) \<notin> {32, 9}"
      using sg pds by (auto simp: sign_prefix_def chr_def hd_append)
  qed
  have e2: "(if m s1 = chr CHR ''+'' then (s1 + 1, False)
      else if m s1 = chr CHR ''-'' then (s1 + 1, True) else (s1, False)) = (s2, neg)"
  proof -
    have "m s1 = hd (pre @ ds)" if "sg = []"
      using c1 that pds(1) cstr_hd [of m s1 "(pre @ ds) @ rest"] by (auto simp: hd_append)
    then show ?thesis
      using sg c1 pds by (auto simp: sign_prefix_def s2_def chr_def)
  qed
  have e3: "(if (base = 0 \<or> base = 16) \<and> m s2 = chr CHR ''0'' \<and> m (s2 + 1) = chr CHR ''x''
       then (s2 + 2, 16) else if base = 0 \<and> m s2 = chr CHR ''0'' then (s2 + 1, 8)
       else if base = 0 then (s2, 10) else (s2, base)) = (s3, b)"
    using pre c2 d digit_value_x by (auto simp: base_prefix_def s3_def chr_def)
  have e4: "strtol_digits m s3 b 0 = Some (s3 + of_nat (length ds), of_int (horner b vs))"
    using strtol_digits_run [OF c3 ds(1) rest, of 0] by (simp add: horner_def)
  show ?thesis
    unfolding strtol_def e1 Option.bind.bind_lunit Let_def e2 prod.case e3 e4 option.map
    by (simp add: s1_def s2_def s3_def add.assoc)
qed

section \<open>Properties\<close>

text \<open>A memory holding the bytes \<open>cs\<close> from address 4096 on and zeros elsewhere, for concrete runs.\<close>

definition demo_mem :: "u8 list \<Rightarrow> mem" where
  "demo_mem cs = write_bytes (\<lambda>_. 0) 4096 cs"

text \<open>
  The unbounded scan \<open>strlen\<close> returns exactly when some byte of memory is NUL; it never returns
  otherwise.
\<close>

theorem strlen_returns_iff: "(\<exists>n. strlen m s = Some n) \<longleftrightarrow> (\<exists>a. m a = 0)"
proof
  assume "\<exists>n. strlen m s = Some n"
  then show "\<exists>a. m a = 0" using strlen_loop_returns by (auto simp: strlen_def)
next
  assume "\<exists>a. m a = 0"
  then obtain cs where "cstr m s cs" using cstr_exists by blast
  then show "\<exists>n. strlen m s = Some n" by (simp add: strlen_def strlen_loop_cstr)
qed

text \<open>
  On a NUL-terminated string the scans return and are right: \<open>strlen\<close> its length, \<open>strnlen\<close> the
  smaller of length and bound, \<open>strchr\<close> and \<open>strfind\<close> the first occurrence, or \<open>NULL\<close> and the end of
  the string when there is none.
\<close>

theorem string_scans_correct:
  assumes "cstr m s cs"
  shows "length cs < 2 ^ 64 \<and> strlen m s = Some (of_nat (length cs)) \<and>
    unat (strnlen m s len) = min (unat len) (length cs) \<and>
    strchr m s c = Some (if c \<in> set cs then s + of_nat (length (takeWhile ((\<noteq>) c) cs)) else 0) \<and>
    strfind m s c = Some (s + of_nat (length (takeWhile ((\<noteq>) c) cs)))"
  using assms cstr_length strlen_loop_cstr [of m s cs 0] strnlen_loop_cstr [of m s cs 0 len]
    strchr_cstr strfind_cstr
  by (simp add: strlen_def strnlen_def)

theorem string_scans_correct_witness:
  "strlen (demo_mem [104, 101, 108, 108, 111]) 4096 = Some 5 \<and>
   strchr (demo_mem [104, 101, 108, 108, 111]) 4096 108 = Some 4098"
proof -
  have "cstr (demo_mem [104, 101, 108, 108, 111]) 4096 [104, 101, 108, 108, 111]" by code_simp
  from string_scans_correct [OF this, of 9 108] show ?thesis by simp
qed

text \<open>
  \<open>strcpy\<close> into a region separate from the source returns and stores the string with its
  terminator and nothing else; \<open>strncpy\<close> stores exactly \<open>len\<close> bytes: the string, cut or padded with NULs.
\<close>

theorem string_copies_correct:
  assumes "cstr m src cs"
  shows "(separate dst (Suc (length cs)) src (Suc (length cs)) \<longrightarrow>
      strcpy dst src m = Some (dst, write_bytes m dst (cs @ [0])) \<and>
      cstr (write_bytes m dst (cs @ [0])) dst cs) \<and>
    (separate dst (unat len) src (Suc (length cs)) \<longrightarrow>
      strncpy dst src len m =
        (dst, write_bytes m dst (take (unat len) cs @ replicate (unat len - length cs) 0)))"
proof -
  have "cstr (write_bytes m dst (cs @ [0])) dst cs"
    using assms cstr_length [OF assms] read_write_bytes [of "cs @ [0]" m dst]
    by (simp add: cstr_def del: read_bytes_simps(2))
  with assms show ?thesis
    by (simp add: strcpy_def strncpy_def strcpy_loop_write strncpy_loop_write)
qed

theorem string_copies_correct_witness:
  "strcpy 8192 4096 (demo_mem [104, 105]) =
     Some (8192, write_bytes (demo_mem [104, 105]) 8192 [104, 105, 0]) \<and>
   strncpy 8192 4096 4 (demo_mem [104, 105]) =
     (8192, write_bytes (demo_mem [104, 105]) 8192 [104, 105, 0, 0])"
proof -
  have s: "cstr (demo_mem [104, 105]) 4096 [104, 105]" by code_simp
  have "separate 8192 (Suc (length [104, 105 :: u8])) 4096 (Suc (length [104, 105 :: u8]))"
    "separate 8192 (unat (4 :: u64)) 4096 (Suc (length [104, 105 :: u8]))"
    by (simp_all add: separate_def)
  moreover have "take (unat (4 :: u64)) [104, 105 :: u8] @
      replicate (unat (4 :: u64) - length [104, 105 :: u8]) 0 = [104, 105, 0, 0]" by code_simp
  ultimately show ?thesis
    using string_copies_correct [OF s, of 8192 4] by (simp only: append.simps simp_thms)
qed

text \<open>
  C16. \<open>memmove\<close> copies correctly however source and destination overlap: the destination gets the
  bytes the source had before the call and every other byte is unchanged, provided the source does
  not reach the end of the address space and the destination does not pass it.
\<close>

theorem memmove_overlap_correct:
  assumes "unat src + unat n < 2 ^ 64" and "unat dst + unat n \<le> 2 ^ 64"
  shows "memmove dst src n m = (dst, write_bytes m dst (read_bytes m src (unat n)))"
proof (cases "src < dst \<and> src + n > dst")
  case True
  then have "unat (src - dst) = 2 ^ 64 + unat src - unat dst"
    by (simp add: unat_sub_if' word_less_nat_alt)
  then have "unat n \<le> unat (src - dst)" using assms(2) by simp
  with True show ?thesis by (simp add: memmove_def copy_backward_write)
next
  case False
  have sum: "unat (src + n) = unat src + unat n" using assms(1) by (rule unat_u64_add)
  have "dst = src \<or> unat n \<le> unat (dst - src)"
    using False assms sum by (auto simp: unat_sub_if' word_less_nat_alt word_unat_eq_iff)
  with False show ?thesis by (auto simp: memmove_def copy_forward_write)
qed

theorem memmove_overlap_correct_witness:
  "unat (4096 :: u64) + unat (3 :: u64) < 2 ^ 64 \<and>
   memmove 4097 4096 3 (demo_mem [1, 2, 3]) =
     (4097, write_bytes (demo_mem [1, 2, 3]) 4097 [1, 2, 3]) \<and>
   read_bytes (snd (memmove 4097 4096 3 (demo_mem [1, 2, 3]))) 4096 4 = [1, 1, 2, 3]"
proof (intro conjI)
  have r: "read_bytes (demo_mem [1, 2, 3]) 4096 (unat (3 :: u64)) = [1, 2, 3]" by code_simp
  show eq: "memmove 4097 4096 3 (demo_mem [1, 2, 3]) =
      (4097, write_bytes (demo_mem [1, 2, 3]) 4097 [1, 2, 3])"
    using memmove_overlap_correct [of 4096 3 4097 "demo_mem [1, 2, 3]"] unfolding r by simp
  show "read_bytes (snd (memmove 4097 4096 3 (demo_mem [1, 2, 3]))) 4096 4 = [1, 1, 2, 3]"
    by code_simp
qed simp

text \<open>
  \<open>memset\<close> fills exactly its region; \<open>memcpy\<close> copies exactly its region when source and
  destination are separate, which its comment requires.
\<close>

theorem memset_memcpy_correct:
  assumes "separate dst (unat n) src (unat n)"
  shows "memset dst c n m = (dst, write_bytes m dst (replicate (unat n) c)) \<and>
    memcpy dst src n m = (dst, write_bytes m dst (read_bytes m src (unat n)))"
proof -
  have "n = 0 \<or> unat n \<le> unat (dst - src)" using assms by (auto simp: separate_def unsigned_eq_0_iff)
  then show ?thesis by (auto simp: memset_def memcpy_def memset_loop_write copy_forward_write)
qed

theorem memset_memcpy_correct_witness:
  "separate 8192 (unat (2 :: u64)) 4096 (unat (2 :: u64)) \<and>
   memset 8192 7 2 (demo_mem [1, 2]) = (8192, write_bytes (demo_mem [1, 2]) 8192 [7, 7]) \<and>
   memcpy 8192 4096 2 (demo_mem [1, 2]) = (8192, write_bytes (demo_mem [1, 2]) 8192 [1, 2])"
proof -
  have s: "separate 8192 (unat (2 :: u64)) 4096 (unat (2 :: u64))" by (simp add: separate_def)
  have r: "read_bytes (demo_mem [1, 2]) 4096 (unat (2 :: u64)) = [1, 2]" by code_simp
  have "replicate (unat (2 :: u64)) (7 :: u8) = [7, 7]" by code_simp
  with s memset_memcpy_correct [OF s, of 7 "demo_mem [1, 2]"] show ?thesis
    by (simp only: r simp_thms)
qed

text \<open>
  The comparisons return and order strings lexicographically by unsigned bytes: \<open>strcmp\<close> is zero on
  equal strings and negative exactly when the first is smaller, \<open>strncmp\<close> compares the first \<open>n\<close>
  characters, \<open>memcmp\<close> compares blocks, and swapping the arguments changes the sign.
\<close>

theorem comparisons_lexicographic:
  assumes "cstr m s1 as" and "cstr m s2 bs"
  shows "(\<exists>r. strcmp m s1 s2 = Some r \<and> strcmp m s2 s1 = Some (- r) \<and> (r = 0 \<longleftrightarrow> as = bs) \<and>
      (r < 0 \<longleftrightarrow> (as, bs) \<in> lexord {(a, b). a < b})) \<and>
    (strncmp m s1 s2 n = 0 \<longleftrightarrow> take (unat n) as = take (unat n) bs) \<and>
    (strncmp m s1 s2 n < 0 \<longleftrightarrow> (take (unat n) as, take (unat n) bs) \<in> lexord {(a, b). a < b}) \<and>
    (memcmp m p q k = 0 \<longleftrightarrow> read_bytes m p (unat k) = read_bytes m q (unat k)) \<and>
    (memcmp m p q k < 0 \<longleftrightarrow>
       (read_bytes m p (unat k), read_bytes m q (unat k)) \<in> lexord {(a, b). a < b})"
proof -
  have nz: "0 \<notin> set as" "0 \<notin> set bs" using assms by (auto simp: cstr_def)
  then have nzt: "0 \<notin> set (take (unat n) as)" "0 \<notin> set (take (unat n) bs)"
    by (auto dest: in_set_takeD)
  have "strcmp m s1 s2 = Some (bytes_cmp as bs)" "strcmp m s2 s1 = Some (- bytes_cmp as bs)"
    using assms by (simp_all add: strcmp_cstr bytes_cmp_swap [of bs as])
  moreover have "bytes_cmp as bs = 0 \<longleftrightarrow> as = bs" using nz by (intro bytes_cmp_0) simp
  moreover have "bytes_cmp as bs < 0 \<longleftrightarrow> (as, bs) \<in> lexord {(a, b). a < b}"
    using nz by (intro bytes_cmp_less) simp
  ultimately show ?thesis
    using nzt by (simp add: strncmp_cstr [OF assms] memcmp_read bytes_cmp_0 bytes_cmp_less)
qed

theorem comparisons_lexicographic_witness:
  "\<exists>r. strcmp (demo_mem [97, 98, 0, 97, 99]) 4096 4099 = Some r \<and>
     (r < 0 \<longleftrightarrow> ([97, 98 :: u8], [97, 99]) \<in> lexord {(a, b). a < b})"
proof -
  have "cstr (demo_mem [97, 98, 0, 97, 99]) 4096 [97, 98]"
    "cstr (demo_mem [97, 98, 0, 97, 99]) 4099 [97, 99]" by code_simp+
  from comparisons_lexicographic [OF this] show ?thesis by blast
qed



end
