(* ===== verification/Machine.thy ===== *)
theory Machine
  imports CC_Prelude
begin

unbundle bit_operations_syntax

text \<open>
  The hardware as the kernel uses it: control and status registers (the macros of \<open>libs/riscv.h\<close>),
  calls to the firmware (\<open>libs/sbi.c\<close>), the console on top of them (\<open>kern/driver/console.c\<close>), and
  interrupt control (\<open>kern/driver/intr.c\<close>, \<open>kern/sync/sync.h\<close>). A register keeps what is written to it.
  The firmware, the clock and the addresses the linker assigns are not part of the sources: the
  record \<open>platform\<close> is a parameter of every definition that uses them.
\<close>

section \<open>State\<close>

datatype csr = Sstatus | Sie | Stvec | Sscratch | Sepc | Scause | Sbadaddr | Satp

record sbi_req =
  sbi_type :: u64
  arg0 :: u64
  arg1 :: u64
  arg2 :: u64

record hw =
  csrs :: "csr \<Rightarrow> u64"
  sbi_log :: "sbi_req list"
  time_reads :: nat

text \<open>
  \<open>firmware h\<close> is the value that the last call of the history \<open>h\<close> returns, \<open>clock_reading n\<close> the value
  of the \<open>n\<close>-th \<open>rdtime\<close>.
\<close>

record platform =
  firmware :: "sbi_req list \<Rightarrow> u64"
  clock_reading :: "nat \<Rightarrow> u64"
  sym_kern_init :: uintptr_t
  sym_etext :: uintptr_t
  sym_edata :: uintptr_t
  sym_end :: uintptr_t
  sym_boot_page_table_sv39 :: uintptr_t
  sym_alltraps :: uintptr_t
  sym_bootstack :: uintptr_t

section \<open>Registers (\<open>libs/riscv.h\<close>)\<close>

definition SSTATUS_UIE :: u64 where "SSTATUS_UIE = 0x00000001"
definition SSTATUS_SIE :: u64 where "SSTATUS_SIE = 0x00000002"
definition SSTATUS_UPIE :: u64 where "SSTATUS_UPIE = 0x00000010"
definition SSTATUS_SPIE :: u64 where "SSTATUS_SPIE = 0x00000020"
definition SSTATUS_SPP :: u64 where "SSTATUS_SPP = 0x00000100"

definition IRQ_U_SOFT :: nat where "IRQ_U_SOFT = 0"
definition IRQ_S_SOFT :: nat where "IRQ_S_SOFT = 1"
definition IRQ_H_SOFT :: nat where "IRQ_H_SOFT = 2"
definition IRQ_M_SOFT :: nat where "IRQ_M_SOFT = 3"
definition IRQ_U_TIMER :: nat where "IRQ_U_TIMER = 4"
definition IRQ_S_TIMER :: nat where "IRQ_S_TIMER = 5"
definition IRQ_H_TIMER :: nat where "IRQ_H_TIMER = 6"
definition IRQ_M_TIMER :: nat where "IRQ_M_TIMER = 7"
definition IRQ_U_EXT :: nat where "IRQ_U_EXT = 8"
definition IRQ_S_EXT :: nat where "IRQ_S_EXT = 9"
definition IRQ_H_EXT :: nat where "IRQ_H_EXT = 10"
definition IRQ_M_EXT :: nat where "IRQ_M_EXT = 11"

definition MIP_SSIP :: u64 where "MIP_SSIP = push_bit IRQ_S_SOFT 1"
definition MIP_STIP :: u64 where "MIP_STIP = push_bit IRQ_S_TIMER 1"

lemmas irq_defs = IRQ_U_SOFT_def IRQ_S_SOFT_def IRQ_H_SOFT_def IRQ_M_SOFT_def IRQ_U_TIMER_def
  IRQ_S_TIMER_def IRQ_H_TIMER_def IRQ_M_TIMER_def IRQ_U_EXT_def IRQ_S_EXT_def IRQ_H_EXT_def
  IRQ_M_EXT_def

definition read_csr :: "csr \<Rightarrow> 'a hw_scheme \<Rightarrow> u64" where
  "read_csr reg h = csrs h reg"

definition write_csr :: "csr \<Rightarrow> u64 \<Rightarrow> 'a hw_scheme \<Rightarrow> 'a hw_scheme" where
  "write_csr reg val h = h\<lparr>csrs := (csrs h)(reg := val)\<rparr>"

definition swap_csr :: "csr \<Rightarrow> u64 \<Rightarrow> 'a hw_scheme \<Rightarrow> u64 \<times> 'a hw_scheme" where
  "swap_csr reg val h = (csrs h reg, h\<lparr>csrs := (csrs h)(reg := val)\<rparr>)"

definition set_csr :: "csr \<Rightarrow> u64 \<Rightarrow> 'a hw_scheme \<Rightarrow> u64 \<times> 'a hw_scheme" where
  "set_csr reg val h = (csrs h reg, h\<lparr>csrs := (csrs h)(reg := csrs h reg OR val)\<rparr>)"

definition clear_csr :: "csr \<Rightarrow> u64 \<Rightarrow> 'a hw_scheme \<Rightarrow> u64 \<times> 'a hw_scheme" where
  "clear_csr reg val h = (csrs h reg, h\<lparr>csrs := (csrs h)(reg := csrs h reg AND NOT val)\<rparr>)"

text \<open>
  \<open>do_div(n, base)\<close> returns the remainder and stores the quotient in \<open>n\<close>. The remainder passes
  through an \<open>int\<close>, which holds it for every base up to \<open>2\<^sup>31\<close>; the only caller has bases 8, 10 and 16.
\<close>

definition do_div :: "u64 \<Rightarrow> u32 \<Rightarrow> u64 \<times> u64" where
  "do_div n base = (n mod ucast base, n div ucast base)"

definition RISCV_PGSHIFT :: nat where "RISCV_PGSHIFT = 12"

definition lcr3 :: "u32 \<Rightarrow> 'a hw_scheme \<Rightarrow> 'a hw_scheme" where
  "lcr3 cr3 h = write_csr Satp (ucast (drop_bit RISCV_PGSHIFT cr3)) h"

section \<open>Firmware calls (\<open>libs/sbi.c\<close>)\<close>

definition SBI_SET_TIMER :: u64 where "SBI_SET_TIMER = 0"
definition SBI_CONSOLE_PUTCHAR :: u64 where "SBI_CONSOLE_PUTCHAR = 1"
definition SBI_CONSOLE_GETCHAR :: u64 where "SBI_CONSOLE_GETCHAR = 2"

definition sbi_call ::
  "platform \<Rightarrow> u64 \<Rightarrow> u64 \<Rightarrow> u64 \<Rightarrow> u64 \<Rightarrow> 'a hw_scheme \<Rightarrow> u64 \<times> 'a hw_scheme" where
  "sbi_call P ty x y z h =
     (let l = sbi_log h @ [\<lparr>sbi_type = ty, arg0 = x, arg1 = y, arg2 = z\<rparr>]
      in (firmware P l, h\<lparr>sbi_log := l\<rparr>))"

definition sbi_console_putchar :: "platform \<Rightarrow> u8 \<Rightarrow> 'a hw_scheme \<Rightarrow> 'a hw_scheme" where
  "sbi_console_putchar P ch h = snd (sbi_call P SBI_CONSOLE_PUTCHAR (ucast ch) 0 0 h)"

definition sbi_set_timer :: "platform \<Rightarrow> u64 \<Rightarrow> 'a hw_scheme \<Rightarrow> 'a hw_scheme" where
  "sbi_set_timer P stime_value h = snd (sbi_call P SBI_SET_TIMER stime_value 0 0 h)"

text \<open>The 64-bit result is converted to \<open>int\<close>: its low 32 bits, signed.\<close>

definition sbi_console_getchar :: "platform \<Rightarrow> 'a hw_scheme \<Rightarrow> int \<times> 'a hw_scheme" where
  "sbi_console_getchar P h =
     (let (r, h') = sbi_call P SBI_CONSOLE_GETCHAR 0 0 0 h in (sint (ucast r :: u32), h'))"

section \<open>Console (\<open>kern/driver/console.c\<close>)\<close>

definition kbd_intr :: "'a hw_scheme \<Rightarrow> 'a hw_scheme" where
  "kbd_intr h = h"

definition serial_intr :: "'a hw_scheme \<Rightarrow> 'a hw_scheme" where
  "serial_intr h = h"

definition cons_init :: "'a hw_scheme \<Rightarrow> 'a hw_scheme" where
  "cons_init h = h"

definition cons_putc :: "platform \<Rightarrow> int \<Rightarrow> 'a hw_scheme \<Rightarrow> 'a hw_scheme" where
  "cons_putc P c h = sbi_console_putchar P (of_int c) h"

definition cons_getc :: "platform \<Rightarrow> 'a hw_scheme \<Rightarrow> int \<times> 'a hw_scheme" where
  "cons_getc P h = sbi_console_getchar P h"

section \<open>Interrupts (\<open>kern/driver/intr.c\<close>, \<open>kern/sync/sync.h\<close>)\<close>

definition intr_enable :: "'a hw_scheme \<Rightarrow> 'a hw_scheme" where
  "intr_enable h = snd (set_csr Sstatus SSTATUS_SIE h)"

definition intr_disable :: "'a hw_scheme \<Rightarrow> 'a hw_scheme" where
  "intr_disable h = snd (clear_csr Sstatus SSTATUS_SIE h)"

definition intr_save :: "'a hw_scheme \<Rightarrow> bool \<times> 'a hw_scheme" where
  "intr_save h =
     (if read_csr Sstatus h AND SSTATUS_SIE \<noteq> 0 then (True, intr_disable h) else (False, h))"

definition intr_restore :: "bool \<Rightarrow> 'a hw_scheme \<Rightarrow> 'a hw_scheme" where
  "intr_restore flag h = (if flag then intr_enable h else h)"

text \<open>
  The pattern \<open>local_intr_save(flag); { body } local_intr_restore(flag);\<close> around a body that returns
  a value.
\<close>

definition with_intr_saved ::
  "('a hw_scheme \<Rightarrow> ('r \<times> 'a hw_scheme) res) \<Rightarrow> 'a hw_scheme \<Rightarrow> ('r \<times> 'a hw_scheme) res" where
  "with_intr_saved body h =
     (let (flag, h1) = intr_save h
      in res_bind (body h1) (\<lambda>(r, h2). Inr (r, intr_restore flag h2)))"

section \<open>What the console has shown\<close>

definition console_output :: "'a hw_scheme \<Rightarrow> u8 list" where
  "console_output h =
     map (\<lambda>r. ucast (arg0 r)) (filter (\<lambda>r. sbi_type r = SBI_CONSOLE_PUTCHAR) (sbi_log h))"

lemma cons_putc_log:
  "cons_putc P c h = h\<lparr>sbi_log := sbi_log h @ [\<lparr>sbi_type = SBI_CONSOLE_PUTCHAR,
     arg0 = ucast (of_int c :: u8), arg1 = 0, arg2 = 0\<rparr>]\<rparr>"
  by (simp add: cons_putc_def sbi_console_putchar_def sbi_call_def Let_def)

lemma ucast_u8_u64: "ucast (ucast (c :: u8) :: u64) = c"
  by (rule bit_eqI) (auto simp: bit_simps)

lemma cons_putc_output: "console_output (cons_putc P c h) = console_output h @ [of_int c]"
  by (simp add: cons_putc_log console_output_def ucast_u8_u64)

lemma cons_putc_frame [simp]:
  "csrs (cons_putc P c h) = csrs h" "time_reads (cons_putc P c h) = time_reads h"
  by (simp_all add: cons_putc_log)

section \<open>Critical sections\<close>

text \<open>
  The contract of saving and restoring the interrupt flag, and what every client of it gets: a body
  that does not switch interrupts on runs with interrupts off, and the flag is afterwards what it
  was before, however the sections are nested.
\<close>

locale interrupt_guard =
  fixes enabled :: "'s \<Rightarrow> bool"
    and save :: "'s \<Rightarrow> bool \<times> 's"
    and restore :: "bool \<Rightarrow> 's \<Rightarrow> 's"
  assumes save_flag: "fst (save s) = enabled s"
    and save_off: "\<not> enabled (snd (save s))"
    and restore_on: "enabled (restore True s)"
    and restore_off: "restore False s = s"
begin

lemma section_flag:
  assumes "save s = (flag, s1)" and "\<not> enabled s1 \<Longrightarrow> \<not> enabled s2"
  shows "\<not> enabled s1" and "enabled (restore flag s2) = enabled s"
  using assms save_flag [of s] save_off [of s] restore_on [of s2] restore_off [of s2]
  by (cases flag; simp)+

lemma nested_flag:
  assumes "save s = (flag, s1)" and "save s1 = (flag', s2)" and "enabled s3 = enabled s2"
  shows "\<not> enabled (restore flag' s3)" and "enabled (restore flag (restore flag' s3)) = enabled s"
proof -
  have "\<not> enabled s1" using section_flag(1) [OF assms(1)] by blast
  moreover have "\<not> enabled s2" using section_flag(1) [OF assms(2)] by blast
  ultimately show off: "\<not> enabled (restore flag' s3)"
    using section_flag(2) [OF assms(2), of s3] assms(3) by simp
  show "enabled (restore flag (restore flag' s3)) = enabled s"
    using section_flag(2) [OF assms(1), of "restore flag' s3"] off by simp
qed

end

definition intr_on :: "'a hw_scheme \<Rightarrow> bool" where
  "intr_on h \<longleftrightarrow> bit (csrs h Sstatus) 1"

lemma and_SIE: "w AND SSTATUS_SIE \<noteq> 0 \<longleftrightarrow> bit w 1"
  using and_exp_eq_0_iff_not_bit [of w 1] by (simp add: SSTATUS_SIE_def)

lemma intr_on_simps [simp]: "intr_on (intr_enable h)" "\<not> intr_on (intr_disable h)"
  by (simp_all add: intr_on_def intr_enable_def intr_disable_def set_csr_def clear_csr_def
      SSTATUS_SIE_def bit_or_iff bit_and_iff bit_not_iff bit_numeral_rec)

interpretation sync: interrupt_guard intr_on intr_save intr_restore
  by unfold_locales (simp_all add: intr_save_def intr_restore_def read_csr_def and_SIE, simp_all add: intr_on_def)

lemma sie_roundtrip:
  assumes "bit w 1"
  shows "(w AND NOT SSTATUS_SIE) OR SSTATUS_SIE = w"
proof (rule bit_eqI)
  fix j
  have "bit SSTATUS_SIE j \<longleftrightarrow> j = 1" using bit_exp_iff [of 1 j, where 'a = u64] by (auto simp: SSTATUS_SIE_def)
  with assms show "bit ((w AND NOT SSTATUS_SIE) OR SSTATUS_SIE) j = bit w j"
    by (auto simp: bit_and_iff bit_or_iff bit_not_iff dest: bit_imp_le_length)
qed

text \<open>A critical section whose body leaves the registers alone leaves them as they were.\<close>

lemma with_intr_saved_result:
  assumes "with_intr_saved body h = Inr (r, h')"
    and "\<And>s r s'. body s = Inr (r, s') \<Longrightarrow> csrs s' = csrs s"
  obtains h1 h2 where "\<not> intr_on h1" and "snd (intr_save h) = h1" and "body h1 = Inr (r, h2)"
    and "h' = h2\<lparr>csrs := csrs h\<rparr>"
proof -
  obtain flag h1 where sv: "intr_save h = (flag, h1)" by force
  with assms(1) obtain h2 where b: "body h1 = Inr (r, h2)" and h': "h' = intr_restore flag h2"
    by (auto simp: with_intr_saved_def res_bind_Inr_conv)
  have c: "csrs h2 = csrs h1" using assms(2) b by blast
  have "h' = h2\<lparr>csrs := csrs h\<rparr>"
  proof (cases flag)
    case True
    then have "intr_on h" and "h1 = intr_disable h"
      using sv by (auto simp: intr_save_def read_csr_def and_SIE intr_on_def split: if_splits)
    then have "(csrs h2)(Sstatus := csrs h2 Sstatus OR SSTATUS_SIE) = csrs h"
      unfolding c by (auto simp: intr_disable_def clear_csr_def intr_on_def sie_roundtrip fun_eq_iff)
    then show ?thesis using True h' by (simp add: intr_restore_def intr_enable_def set_csr_def)
  next
    case False
    then show ?thesis using sv h' c by (auto simp: intr_restore_def intr_save_def split: if_splits)
  qed
  moreover have "\<not> intr_on h1" using sync.save_off [of h] sv by simp
  ultimately show ?thesis using that sv b by auto
qed

end
