(* ===== verification/Printfmt.thy ===== *)
theory Printfmt
  imports Kstring Machine
begin

text \<open>
  Formatted output, \<open>libs/printfmt.c\<close>, with the error codes of \<open>libs/error.h\<close>. A C string is the list
  of its characters up to the NUL. A variadic argument is an integer slot of 64 bits or a string
  pointer; reading an argument that is not there, or of the other kind, is a fault. The output
  routine \<open>putch\<close> with its \<open>putdat\<close> is a function on the state the caller prints to.
\<close>

section \<open>Arguments and error codes\<close>

datatype varg = Num u64 | Str "string option"

type_synonym va_list = "varg list"

definition E_UNSPECIFIED :: int where "E_UNSPECIFIED = 1"
definition E_BAD_PROC :: int where "E_BAD_PROC = 2"
definition E_INVAL :: int where "E_INVAL = 3"
definition E_NO_MEM :: int where "E_NO_MEM = 4"
definition E_NO_FREE_PROC :: int where "E_NO_FREE_PROC = 5"
definition E_FAULT :: int where "E_FAULT = 6"
definition MAXERROR :: int where "MAXERROR = 6"

definition error_string :: "int \<Rightarrow> string option res" where
  "error_string err =
     (if err < 0 \<or> err > MAXERROR then Inl OutOfBounds
      else if err = E_UNSPECIFIED then Inr (Some ''unspecified error'')
      else if err = E_BAD_PROC then Inr (Some ''bad process'')
      else if err = E_INVAL then Inr (Some ''invalid parameter'')
      else if err = E_NO_MEM then Inr (Some ''out of memory'')
      else if err = E_NO_FREE_PROC then Inr (Some ''out of processes'')
      else if err = E_FAULT then Inr (Some ''segmentation fault'')
      else Inr None)"

definition cstring :: "string \<Rightarrow> string" where
  "cstring s = takeWhile (\<lambda>c. c \<noteq> CHR 0x00) s"

fun va_num :: "va_list \<Rightarrow> (u64 \<times> va_list) res" where
  "va_num (Num w # ap) = Inr (w, ap)"
| "va_num ap = Inl OutOfBounds"

fun va_str :: "va_list \<Rightarrow> (string option \<times> va_list) res" where
  "va_str (Str s # ap) = Inr (s, ap)"
| "va_str ap = Inl OutOfBounds"

text \<open>\<open>va_arg(ap, int)\<close>: the low 32 bits of the slot.\<close>

definition va_int :: "va_list \<Rightarrow> (u32 \<times> va_list) res" where
  "va_int ap = res_bind (va_num ap) (\<lambda>(w, ap'). Inr (ucast w, ap'))"

definition getuint :: "nat \<Rightarrow> va_list \<Rightarrow> (u64 \<times> va_list) res" where
  "getuint lflag ap =
     (if lflag \<ge> 1 then va_num ap else res_bind (va_int ap) (\<lambda>(w, ap'). Inr (ucast w, ap')))"

definition getint :: "nat \<Rightarrow> va_list \<Rightarrow> (u64 \<times> va_list) res" where
  "getint lflag ap =
     (if lflag \<ge> 1 then va_num ap else res_bind (va_int ap) (\<lambda>(w, ap'). Inr (scast w, ap')))"

section \<open>Numbers\<close>

definition digit_char :: "u64 \<Rightarrow> char res" where
  "digit_char m =
     (if m < 16 then Inr (''0123456789abcdef'' ! unat m)
      else if m = 16 then Inr (CHR 0x00) else Inl OutOfBounds)"

text \<open>\<open>while (-- width > 0) putch(padc, putdat);\<close>\<close>

function pad_before :: "(int \<Rightarrow> 's \<Rightarrow> 's) \<Rightarrow> int \<Rightarrow> char \<Rightarrow> 's \<Rightarrow> 's" where
  "pad_before putch width padc s =
     (if width - 1 > 0 then pad_before putch (width - 1) padc (putch (of_char padc) s) else s)"
  by pat_completeness auto
termination by (relation "measure (\<lambda>(putch, width, padc, s). nat width)") auto

lemma ucast_u32_u64: "unat (ucast (b :: u32) :: u64) = unat b"
  by (simp add: unsigned_ucast_eq take_bit_nat_eq_self order_less_le_trans [OF unsigned_less])

text \<open>
  With a base below 2 the recursion on the quotient never ends once it is entered.
\<close>

function printnum ::
  "(int \<Rightarrow> 's \<Rightarrow> 's) \<Rightarrow> u64 \<Rightarrow> u32 \<Rightarrow> int \<Rightarrow> char \<Rightarrow> 's \<Rightarrow> 's res" where
  "printnum putch num base width padc s =
     (let (m, result) = do_div num base
      in res_bind
           (if num \<ge> ucast base
            then if base < 2 then Inl NoReturn else printnum putch result base (width - 1) padc s
            else Inr (pad_before putch width padc s))
           (\<lambda>s'. res_bind (digit_char m) (\<lambda>c. Inr (putch (of_char c) s'))))"
  by pat_completeness auto

termination
proof (relation "measure (\<lambda>(putch, num, base, width, padc, s). unat num)", goal_cases)
  case (2 putch num base width padc s x m result)
  then have "unat result = unat num div unat base" and "2 \<le> unat base" and "unat base \<le> unat num"
    by (auto simp: do_div_def unat_div ucast_u32_u64 word_less_nat_alt word_le_nat_alt)
  then show ?case by (simp add: div_less_dividend)
qed simp

section \<open>Escapes\<close>

record escape =
  padc :: char
  width :: int
  precision :: int
  lflag :: nat
  altflag :: bool

definition escape0 :: escape where
  "escape0 = \<lparr>padc = CHR '' '', width = -1, precision = -1, lflag = 0, altflag = False\<rparr>"

definition is_dec :: "char \<Rightarrow> bool" where
  "is_dec c \<longleftrightarrow> of_char CHR ''0'' \<le> (of_char c :: nat) \<and> (of_char c :: nat) \<le> of_char CHR ''9''"

fun scan_width :: "int \<Rightarrow> string \<Rightarrow> int \<times> string" where
  "scan_width n [] = (n, [])"
| "scan_width n (c # cs) =
     (if is_dec c then scan_width (n * 10 + of_char c - of_char CHR ''0'') cs else (n, c # cs))"

definition process_precision :: "escape \<Rightarrow> escape" where
  "process_precision e = (if width e < 0 then e\<lparr>width := precision e, precision := -1\<rparr> else e)"

lemma scan_width_shorter: "scan_width n cs = (k, rest) \<Longrightarrow> length rest \<le> length cs"
  by (induction n cs rule: scan_width.induct) (auto split: if_splits)

text \<open>
  One case of the \<open>switch\<close> that ends in \<open>goto reswitch\<close>: the new flags, the rest of the format string
  and of the arguments; \<open>None\<close> for a character of the other cases.
\<close>

definition flag_case ::
  "char \<Rightarrow> string \<Rightarrow> va_list \<Rightarrow> escape \<Rightarrow> (escape \<times> string \<times> va_list) res option" where
  "flag_case ch fmt ap e =
     (if ch = CHR ''-'' then Some (Inr (e\<lparr>padc := CHR ''-''\<rparr>, fmt, ap))
      else if ch = CHR ''0'' then Some (Inr (e\<lparr>padc := CHR ''0''\<rparr>, fmt, ap))
      else if is_dec ch then
        (let (n, rest) = scan_width (of_char ch - of_char CHR ''0'') fmt
         in Some (Inr (process_precision (e\<lparr>precision := n\<rparr>), rest, ap)))
      else if ch = CHR ''*'' then
        Some (res_bind (va_int ap) (\<lambda>(w, ap'). Inr (process_precision (e\<lparr>precision := sint w\<rparr>), fmt, ap')))
      else if ch = CHR ''.'' then Some (Inr (if width e < 0 then e\<lparr>width := 0\<rparr> else e, fmt, ap))
      else if ch = CHR ''#'' then Some (Inr (e\<lparr>altflag := True\<rparr>, fmt, ap))
      else if ch = CHR ''l'' then Some (Inr (e\<lparr>lflag := lflag e + 1\<rparr>, fmt, ap))
      else None)"

lemma flag_case_shorter:
  assumes "flag_case ch fmt ap e = Some (Inr (e', rest, ap'))"
  shows "length rest \<le> length fmt"
proof (cases "is_dec ch \<and> ch \<noteq> CHR ''0''")
  case True
  obtain n r where r: "scan_width (of_char ch - of_char CHR ''0'') fmt = (n, r)" by force
  then have "length r \<le> length fmt" by (rule scan_width_shorter)
  with assms True r show ?thesis by (auto simp: flag_case_def is_dec_def split: if_split_asm)
next
  case False
  with assms show ?thesis
    by (auto simp: flag_case_def res_bind_Inr_conv split: if_split_asm)
qed

text \<open>
  The flags of an escape sequence, up to its conversion character, which is \<open>None\<close> at the end of the
  format string; the rest of the format string and of the arguments.
\<close>

function parse_escape ::
  "string \<Rightarrow> va_list \<Rightarrow> escape \<Rightarrow> (escape \<times> char option \<times> string \<times> va_list) res" where
  "parse_escape [] ap e = Inr (e, None, [], ap)"
| "parse_escape (ch # fmt) ap e =
     (case flag_case ch fmt ap e of
        None \<Rightarrow> Inr (e, Some ch, fmt, ap)
      | Some r \<Rightarrow> res_bind r (\<lambda>(e', fmt', ap'). parse_escape fmt' ap' e'))"
  by pat_completeness auto
termination
  by (relation "measure (\<lambda>(fmt, ap, e). length fmt)") (auto simp: less_Suc_eq_le dest: flag_case_shorter)

section \<open>Conversions\<close>

text \<open>The loops of \<open>%s\<close>; \<open>strnlen\<close> with the precision \<open>-1\<close> reads the whole string.\<close>

function pad_loop :: "(int \<Rightarrow> 's \<Rightarrow> 's) \<Rightarrow> char \<Rightarrow> int \<Rightarrow> 's \<Rightarrow> 's" where
  "pad_loop putch c w s = (if w > 0 then pad_loop putch c (w - 1) (putch (of_char c) s) else s)"
  by pat_completeness auto
termination by (relation "measure (\<lambda>(putch, c, w, s). nat w)") auto

definition strnlen_of :: "string \<Rightarrow> int \<Rightarrow> int" where
  "strnlen_of p prec = (if prec < 0 then int (length p) else min (int (length p)) prec)"

fun str_loop :: "(int \<Rightarrow> 's \<Rightarrow> 's) \<Rightarrow> bool \<Rightarrow> string \<Rightarrow> int \<Rightarrow> int \<Rightarrow> 's \<Rightarrow> int \<times> 's" where
  "str_loop putch alt [] prec w s = (w, s)"
| "str_loop putch alt (ch # p) prec w s =
     (if prec < 0 \<or> prec - 1 \<ge> 0
      then str_loop putch alt p (if prec < 0 then prec else prec - 1) (w - 1)
             (putch (if alt \<and> ((of_char ch :: int) < of_char CHR '' '' \<or> (of_char ch :: int) > of_char CHR ''~'')
                     then of_char CHR ''?'' else of_char ch) s)
      else (w, s))"

definition print_string :: "(int \<Rightarrow> 's \<Rightarrow> 's) \<Rightarrow> escape \<Rightarrow> string \<Rightarrow> 's \<Rightarrow> 's" where
  "print_string putch e p s =
     (let (w, s1) = (if width e > 0 \<and> padc e \<noteq> CHR ''-''
                     then (let w = width e - strnlen_of p (precision e)
                           in (if w > 0 then 0 else w, pad_loop putch (padc e) w s))
                     else (width e, s));
          (w, s2) = str_loop putch (altflag e) p (precision e) w s1
      in pad_loop putch CHR '' '' w s2)"

definition print_number ::
  "(int \<Rightarrow> 's \<Rightarrow> 's) \<Rightarrow> escape \<Rightarrow> u32 \<Rightarrow> 's \<Rightarrow> u64 \<times> va_list \<Rightarrow> (va_list \<times> 's) res" where
  "print_number putch e base s = (\<lambda>(num, ap).
     res_bind (printnum putch num base (width e) (padc e) s) (\<lambda>s'. Inr (ap, s')))"

text \<open>
  One conversion: the remaining arguments and the new state, or \<open>None\<close> for an unrecognised character.
  The argument \<open>print_err\<close> stands for the nested call of \<open>printfmt\<close> in the case of \<open>%e\<close>.
\<close>

definition conversion ::
  "(int \<Rightarrow> 's \<Rightarrow> 's res) \<Rightarrow> (int \<Rightarrow> 's \<Rightarrow> 's) \<Rightarrow> escape \<Rightarrow> char \<Rightarrow> va_list \<Rightarrow> 's \<Rightarrow>
   (va_list \<times> 's) res option" where
  "conversion print_err putch e ch ap s =
     (if ch = CHR ''c'' then
        Some (res_bind (va_int ap) (\<lambda>(w, ap'). Inr (ap', putch (sint w) s)))
      else if ch = CHR ''e'' then
        Some (res_bind (va_int ap) (\<lambda>(w, ap').
              res_bind (print_err (sint (if sint w < 0 then - w else w)) s) (\<lambda>s'. Inr (ap', s'))))
      else if ch = CHR ''s'' then
        Some (res_bind (va_str ap) (\<lambda>(p, ap').
          Inr (ap', print_string putch e (case p of None \<Rightarrow> ''(null)'' | Some p' \<Rightarrow> cstring p') s)))
      else if ch = CHR ''d'' then
        Some (res_bind (getint (lflag e) ap) (\<lambda>(num, ap').
          if sint num < 0 then print_number putch e 10 (putch (of_char CHR ''-'') s) (- num, ap')
          else print_number putch e 10 s (num, ap')))
      else if ch = CHR ''u'' then Some (res_bind (getuint (lflag e) ap) (print_number putch e 10 s))
      else if ch = CHR ''o'' then Some (res_bind (getuint (lflag e) ap) (print_number putch e 8 s))
      else if ch = CHR ''p'' then
        Some (res_bind (va_num ap)
          (print_number putch e 16 (putch (of_char CHR ''x'') (putch (of_char CHR ''0'') s))))
      else if ch = CHR ''x'' then Some (res_bind (getuint (lflag e) ap) (print_number putch e 16 s))
      else if ch = CHR ''%'' then Some (Inr (ap, putch (of_char CHR ''%'') s))
      else None)"

text \<open>
  The rest of the loop body: where the format string is read on after the conversion, which for an
  unrecognised escape is right after its \<open>%\<close>, at \<open>esc\<close>.
\<close>

definition convert ::
  "(int \<Rightarrow> 's \<Rightarrow> 's res) \<Rightarrow> (int \<Rightarrow> 's \<Rightarrow> 's) \<Rightarrow> escape \<Rightarrow> char option \<Rightarrow> string \<Rightarrow> string \<Rightarrow> va_list \<Rightarrow> 's \<Rightarrow>
   (string \<times> va_list \<times> 's) res" where
  "convert print_err putch e ch esc rest ap s =
     (case Option.bind ch (\<lambda>c. conversion print_err putch e c ap s) of
        None \<Rightarrow> Inr (esc, ap, putch (of_char CHR ''%'') s)
      | Some r \<Rightarrow> res_bind r (\<lambda>(ap', s'). Inr (rest, ap', s')))"

lemma parse_escape_shorter:
  "parse_escape fmt ap e = Inr (e', ch, rest, ap') \<Longrightarrow> length rest \<le> length fmt"
proof (induction fmt ap e arbitrary: e' ch rest ap' rule: parse_escape.induct)
  case (2 c fmt ap e)
  then show ?case
    by (auto simp: res_bind_Inr_conv split: option.split_asm)
       (meson flag_case_shorter le_SucI le_trans)
qed simp

lemma convert_next:
  "convert print_err putch e ch esc rest ap s = Inr (nx, ap', s') \<Longrightarrow> nx = esc \<or> nx = rest"
  by (auto simp: convert_def res_bind_Inr_conv split: option.split_asm prod.split_asm)

section \<open>Format strings\<close>

function vprintfmt_with ::
  "(int \<Rightarrow> 's \<Rightarrow> 's res) \<Rightarrow> (int \<Rightarrow> 's \<Rightarrow> 's) \<Rightarrow> string \<Rightarrow> va_list \<Rightarrow> 's \<Rightarrow> 's res" where
  "vprintfmt_with print_err putch [] ap s = Inr s"
| "vprintfmt_with print_err putch (ch # fmt) ap s =
     (if ch \<noteq> CHR ''%'' then vprintfmt_with print_err putch fmt ap (putch (of_char ch) s)
      else
        res_bind (parse_escape fmt ap escape0) (\<lambda>(e, conv, rest, ap').
        res_bind (convert print_err putch e conv fmt rest ap' s) (\<lambda>(nx, ap'', s').
          vprintfmt_with print_err putch nx ap'' s')))"
  by pat_completeness auto
termination
  by (relation "measure (\<lambda>(print_err, putch, fmt, ap, s). length fmt)")
     (auto simp: less_Suc_eq_le dest!: convert_next parse_escape_shorter)

text \<open>
  The format strings \<open>"error %d"\<close> and \<open>"%s"\<close> of the nested call have no \<open>%e\<close>, so the nested call never
  needs a nested call of its own.
\<close>

definition print_err :: "(int \<Rightarrow> 's \<Rightarrow> 's) \<Rightarrow> int \<Rightarrow> 's \<Rightarrow> 's res" where
  "print_err putch err s =
     (let nested = vprintfmt_with (\<lambda>_ _. Inl NoReturn) putch
      in if err > MAXERROR then nested ''error %d'' [Num (of_int err)] s
         else res_bind (error_string err) (\<lambda>p. case p of
                None \<Rightarrow> nested ''error %d'' [Num (of_int err)] s
              | Some q \<Rightarrow> nested ''%s'' [Str (Some q)] s))"

definition vprintfmt :: "(int \<Rightarrow> 's \<Rightarrow> 's) \<Rightarrow> string \<Rightarrow> va_list \<Rightarrow> 's \<Rightarrow> 's res" where
  "vprintfmt putch fmt ap s = vprintfmt_with (print_err putch) putch (cstring fmt) ap s"

definition printfmt :: "(int \<Rightarrow> 's \<Rightarrow> 's) \<Rightarrow> string \<Rightarrow> va_list \<Rightarrow> 's \<Rightarrow> 's res" where
  "printfmt putch fmt ap s = vprintfmt putch fmt ap s"

section \<open>Printing to a buffer\<close>

record sprintbuf =
  buf :: u64
  ebuf :: u64
  cnt :: int
  bmem :: mem

definition sprintputch :: "int \<Rightarrow> sprintbuf \<Rightarrow> sprintbuf" where
  "sprintputch ch b =
     (let b = b\<lparr>cnt := cnt b + 1\<rparr>
      in if buf b < ebuf b
         then b\<lparr>bmem := (bmem b)(buf b := of_int ch), buf := buf b + 1\<rparr> else b)"

definition vsnprintf :: "u64 \<Rightarrow> size_t \<Rightarrow> string \<Rightarrow> va_list \<Rightarrow> mem \<Rightarrow> (int \<times> mem) res" where
  "vsnprintf str sz fmt ap m =
     (let b = \<lparr>buf = str, ebuf = str + sz - 1, cnt = 0, bmem = m\<rparr>
      in if str = 0 \<or> buf b > ebuf b then Inr (- E_INVAL, m)
         else res_bind (vprintfmt sprintputch fmt ap b) (\<lambda>b'.
                Inr (cnt b', (bmem b')(buf b' := 0))))"

definition snprintf :: "u64 \<Rightarrow> size_t \<Rightarrow> string \<Rightarrow> va_list \<Rightarrow> mem \<Rightarrow> (int \<times> mem) res" where
  "snprintf str sz fmt ap m = vsnprintf str sz fmt ap m"

declare pad_before.simps [simp del] pad_loop.simps [simp del] printnum.simps [simp del]

section \<open>Every sink gets the same characters\<close>

lemma rel_res_bind:
  assumes "rel_sum (=) A m m'" and "\<And>x y. A x y \<Longrightarrow> rel_sum (=) B (f x) (g y)"
  shows "rel_sum (=) B (res_bind m f) (res_bind m' g)"
  using assms by (cases m; cases m') auto

lemma rel_res_refl: "rel_sum (=) (=) m m"
  by (cases m) auto

text \<open>
  Two sinks whose states stay related when they take the same character stay related by every
  routine of this file, whatever is printed; faults are the same.
\<close>

locale sink_simulation =
  fixes putch :: "int \<Rightarrow> 's \<Rightarrow> 's" and putch' :: "int \<Rightarrow> 't \<Rightarrow> 't" and R :: "'s \<Rightarrow> 't \<Rightarrow> bool"
  assumes sim: "R s t \<Longrightarrow> R (putch c s) (putch' c t)"
begin

lemma pad_before_sim: "R s t \<Longrightarrow> R (pad_before putch w c s) (pad_before putch' w c t)"
proof (induction "nat w" arbitrary: w s t)
  case 0
  then show ?case by (simp add: pad_before.simps)
next
  case (Suc k)
  then have "R (putch (of_char c) s) (putch' (of_char c) t)" by (intro sim)
  with Suc show ?case
    by (subst (1 2) pad_before.simps) (auto intro!: Suc.hyps(1))
qed

lemma pad_loop_sim: "R s t \<Longrightarrow> R (pad_loop putch c w s) (pad_loop putch' c w t)"
proof (induction "nat w" arbitrary: w s t)
  case 0
  then show ?case by (simp add: pad_loop.simps)
next
  case (Suc k)
  then have "R (putch (of_char c) s) (putch' (of_char c) t)" by (intro sim)
  with Suc show ?case
    by (subst (1 2) pad_loop.simps) (auto intro!: Suc.hyps(1))
qed

lemma str_loop_sim:
  "R s t \<Longrightarrow> rel_prod (=) R (str_loop putch alt p prec w s) (str_loop putch' alt p prec w t)"
  by (induction p arbitrary: prec w s t) (simp_all add: sim)

lemma print_string_sim: "R s t \<Longrightarrow> R (print_string putch e p s) (print_string putch' e p t)"
proof -
  assume st: "R s t"
  have tail: "R (case str_loop putch alt q prec w s' of (w, s2) \<Rightarrow> pad_loop putch c w s2)
      (case str_loop putch' alt q prec w t' of (w, s2) \<Rightarrow> pad_loop putch' c w s2)"
    if "R s' t'" for alt q prec w s' t' c
    using str_loop_sim [OF that, of alt q prec w]
    by (auto simp: rel_prod_conv split: prod.splits intro: pad_loop_sim)
  show ?thesis
    unfolding print_string_def Let_def
    using st by (auto intro!: tail pad_loop_sim split del: if_split split: if_split)
qed

lemma printnum_sim:
  "R s t \<Longrightarrow> rel_sum (=) R (printnum putch num base w c s) (printnum putch' num base w c t)"
proof (induction "unat num" arbitrary: num w s t rule: less_induct)
  case less
  have "rel_sum (=) R
      (if num \<ge> ucast base then if base < 2 then Inl NoReturn
         else printnum putch (num div ucast base) base (w - 1) c s
       else Inr (pad_before putch w c s))
      (if num \<ge> ucast base then if base < 2 then Inl NoReturn
         else printnum putch' (num div ucast base) base (w - 1) c t
       else Inr (pad_before putch' w c t))"
  proof (cases "num \<ge> ucast base \<and> \<not> base < 2")
    case True
    then have "unat (num div ucast base) < unat num"
      by (auto simp: unat_div ucast_u32_u64 word_less_nat_alt word_le_nat_alt intro!: div_less_dividend)
    with True less show ?thesis by simp
  qed (use less.prems in \<open>auto intro: pad_before_sim\<close>)
  then show ?case
    unfolding printnum.simps [of putch num] printnum.simps [of putch' num] do_div_def Let_def prod.case
    by (rule rel_res_bind) (auto intro!: rel_res_bind [OF rel_res_refl] sim)
qed

lemma print_number_sim:
  "R s t \<Longrightarrow> rel_sum (=) (rel_prod (=) R) (print_number putch e base s x) (print_number putch' e base t x)"
  unfolding print_number_def by (cases x) (auto intro!: rel_res_bind [OF printnum_sim])

lemma conversion_sim:
  assumes st: "R s t" and pe: "\<And>err s t. R s t \<Longrightarrow> rel_sum (=) R (pe err s) (pe' err t)"
  shows "rel_option (rel_sum (=) (rel_prod (=) R))
    (conversion pe putch e ch ap s) (conversion pe' putch' e ch ap t)"
proof -
  have "rel_sum (=) (rel_prod (=) R)
      (res_bind (va_int ap) (\<lambda>(w, ap'). Inr (ap', putch (sint w) s)))
      (res_bind (va_int ap) (\<lambda>(w, ap'). Inr (ap', putch' (sint w) t)))"
    using st by (intro rel_res_bind [OF rel_res_refl]) (auto intro: sim)
  moreover have "rel_sum (=) (rel_prod (=) R)
      (res_bind (va_int ap) (\<lambda>(w, ap').
         res_bind (pe (sint (if sint w < 0 then - w else w)) s) (\<lambda>s'. Inr (ap', s'))))
      (res_bind (va_int ap) (\<lambda>(w, ap').
         res_bind (pe' (sint (if sint w < 0 then - w else w)) t) (\<lambda>s'. Inr (ap', s'))))"
    using st by (intro rel_res_bind [OF rel_res_refl]) (auto intro!: rel_res_bind [OF pe])
  moreover have "rel_sum (=) (rel_prod (=) R)
      (res_bind (va_str ap) (\<lambda>(p, ap'). Inr (ap', print_string putch e (f p) s)))
      (res_bind (va_str ap) (\<lambda>(p, ap'). Inr (ap', print_string putch' e (f p) t)))" for f
    using st by (intro rel_res_bind [OF rel_res_refl]) (auto intro: print_string_sim)
  moreover have "rel_sum (=) (rel_prod (=) R)
      (res_bind (getint (lflag e) ap) (\<lambda>(num, ap').
        if sint num < 0 then print_number putch e 10 (putch (of_char CHR ''-'') s) (- num, ap')
        else print_number putch e 10 s (num, ap')))
      (res_bind (getint (lflag e) ap) (\<lambda>(num, ap').
        if sint num < 0 then print_number putch' e 10 (putch' (of_char CHR ''-'') t) (- num, ap')
        else print_number putch' e 10 t (num, ap')))"
    using st by (intro rel_res_bind [OF rel_res_refl]) (auto intro!: print_number_sim sim)
  moreover have "rel_sum (=) (rel_prod (=) R)
      (res_bind m (print_number putch e b s')) (res_bind m (print_number putch' e b t'))"
    if "R s' t'" for m b s' t'
    using that by (intro rel_res_bind [OF rel_res_refl]) (auto intro!: print_number_sim)
  ultimately show ?thesis
    unfolding conversion_def using st sim by (simp split: if_split)
qed

lemma convert_sim:
  assumes "R s t" and "\<And>err s t. R s t \<Longrightarrow> rel_sum (=) R (pe err s) (pe' err t)"
  shows "rel_sum (=) (rel_prod (=) (rel_prod (=) R))
    (convert pe putch e ch esc rest ap s) (convert pe' putch' e ch esc rest ap t)"
proof (cases ch)
  case None
  with assms(1) show ?thesis by (simp add: convert_def sim)
next
  case (Some c)
  have "rel_option (rel_sum (=) (rel_prod (=) R))
      (conversion pe putch e c ap s) (conversion pe' putch' e c ap t)"
    using assms by (rule conversion_sim)
  then show ?thesis
    unfolding convert_def Some using assms(1)
    by (cases rule: option.rel_cases) (auto intro!: rel_res_bind sim)
qed

lemma vprintfmt_with_sim:
  assumes "R s t" and "\<And>err s t. R s t \<Longrightarrow> rel_sum (=) R (pe err s) (pe' err t)"
  shows "rel_sum (=) R (vprintfmt_with pe putch fmt ap s) (vprintfmt_with pe' putch' fmt ap t)"
  using assms(1)
proof (induction "length fmt" arbitrary: fmt ap s t rule: less_induct)
  case less
  show ?case
  proof (cases fmt)
    case Nil
    with less.prems show ?thesis by simp
  next
    case (Cons ch fmt')
    show ?thesis
    proof (cases "ch = CHR ''%''")
      case False
      with less Cons show ?thesis by (auto intro!: less.hyps sim)
    next
      case True
      have "rel_sum (=) R
          (res_bind (convert pe putch e conv fmt' rest ap' s) (\<lambda>(nx, ap'', s'). vprintfmt_with pe putch nx ap'' s'))
          (res_bind (convert pe' putch' e conv fmt' rest ap' t) (\<lambda>(nx, ap'', s'). vprintfmt_with pe' putch' nx ap'' s'))"
        if "parse_escape fmt' ap escape0 = Inr (e, conv, rest, ap')" for e conv rest ap'
      proof -
        have len: "length rest \<le> length fmt'" using that by (rule parse_escape_shorter)
        have "rel_sum (=) (rel_prod (=) (rel_prod (=) R))
            (convert pe putch e conv fmt' rest ap' s) (convert pe' putch' e conv fmt' rest ap' t)"
          using less.prems assms(2) by (rule convert_sim)
        then show ?thesis
          using len less.hyps Cons convert_next [of pe putch e conv fmt' rest ap' s]
          by (cases "convert pe putch e conv fmt' rest ap' s"; cases "convert pe' putch' e conv fmt' rest ap' t")
             (fastforce simp: less_Suc_eq_le)+
      qed
      then show ?thesis
        using Cons True by (cases "parse_escape fmt' ap escape0") auto
    qed
  qed
qed

lemma print_err_sim: "R s t \<Longrightarrow> rel_sum (=) R (print_err putch err s) (print_err putch' err t)"
  unfolding print_err_def Let_def
  by (auto intro!: vprintfmt_with_sim rel_res_bind [OF rel_res_refl] split: option.split
      simp del: vprintfmt_with.simps)

lemma vprintfmt_sim: "R s t \<Longrightarrow> rel_sum (=) R (vprintfmt putch fmt ap s) (vprintfmt putch' fmt ap t)"
  unfolding vprintfmt_def by (intro vprintfmt_with_sim print_err_sim)

end

text \<open>The text that a format string and its arguments stand for.\<close>

definition collect :: "int \<Rightarrow> int list \<Rightarrow> int list" where
  "collect c out = out @ [c]"

definition format_text :: "string \<Rightarrow> va_list \<Rightarrow> int list res" where
  "format_text fmt ap = vprintfmt collect fmt ap []"

interpretation sink: sink_simulation putch collect "\<lambda>s out. s = fold putch out s0" for putch s0
  by unfold_locales (simp add: collect_def)

lemma vprintfmt_text:
  "vprintfmt putch fmt ap s =
     (case format_text fmt ap of Inl e \<Rightarrow> Inl e | Inr out \<Rightarrow> Inr (fold putch out s))"
  using sink.vprintfmt_sim [of s putch "[]" s fmt ap]
  by (auto simp: format_text_def rel_sum.simps split: sum.splits)

lemma printnum_text:
  "printnum putch num base w c s =
     (case printnum collect num base w c [] of Inl e \<Rightarrow> Inl e | Inr out \<Rightarrow> Inr (fold putch out s))"
  using sink.printnum_sim [of s putch "[]" s num base w c]
  by (auto simp: rel_sum.simps split: sum.splits)

section \<open>Digits\<close>

text \<open>The digits of a number, most significant first.\<close>

function digits_of :: "nat \<Rightarrow> nat \<Rightarrow> nat list" where
  "digits_of b n = (if b < 2 \<or> n < b then [n] else digits_of b (n div b) @ [n mod b])"
  by pat_completeness auto
termination by (relation "measure snd") (auto intro!: div_less_dividend)

declare digits_of.simps [simp del]

definition digit_code :: "nat \<Rightarrow> int" where
  "digit_code d = of_char (''0123456789abcdef'' ! d)"

lemma digits_of_props:
  assumes "2 \<le> b"
  shows "\<forall>d \<in> set (digits_of b n). d < b" and "digits_of b n \<noteq> []"
    and "0 < n \<Longrightarrow> hd (digits_of b n) \<noteq> 0" and "horner (int b) (map int (digits_of b n)) = int n"
proof -
  have "(\<forall>d \<in> set (digits_of b n). d < b) \<and> digits_of b n \<noteq> [] \<and>
      (0 < n \<longrightarrow> hd (digits_of b n) \<noteq> 0) \<and> horner (int b) (map int (digits_of b n)) = int n"
  proof (induction n rule: less_induct)
    case (less n)
    show ?case
    proof (cases "n < b")
      case True
      then show ?thesis by (simp add: digits_of.simps horner_def)
    next
      case False
      then have "n div b < n" and "0 < n div b" using assms by (auto simp: div_greater_zero_iff)
      with less [of "n div b"] have IH: "\<forall>d \<in> set (digits_of b (n div b)). d < b"
        "digits_of b (n div b) \<noteq> []" "hd (digits_of b (n div b)) \<noteq> 0"
        "horner (int b) (map int (digits_of b (n div b))) = int (n div b)" by auto
      have "digits_of b n = digits_of b (n div b) @ [n mod b]"
        using False assms by (simp add: digits_of.simps [of b n])
      moreover have "int (n div b) * int b + int (n mod b) = int n"
        by (metis div_mult_mod_eq of_nat_add of_nat_mult)
      ultimately show ?thesis using IH assms by (simp add: horner_def)
    qed
  qed
  then show "\<forall>d \<in> set (digits_of b n). d < b" and "digits_of b n \<noteq> []"
    and "0 < n \<Longrightarrow> hd (digits_of b n) \<noteq> 0" and "horner (int b) (map int (digits_of b n)) = int n"
    by auto
qed

lemma pad_before_collect:
  "pad_before collect w c out = out @ replicate (nat (w - 1)) (of_char c)"
proof (induction "nat w" arbitrary: w out)
  case 0
  then show ?case by (simp add: pad_before.simps)
next
  case (Suc k)
  show ?case
  proof (cases "w - 1 > 0")
    case True
    then have "nat (w - 1) = Suc (nat (w - 1 - 1))" by simp
    with True Suc show ?thesis
      by (subst pad_before.simps) (simp add: collect_def)
  next
    case False
    then show ?thesis by (simp add: pad_before.simps)
  qed
qed

lemma printnum_collect:
  assumes b: "2 \<le> unat base" "unat base \<le> 16"
  shows "printnum collect num base w c out =
    Inr (out @ replicate (nat (w - int (length (digits_of (unat base) (unat num))))) (of_char c) @
         map digit_code (digits_of (unat base) (unat num)))"
proof (induction "unat num" arbitrary: num w rule: less_induct)
  case less
  let ?b = "unat base"
  have md: "unat (num mod ucast base) = unat num mod ?b" "unat (num div ucast base) = unat num div ?b"
    by (simp_all add: unat_mod unat_div ucast_u32_u64)
  have "unat num mod ?b < ?b" using b(1) by simp
  then have "unat num mod ?b < 16" using b(2) by linarith
  then have dc: "digit_char (num mod ucast base) = Inr (''0123456789abcdef'' ! (unat num mod ?b))"
    by (simp add: digit_char_def word_less_nat_alt md del: nth.simps)
  show ?case
  proof (cases "unat num < ?b")
    case True
    then have "\<not> ucast base \<le> num" by (simp add: word_le_nat_alt ucast_u32_u64)
    with True dc show ?thesis
      by (simp add: printnum.simps do_div_def pad_before_collect digits_of.simps collect_def digit_code_def)
  next
    case False
    then have ge: "ucast base \<le> num" and "\<not> base < 2"
      using b by (auto simp: word_le_nat_alt word_less_nat_alt ucast_u32_u64)
    have "unat (num div ucast base) < unat num" using False b md by (auto intro!: div_less_dividend)
    note IH = less [OF this, of "w - 1"]
    have ds: "digits_of ?b (unat num) = digits_of ?b (unat num div ?b) @ [unat num mod ?b]"
      using False b by (simp add: digits_of.simps [of ?b "unat num"])
    show ?thesis
      unfolding printnum.simps [of collect num] do_div_def Let_def prod.case
      using ge \<open>\<not> base < 2\<close> dc
      by (simp add: IH md ds collect_def digit_code_def)
  qed
qed

section \<open>Printing to a buffer\<close>

lemma sprintputch_fold:
  assumes "buf b \<le> ebuf b"
  shows "fold sprintputch out b =
    (let k = min (length out) (unat (ebuf b - buf b))
     in b\<lparr>buf := buf b + of_nat k, cnt := cnt b + int (length out),
          bmem := write_bytes (bmem b) (buf b) (take k (map of_int out))\<rparr>)"
  using assms
proof (induction out arbitrary: b)
  case Nil
  then show ?case by simp
next
  case (Cons c out)
  show ?case
  proof (cases "buf b < ebuf b")
    case True
    then have "0 < ebuf b - buf b" by (simp add: word_gt_0)
    then have len: "unat (ebuf b - buf b) = Suc (unat (ebuf b - (buf b + 1)))"
      using True by (intro unat_sub_step) simp
    have le: "buf b + 1 \<le> ebuf b"
      using True unat_u64_Suc [OF True] by (simp add: word_le_nat_alt word_less_nat_alt)
    have lt: "min (length out) (unat (ebuf b - (buf b + 1))) < 2 ^ 64"
      using unat_u64_less [of "ebuf b - (buf b + 1)"] by simp
    have "sprintputch c b =
        b\<lparr>cnt := cnt b + 1, bmem := (bmem b)(buf b := of_int c), buf := buf b + 1\<rparr>"
      using True by (simp add: sprintputch_def)
    then show ?thesis
      using Cons.IH [of "sprintputch c b"] le len lt
      by (simp add: Let_def write_bytes_Cons add.assoc del: fun_upd_apply)
  next
    case False
    with Cons.prems have eq: "buf b = ebuf b" by simp
    then show ?thesis
      using Cons.IH [of "sprintputch c b"] by (simp add: sprintputch_def)
  qed
qed

lemma vsnprintf_text:
  assumes "str \<noteq> 0" and "0 < sz" and fits: "unat str + unat sz \<le> 2 ^ 64"
    and ft: "format_text fmt ap = Inr out"
  shows "vsnprintf str sz fmt ap m =
    Inr (int (length out), write_bytes m str (take (unat sz - 1) (map of_int out) @ [0]))"
proof -
  let ?b = "\<lparr>buf = str, ebuf = str + sz - 1, cnt = 0, bmem = m\<rparr>"
  have sz1: "unat (sz - 1) = unat sz - 1" using assms(2) by (simp add: unat_minus_one word_gt_0)
  have "unat (str + (sz - 1)) = unat str + unat (sz - 1)"
    using fits sz1 assms(2) unat_gt_0 [of sz] by (intro unat_u64_add) (auto simp: word_gt_0)
  then have le: "str \<le> str + sz - 1" "\<not> str + sz - 1 < str"
    by (simp_all add: word_le_nat_alt word_less_nat_alt add_diff_eq)
  define k where "k = min (length out) (unat sz - 1)"
  have k: "unat (str + sz - 1 - str) = unat sz - 1" using sz1 by simp
  have "fold sprintputch out ?b = ?b\<lparr>buf := str + of_nat k, cnt := int (length out),
      bmem := write_bytes m str (take k (map of_int out))\<rparr>"
    using le(1) k by (simp add: sprintputch_fold k_def Let_def)
  moreover have "(write_bytes m str (take k (map of_int out)))(str + of_nat k := 0) =
      write_bytes m str (take k (map of_int out) @ [0])"
  proof -
    have len: "length (take k (map of_int out :: u8 list)) = k" by (simp add: k_def)
    have "k < 2 ^ 64" using unat_u64_less [of sz] by (simp add: k_def)
    then have "unat (of_nat k :: u64) = k" by (rule unat_of_nat_u64)
    then have "(write_bytes m str (take k (map of_int out)))(str + of_nat k := 0) =
        write_bytes (m(str + of_nat k := 0)) str (take k (map of_int out))"
      unfolding write_bytes_def len by (auto simp: fun_eq_iff)
    also have "\<dots> = write_bytes m str (take k (map of_int out) @ [0])"
      using write_bytes_snoc [of "take k (map of_int out)" m str 0] \<open>k < 2 ^ 64\<close> unfolding len by simp
    finally show ?thesis .
  qed
  moreover have "take k (map of_int out :: u8 list) = take (unat sz - 1) (map of_int out)"
    by (simp add: k_def min_def)
  ultimately show ?thesis
    using assms(1) le ft by (simp add: vsnprintf_def vprintfmt_text del: fun_upd_apply)
qed

text \<open>The text of \<open>%ld\<close>.\<close>

lemma unat_abs_sint: "unat (if sint w < 0 then - w else w :: u64) = nat \<bar>sint w\<bar>"
proof -
  have rng: "- (2 ^ 63) \<le> sint w" "sint w < 2 ^ 63" using sint_range_size [of w] by (simp_all add: word_size)
  have pos: "unat (of_int v :: u64) = nat v" if "0 \<le> v" "v < 2 ^ 64" for v
    using that by (simp add: unsigned_of_int take_bit_int_eq_self nat_take_bit_eq)
  have "w = of_int (sint w)" by simp
  moreover have "- w = of_int (- sint w)" by simp
  ultimately have "(if sint w < 0 then - w else w) = of_int \<bar>sint w\<bar>" by (metis abs_of_neg abs_of_nonneg not_less)
  then show ?thesis using pos [of "\<bar>sint w\<bar>"] rng by simp
qed

lemma format_ld:
  "format_text ''%ld'' [Num w] =
     Inr ((if sint w < 0 then [of_char CHR ''-''] else []) @
          map digit_code (digits_of 10 (nat \<bar>sint w\<bar>)))"
proof -
  have fl: "flag_case CHR ''l'' ''d'' [Num w] escape0 = Some (Inr (escape0\<lparr>lflag := Suc 0\<rparr>, ''d'', [Num w]))"
    by (simp add: flag_case_def is_dec_def escape0_def)
  have fd: "flag_case CHR ''d'' [] [Num w] e = None" for e
    by (simp add: flag_case_def is_dec_def)
  have num: "print_number collect (escape0\<lparr>lflag := Suc 0\<rparr>) 10 s (v, []) =
      Inr ([], s @ map digit_code (digits_of 10 (unat v)))" for s v
    by (simp add: print_number_def printnum_collect escape0_def)
  have conv: "conversion pe collect (escape0\<lparr>lflag := Suc 0\<rparr>) CHR ''d'' [Num w] [] =
      Some (Inr ([], (if sint w < 0 then [of_char CHR ''-''] else []) @
        map digit_code (digits_of 10 (nat \<bar>sint w\<bar>))))" for pe
    using unat_abs_sint [of w] by (auto simp: conversion_def getint_def num collect_def)
  show ?thesis
    by (simp add: format_text_def vprintfmt_def cstring_def fl fd convert_def conv)
qed

lemma digits_of_length: "n < b ^ k \<Longrightarrow> 2 \<le> b \<Longrightarrow> 0 < k \<Longrightarrow> length (digits_of b n) \<le> k"
proof (induction k arbitrary: n)
  case (Suc k)
  show ?case
  proof (cases "n < b")
    case False
    then have k: "0 < k" using Suc.prems by (cases k) auto
    have "n div b < b ^ k" using Suc.prems(1) by (simp add: less_mult_imp_div_less mult.commute)
    then have "length (digits_of b (n div b)) \<le> k" using Suc.IH Suc.prems(2) k by blast
    with False Suc.prems(2) show ?thesis by (simp add: digits_of.simps [of b n])
  qed (simp add: digits_of.simps)
qed simp

lemma digit_value_code:
  assumes "d < 10"
  shows "digit_value (of_int (digit_code d)) = Some (int d)"
proof -
  have "list_all (\<lambda>d. digit_value (of_int (digit_code d)) = Some (int d)) [0..<10]" by code_simp
  with assms show ?thesis by (simp add: list_all_iff)
qed

lemma digits_parse:
  assumes "\<forall>d \<in> set ds. d < 10"
  shows "is_digits 10 (map (\<lambda>d. of_int (digit_code d)) ds) (map int ds)"
  using assms by (simp add: is_digits_def digit_value_code)

section \<open>Formats that cannot fault\<close>

text \<open>
  Whether a format string without \<open>%e\<close> can be printed depends on the kinds of the arguments only: if it
  can with every number 0 and every string null, it can with any others.
\<close>

fun blank :: "varg \<Rightarrow> varg" where
  "blank (Num w) = Num 0"
| "blank (Str p) = Str None"

definition format_ok :: "string \<Rightarrow> va_list \<Rightarrow> bool" where
  "format_ok fmt ap \<longleftrightarrow>
     (case vprintfmt_with (\<lambda>_ _. Inl NoReturn) collect (cstring fmt) ap [] of Inl e \<Rightarrow> False | Inr out \<Rightarrow> True)"

lemma va_num_blank:
  "va_num (map blank ap) = Inr (w, ap') \<Longrightarrow> \<exists>v ap2. va_num ap = Inr (v, ap2) \<and> ap' = map blank ap2"
  by (cases ap; cases "hd ap") auto

lemma va_str_blank:
  "va_str (map blank ap) = Inr (p, ap') \<Longrightarrow> \<exists>q ap2. va_str ap = Inr (q, ap2) \<and> ap' = map blank ap2"
  by (cases ap; cases "hd ap") auto

lemma va_int_blank:
  "va_int (map blank ap) = Inr (w, ap') \<Longrightarrow> \<exists>v ap2. va_int ap = Inr (v, ap2) \<and> ap' = map blank ap2"
  by (force simp: va_int_def res_bind_Inr_conv dest: va_num_blank)

lemma getuint_blank:
  "getuint k (map blank ap) = Inr (w, ap') \<Longrightarrow> \<exists>v ap2. getuint k' ap = Inr (v, ap2) \<and> ap' = map blank ap2"
  by (cases ap; cases "hd ap") (auto simp: getuint_def va_int_def split: if_split_asm)

lemma getint_blank:
  "getint k (map blank ap) = Inr (w, ap') \<Longrightarrow> \<exists>v ap2. getint k' ap = Inr (v, ap2) \<and> ap' = map blank ap2"
  by (cases ap; cases "hd ap") (auto simp: getint_def va_int_def split: if_split_asm)

lemma print_number_ok:
  "base \<in> {8, 10, 16} \<Longrightarrow> \<exists>s'. print_number putch e base s (num, ap) = Inr (ap, s')"
  using printnum_collect [of base num "width e" "padc e" "[]"]
  by (auto simp: print_number_def printnum_text [of putch])

lemma flag_case_blank_None:
  "flag_case ch fmt (map blank ap) e = None \<Longrightarrow> flag_case ch fmt ap e2 = None"
  by (auto simp: flag_case_def split: if_split_asm prod.split_asm)

lemma flag_case_blank_Some:
  assumes "flag_case ch fmt (map blank ap) e = Some (Inr (e', rest, ap'))"
  shows "\<exists>e2' ap2. flag_case ch fmt ap e2 = Some (Inr (e2', rest, ap2)) \<and> ap' = map blank ap2"
proof (cases "ch = CHR ''*''")
  case True
  with assms have "res_bind (va_int (map blank ap))
      (\<lambda>(w, ap'). Inr (process_precision (e\<lparr>precision := sint w\<rparr>), fmt, ap')) = Inr (e', rest, ap')"
    by (simp add: flag_case_def is_dec_def)
  then obtain w where "va_int (map blank ap) = Inr (w, ap')" "rest = fmt"
    by (auto simp: res_bind_Inr_conv)
  with va_int_blank [OF this(1)] True show ?thesis by (auto simp: flag_case_def is_dec_def)
next
  case False
  with assms show ?thesis by (auto simp: flag_case_def split: if_split_asm prod.split_asm)
qed

lemma parse_escape_blank:
  "parse_escape fmt (map blank ap) e = Inr (e', ch, rest, ap') \<Longrightarrow>
   \<exists>e2' ap2. parse_escape fmt ap e2 = Inr (e2', ch, rest, ap2) \<and> ap' = map blank ap2"
proof (induction "length fmt" arbitrary: fmt ap e e2 rule: less_induct)
  case less
  show ?case
  proof (cases fmt)
    case Nil
    with less.prems show ?thesis by auto
  next
    case (Cons c fmt')
    show ?thesis
    proof (cases "flag_case c fmt' (map blank ap) e")
      case None
      with less.prems Cons flag_case_blank_None [OF None, of e2] show ?thesis by auto
    next
      case (Some r)
      with less.prems Cons obtain e1 r1 ap1 where r: "r = Inr (e1, r1, ap1)"
        and rec: "parse_escape r1 ap1 e1 = Inr (e', ch, rest, ap')"
        by (auto simp: res_bind_Inr_conv)
      obtain e2' ap2 where f: "flag_case c fmt' ap e2 = Some (Inr (e2', r1, ap2))" and b: "ap1 = map blank ap2"
        using flag_case_blank_Some [OF Some [unfolded r], of e2] by blast
      have "length r1 < length fmt" using flag_case_shorter [OF f] Cons by simp
      from less.hyps [OF this, of ap2 e1 e2'] rec b f Cons show ?thesis by auto
    qed
  qed
qed

lemma conversion_blank_None:
  "conversion (\<lambda>_ _. Inl NoReturn) collect e c (map blank ap) s = None \<Longrightarrow>
   conversion pe putch e2 c ap s2 = None"
  by (auto simp: conversion_def split: if_split_asm)

lemma number_blank:
  assumes h1: "res_bind m (print_number collect e b t) = Inr (ap', s')"
    and h2: "\<And>w ap'. m = Inr (w, ap') \<Longrightarrow> \<exists>v ap2. m2 = Inr (v, ap2) \<and> ap' = map blank ap2"
    and h3: "b \<in> {8, 10, 16}"
  shows "\<exists>ap2 s2'. res_bind m2 (print_number putch e2 b t2) = Inr (ap2, s2') \<and> ap' = map blank ap2"
proof -
  from h1 obtain w ap1 where 1: "m = Inr (w, ap1)"
    and "print_number collect e b t (w, ap1) = Inr (ap', s')" by (auto simp: res_bind_Inr_conv)
  then have "ap' = ap1" using print_number_ok [OF h3, of collect e t w ap1] by auto
  moreover obtain v ap2 where "m2 = Inr (v, ap2)" "ap1 = map blank ap2" using h2 [OF 1] by blast
  moreover obtain s3 where "print_number putch e2 b t2 (v, ap2) = Inr (ap2, s3)"
    using print_number_ok [OF h3, of putch e2 t2 v ap2] by blast
  ultimately show ?thesis by auto
qed

lemma signed_number_blank:
  assumes h1: "res_bind (getint k (map blank ap)) (\<lambda>(num, ap1). if sint num < 0
      then print_number collect e 10 t (- num, ap1) else print_number collect e 10 t' (num, ap1)) = Inr (ap', s')"
  shows "\<exists>ap2 s2'. res_bind (getint k2 ap) (\<lambda>(num, ap1). if sint num < 0
      then print_number putch e2 10 t2 (- num, ap1) else print_number putch e2 10 t2' (num, ap1)) =
      Inr (ap2, s2') \<and> ap' = map blank ap2"
proof -
  have ten: "(10 :: u32) \<in> {8, 10, 16}" by simp
  from h1 obtain w ap1 where 1: "getint k (map blank ap) = Inr (w, ap1)"
    and "(if sint w < 0 then print_number collect e 10 t (- w, ap1)
      else print_number collect e 10 t' (w, ap1)) = Inr (ap', s')" by (auto simp: res_bind_Inr_conv)
  then have "ap' = ap1"
    using print_number_ok [OF ten, of collect e t "- w" ap1] print_number_ok [OF ten, of collect e t' w ap1]
    by (auto split: if_split_asm)
  moreover obtain v ap2 where 2: "getint k2 ap = Inr (v, ap2)" "ap1 = map blank ap2"
    using getint_blank [OF 1] by blast
  moreover obtain s3 where "(if sint v < 0 then print_number putch e2 10 t2 (- v, ap2)
      else print_number putch e2 10 t2' (v, ap2)) = Inr (ap2, s3)"
    using print_number_ok [OF ten, of putch e2 t2 "- v" ap2] print_number_ok [OF ten, of putch e2 t2' v ap2]
    by (cases "sint v < 0") auto
  ultimately show ?thesis by auto
qed

lemma conversion_blank_Some:
  assumes "conversion (\<lambda>_ _. Inl NoReturn) collect e c (map blank ap) s = Some (Inr (ap', s'))"
  shows "\<exists>ap2 s2'. conversion pe putch e2 c ap s2 = Some (Inr (ap2, s2')) \<and> ap' = map blank ap2"
proof -
  consider "c = CHR ''c''" | "c = CHR ''s''" | "c = CHR ''d''" | "c = CHR ''u''" | "c = CHR ''o''"
    | "c = CHR ''p''" | "c = CHR ''x''" | "c = CHR ''%''" | "c = CHR ''e''"
    using assms by (auto simp: conversion_def split: if_split_asm)
  then show ?thesis
  proof cases
    case 1
    with assms have "res_bind (va_int (map blank ap)) (\<lambda>(w, ap'). Inr (ap', collect (sint w) s)) = Inr (ap', s')"
      by (simp add: conversion_def)
    then obtain w where "va_int (map blank ap) = Inr (w, ap')" by (auto simp: res_bind_Inr_conv)
    from va_int_blank [OF this] 1 show ?thesis by (auto simp: conversion_def)
  next
    case 2
    with assms obtain p where "va_str (map blank ap) = Inr (p, ap')"
      by (auto simp: conversion_def res_bind_Inr_conv)
    from va_str_blank [OF this] 2 show ?thesis by (auto simp: conversion_def)
  next
    case 3
    with assms signed_number_blank [of "lflag e" ap e "collect (of_char CHR ''-'') s" s ap' s' "lflag e2" putch e2
        "putch (of_char CHR ''-'') s2" s2]
    show ?thesis by (simp add: conversion_def)
  next
    case 4
    with assms number_blank [of "getuint (lflag e) (map blank ap)" e 10 s ap' s' "getuint (lflag e2) ap" putch e2 s2]
      getuint_blank show ?thesis by (simp add: conversion_def)
  next
    case 5
    with assms number_blank [of "getuint (lflag e) (map blank ap)" e 8 s ap' s' "getuint (lflag e2) ap" putch e2 s2]
      getuint_blank show ?thesis by (simp add: conversion_def)
  next
    case 6
    with assms number_blank [of "va_num (map blank ap)" e 16 "collect (of_char CHR ''x'') (collect (of_char CHR ''0'') s)" ap' s' "va_num ap" putch e2
        "putch (of_char CHR ''x'') (putch (of_char CHR ''0'') s2)"] va_num_blank show ?thesis by (simp add: conversion_def)
  next
    case 7
    with assms number_blank [of "getuint (lflag e) (map blank ap)" e 16 s ap' s' "getuint (lflag e2) ap" putch e2 s2]
      getuint_blank show ?thesis by (simp add: conversion_def)
  next
    case 8
    with assms show ?thesis by (auto simp: conversion_def)
  next
    case 9
    with assms show ?thesis by (auto simp: conversion_def res_bind_Inr_conv)
  qed
qed

lemma vprintfmt_with_blank:
  assumes "vprintfmt_with (\<lambda>_ _. Inl NoReturn) collect fmt (map blank ap) s = Inr s'"
  shows "\<exists>s2'. vprintfmt_with pe putch fmt ap s2 = Inr s2'"
  using assms
proof (induction "length fmt" arbitrary: fmt ap s s2 rule: less_induct)
  case less
  show ?case
  proof (cases fmt)
    case (Cons ch fmt')
    show ?thesis
    proof (cases "ch = CHR ''%''")
      case False
      with less.prems Cons less.hyps [of fmt' ap "collect (of_char ch) s" "putch (of_char ch) s2"]
      show ?thesis by simp
    next
      case True
      with less.prems Cons obtain e conv rest ap1 nx ap2 s1
        where p: "parse_escape fmt' (map blank ap) escape0 = Inr (e, conv, rest, ap1)"
          and c: "convert (\<lambda>_ _. Inl NoReturn) collect e conv fmt' rest ap1 s = Inr (nx, ap2, s1)"
          and v: "vprintfmt_with (\<lambda>_ _. Inl NoReturn) collect nx ap2 s1 = Inr s'"
        by (auto simp: res_bind_Inr_conv)
      obtain e2 ap1' where p2: "parse_escape fmt' ap escape0 = Inr (e2, conv, rest, ap1')" "ap1 = map blank ap1'"
        using parse_escape_blank [OF p] by blast
      have "\<exists>ap2' s1'. convert pe putch e2 conv fmt' rest ap1' s2 = Inr (nx, ap2', s1') \<and> ap2 = map blank ap2'"
      proof (cases "Option.bind conv (\<lambda>c. conversion (\<lambda>_ _. Inl NoReturn) collect e c ap1 s)")
        case None
        then have "Option.bind conv (\<lambda>c. conversion pe putch e2 c ap1' s2) = None"
          using conversion_blank_None p2(2) by (cases conv) auto
        with None c p2(2) show ?thesis by (auto simp: convert_def)
      next
        case (Some r)
        then obtain c0 s0 where "conv = Some c0" and r: "r = Inr (ap2, s0)"
          and "conversion (\<lambda>_ _. Inl NoReturn) collect e c0 (map blank ap1') s = Some (Inr (ap2, s0))" "nx = rest"
          using c p2(2) by (cases conv) (auto simp: convert_def res_bind_Inr_conv)
        with conversion_blank_Some [of e c0 ap1' s ap2 s0 pe putch e2 s2] show ?thesis
          by (auto simp: convert_def)
      qed
      then obtain ap2' s1' where c2: "convert pe putch e2 conv fmt' rest ap1' s2 = Inr (nx, ap2', s1')"
        "ap2 = map blank ap2'" by blast
      have "length nx < length fmt"
        using convert_next [OF c2(1)] parse_escape_shorter [OF p2(1)] Cons by auto
      from less.hyps [OF this, of ap2' s1 s1'] v c2 p2 True Cons show ?thesis by auto
    qed
  qed simp
qed

lemma format_ok_text:
  assumes "format_ok fmt (map blank ap)"
  shows "\<exists>out. format_text fmt ap = Inr out"
proof -
  obtain out where "vprintfmt_with (\<lambda>_ _. Inl NoReturn) collect (cstring fmt) (map blank ap) [] = Inr out"
    using assms by (auto simp: format_ok_def split: sum.split_asm)
  from vprintfmt_with_blank [OF this, of "print_err collect" collect "[]"] show ?thesis
    by (simp add: format_text_def vprintfmt_def)
qed

section \<open>Properties\<close>

text \<open>
  C38. \<open>printnum\<close> prints numbers correctly to any sink: in a base from 2 to 16 it prints padding up to the
  width and then the digits of the number, most significant first, without leading zeros; the digits
  are below the base and evaluate to the number.
\<close>

theorem printnum_correct:
  assumes "2 \<le> unat base" and "unat base \<le> 16"
  shows "\<exists>ds. printnum putch num base w c s =
      Inr (fold putch (replicate (nat (w - int (length ds))) (of_char c) @ map digit_code ds) s) \<and>
    ds \<noteq> [] \<and> (\<forall>d \<in> set ds. d < unat base) \<and> (0 < num \<longrightarrow> hd ds \<noteq> 0) \<and>
    horner (int (unat base)) (map int ds) = int (unat num)"
  using printnum_collect [OF assms, of num w c "[]"] digits_of_props [OF assms(1), of "unat num"]
  by (intro exI [of _ "digits_of (unat base) (unat num)"])
     (simp add: printnum_text [of putch] word_less_nat_alt del: fold_append)

theorem printnum_correct_witness:
  "2 \<le> unat (16 :: u32) \<and>
   printnum collect 0x2a 16 5 CHR ''0'' [] = Inr (map of_char ''0002a'') \<and>
   (\<exists>ds. printnum collect 0x2a 16 5 CHR ''0'' [] =
      Inr (fold collect (replicate (nat (5 - int (length ds))) (of_char CHR ''0'') @ map digit_code ds) []) \<and>
    horner (int (unat (16 :: u32))) (map int ds) = int (unat (0x2a :: u64)))"
proof (intro conjI)
  have h: "2 \<le> unat (16 :: u32)" "unat (16 :: u32) \<le> 16" by simp_all
  then show "2 \<le> unat (16 :: u32)" by simp
  show "printnum collect 0x2a 16 5 CHR ''0'' [] = Inr (map of_char ''0002a'')" by code_simp
  show "\<exists>ds. printnum collect 0x2a 16 5 CHR ''0'' [] =
      Inr (fold collect (replicate (nat (5 - int (length ds))) (of_char CHR ''0'') @ map digit_code ds) []) \<and>
    horner (int (unat (16 :: u32))) (map int ds) = int (unat (0x2a :: u64))"
    using printnum_correct [OF h, of collect "0x2a" 5 "CHR ''0''" "[]"] by blast
qed




text \<open>
  C14. Printing and reading back a number: \<open>strtol\<close> in base 10, on the buffer where \<open>snprintf\<close> has
  printed a \<open>long\<close> with \<open>%ld\<close>, returns that \<open>long\<close> and the end of the text, provided the buffer has
  room for 20 characters and the NUL.
\<close>

theorem print_parse_roundtrip:
  assumes "str \<noteq> 0" and "21 \<le> sz" and "unat str + unat sz \<le> 2 ^ 64"
  shows "\<exists>n m'. snprintf str sz ''%ld'' [Num w] m = Inr (n, m') \<and>
    strtol m' str True 10 = Some (w, Some (str + of_int n))"
proof -
  define ds where "ds = digits_of 10 (nat \<bar>sint w\<bar>)"
  define sg where "sg = (if sint w < 0 then [chr CHR ''-''] else [])"
  define cs :: "u8 list" where "cs = map (\<lambda>d. of_int (digit_code d)) ds"
  obtain out where out: "format_text ''%ld'' [Num w] = Inr out" "map of_int out = sg @ cs"
    by (simp add: format_ld ds_def sg_def cs_def chr_def)
  have d10: "\<forall>d \<in> set ds. d < 10" and ne: "ds \<noteq> []" and val: "horner 10 (map int ds) = \<bar>sint w\<bar>"
    using digits_of_props [of 10 "nat \<bar>sint w\<bar>"] by (auto simp: ds_def)
  have "\<bar>sint w\<bar> < 10 ^ 19" using sint_range_size [of w] by (simp add: word_size abs_if)
  then have "nat \<bar>sint w\<bar> < 10 ^ 19" by (simp add: nat_less_iff)
  then have "length ds \<le> 19" unfolding ds_def by (intro digits_of_length) auto
  then have len: "length (sg @ cs) \<le> 20" by (simp add: sg_def cs_def)
  have sz: "20 \<le> unat sz - 1" "0 < sz" using assms(2) by (auto simp: word_le_nat_alt word_less_nat_alt)
  let ?m = "write_bytes m str ((sg @ cs) @ [0])"
  have sn: "snprintf str sz ''%ld'' [Num w] m = Inr (int (length out), ?m)"
    using vsnprintf_text [OF assms(1) sz(2) assms(3) out(1), of m] out(2) len sz(1)
    by (simp add: snprintf_def)
  have nz: "0 \<notin> set (sg @ cs)"
    using d10 no_digit_0 [of 10] digit_value_code by (force simp: sg_def cs_def chr_def no_digit_def)
  have "cstr ?m str (sg @ cs)"
    using nz len read_write_bytes [of "(sg @ cs) @ [0]" m str]
    by (simp add: cstr_def del: read_bytes_simps(2))
  then have run: "strtol ?m str True 10 =
      Some (of_int (if sint w < 0 then - horner 10 (map int ds) else horner 10 (map int ds)),
            Some (str + of_nat (length (sg @ cs))))"
    using strtol_run [of ?m str "[]" sg "[]" cs "[]" "sint w < 0" 10 10 "map int ds" True]
      digits_parse [OF d10] ne
    by (simp add: sign_prefix_def base_prefix_def sg_def cs_def)
  have "length out = length (sg @ cs)" using out(2) by (metis length_map)
  moreover have "(if sint w < 0 then - \<bar>sint w\<bar> else \<bar>sint w\<bar>) = sint w" by simp
  ultimately show ?thesis using sn run val by simp
qed

theorem print_parse_roundtrip_witness:
  "\<exists>n m'. snprintf 4096 32 ''%ld'' [Num (- 1234)] (\<lambda>_. 0) = Inr (n, m') \<and>
     strtol m' 4096 True 10 = Some (- 1234, Some (4096 + of_int n))"
  by (rule print_parse_roundtrip) simp_all

end
