(* ===== verification/Stdio.thy ===== *)
theory Stdio
  imports Printfmt
begin

text \<open>
  Console input and output: \<open>kern/libs/stdio.c\<close> and \<open>libs/readline.c\<close>. In the build for the verifier
  \<open>cprintf\<close> and \<open>cputs\<close> are empty. The loops that wait for input end only when the firmware delivers
  some: they are partial functions.
\<close>

section \<open>Output\<close>

definition cputch :: "platform \<Rightarrow> int \<Rightarrow> int \<times> 'a hw_scheme \<Rightarrow> int \<times> 'a hw_scheme" where
  "cputch P c = (\<lambda>(cnt, h). (cnt + 1, cons_putc P c h))"

definition vcprintf :: "platform \<Rightarrow> string \<Rightarrow> va_list \<Rightarrow> 'a hw_scheme \<Rightarrow> (int \<times> 'a hw_scheme) res" where
  "vcprintf P fmt ap h = vprintfmt (cputch P) fmt ap (0, h)"

fun cprintf :: "build \<Rightarrow> platform \<Rightarrow> string \<Rightarrow> va_list \<Rightarrow> 'a hw_scheme \<Rightarrow> (int \<times> 'a hw_scheme) res" where
  "cprintf Kernel P fmt ap h = vcprintf P fmt ap h"
| "cprintf Verif P fmt ap h = Inr (0, h)"

definition cputchar :: "platform \<Rightarrow> int \<Rightarrow> 'a hw_scheme \<Rightarrow> 'a hw_scheme" where
  "cputchar P c h = cons_putc P c h"

text \<open>The loop of \<open>cputs\<close> over the characters of the string.\<close>

fun cputs_loop :: "platform \<Rightarrow> string \<Rightarrow> int \<times> 'a hw_scheme \<Rightarrow> int \<times> 'a hw_scheme" where
  "cputs_loop P [] st = st"
| "cputs_loop P (c # str) st =
     (if c \<noteq> CHR 0x00 then cputs_loop P str (cputch P (of_char c) st) else st)"

fun cputs :: "build \<Rightarrow> platform \<Rightarrow> string \<Rightarrow> 'a hw_scheme \<Rightarrow> int \<times> 'a hw_scheme" where
  "cputs Kernel P str h = cputch P 10 (cputs_loop P str (0, h))"
| "cputs Verif P str h = (0, h)"

section \<open>Input\<close>

partial_function (option) getchar :: "platform \<Rightarrow> 'a hw_scheme \<Rightarrow> (int \<times> 'a hw_scheme) option" where
  "getchar P h =
     (case cons_getc P h of (c, h') \<Rightarrow> if c = 0 then getchar P h' else Some (c, h'))"

definition BUFSIZE :: nat where
  "BUFSIZE = 1024"

text \<open>The static line buffer of \<open>readline.c\<close>.\<close>

record tty = hw +
  line_buf :: "u8 list"

definition buf_store :: "nat \<Rightarrow> u8 \<Rightarrow> 'a tty_scheme \<Rightarrow> 'a tty_scheme res" where
  "buf_store i c t =
     (if i < length (line_buf t) then Inr (t\<lparr>line_buf := (line_buf t)[i := c]\<rparr>) else Inl OutOfBounds)"

text \<open>The C string at the start of the buffer.\<close>

definition buf_string :: "'a tty_scheme \<Rightarrow> u8 list" where
  "buf_string t = takeWhile (\<lambda>c. c \<noteq> 0) (line_buf t)"

text \<open>
  One iteration of the loop on the character \<open>c\<close>: the next index, or the value returned, where \<open>None\<close>
  is \<open>NULL\<close> and \<open>Some\<close> the string in the buffer.
\<close>

definition readline_step ::
  "platform \<Rightarrow> int \<Rightarrow> nat \<Rightarrow> 'a tty_scheme \<Rightarrow> (nat \<times> 'a tty_scheme, u8 list option \<times> 'a tty_scheme) ctl res" where
  "readline_step P c i t =
     (if c < 0 then Inr (Return (None, t))
      else if c \<ge> 32 \<and> i < BUFSIZE - 1 then
        res_bind (buf_store i (of_int c) (cputchar P c t)) (\<lambda>t'. Inr (Next (i + 1, t')))
      else if c = 8 \<and> i > 0 then Inr (Next (i - 1, cputchar P c t))
      else if c = 10 \<or> c = 13 then
        res_bind (buf_store i 0 (cputchar P c t)) (\<lambda>t'. Inr (Return (Some (buf_string t'), t')))
      else Inr (Next (i, t)))"

partial_function (option) readline_loop ::
  "platform \<Rightarrow> nat \<Rightarrow> 'a tty_scheme \<Rightarrow> (u8 list option \<times> 'a tty_scheme) res option" where
  "readline_loop P i t =
     Option.bind (getchar P t) (\<lambda>(c, t').
       case readline_step P c i t' of
         Inl e \<Rightarrow> Some (Inl e)
       | Inr (Next (i', t'')) \<Rightarrow> readline_loop P i' t''
       | Inr (Break (i', t'')) \<Rightarrow> readline_loop P i' t''
       | Inr (Return r) \<Rightarrow> Some (Inr r))"

definition readline ::
  "build \<Rightarrow> platform \<Rightarrow> string option \<Rightarrow> 'a tty_scheme \<Rightarrow> (u8 list option \<times> 'a tty_scheme) res option" where
  "readline b P prompt t =
     (case (case prompt of None \<Rightarrow> Inr (0, t) | Some p \<Rightarrow> cprintf b P ''%s'' [Str (Some p)] t) of
        Inl e \<Rightarrow> Some (Inl e)
      | Inr (_, t') \<Rightarrow> readline_loop P 0 t')"

section \<open>What printing does to the machine\<close>

lemma cputch_fold:
  "fold (cputch P) out (n, h) =
     (n + int (length out),
      h\<lparr>sbi_log := sbi_log h @ map (\<lambda>c. \<lparr>sbi_type = SBI_CONSOLE_PUTCHAR,
          arg0 = ucast (of_int c :: u8), arg1 = 0, arg2 = 0\<rparr>) out\<rparr>)"
  by (induction out arbitrary: n h) (simp_all add: cputch_def cons_putc_log)

lemma vcprintf_text:
  "vcprintf P fmt ap h =
     (case format_text fmt ap of
        Inl e \<Rightarrow> Inl e
      | Inr out \<Rightarrow> Inr (int (length out), fold (cons_putc P) out h))"
proof -
  have "fold (cputch P) out (n, h) = (n + int (length out), fold (cons_putc P) out h)" for n out
    by (induction out arbitrary: n h) (simp_all add: cputch_def)
  then show ?thesis by (simp add: vcprintf_def vprintfmt_text split: sum.split)
qed

text \<open>Printing changes the log of firmware calls only.\<close>

definition log_only :: "'a hw_scheme \<Rightarrow> 'a hw_scheme \<Rightarrow> bool" where
  "log_only h h' \<longleftrightarrow> (\<exists>l. h' = h\<lparr>sbi_log := l\<rparr>)"

lemma log_only_refl [simp]: "log_only h h"
  by (auto simp: log_only_def intro!: exI [of _ "sbi_log h"])

lemma log_only_trans: "log_only h h' \<Longrightarrow> log_only h' h'' \<Longrightarrow> log_only h h''"
  by (auto simp: log_only_def)

lemma cons_putc_log_only: "log_only h (cons_putc P c h)"
  by (auto simp: log_only_def cons_putc_log)

lemma cprintf_log_only: "cprintf b P fmt ap h = Inr (n, h') \<Longrightarrow> log_only h h'"
proof -
  have "log_only h (fold (cons_putc P) out h)" for out
    by (induction out arbitrary: h) (auto intro: log_only_trans cons_putc_log_only)
  then show "cprintf b P fmt ap h = Inr (n, h') \<Longrightarrow> log_only h h'"
    by (cases b) (auto simp: vcprintf_text split: sum.split_asm)
qed

lemma fold_putc_output: "console_output (fold (cons_putc P) out h) = console_output h @ map of_int out"
  by (induction out arbitrary: h) (simp_all add: cons_putc_output)

text \<open>A format that fits the kinds of its arguments prints without a fault.\<close>

lemma cprintf_ok:
  assumes "format_ok fmt (map blank ap)"
  obtains n h' where "cprintf b P fmt ap h = Inr (n, h')" and "log_only h h'"
proof -
  obtain out where "format_text fmt ap = Inr out" using format_ok_text [OF assms] by blast
  then have "\<exists>n h'. cprintf b P fmt ap h = Inr (n, h')" by (cases b) (simp_all add: vcprintf_text)
  then show ?thesis using that cprintf_log_only by blast
qed

section \<open>Input delivered by the firmware\<close>

text \<open>
  The number of characters asked for so far, and the documented behaviour of the firmware call: it
  hands out the characters of the input one by one, each request the next one.
\<close>

definition getchar_count :: "sbi_req list \<Rightarrow> nat" where
  "getchar_count l = length (filter (\<lambda>r. sbi_type r = SBI_CONSOLE_GETCHAR) l)"

definition delivers :: "platform \<Rightarrow> int list \<Rightarrow> bool" where
  "delivers P cs \<longleftrightarrow> (\<forall>l r. sbi_type r = SBI_CONSOLE_GETCHAR \<longrightarrow> getchar_count l < length cs \<longrightarrow>
     firmware P (l @ [r]) = of_int (cs ! getchar_count l))"

text \<open>
  Line editing: printable characters are appended while there is room, backspace deletes the last one,
  newline or carriage return ends the line, a negative value gives it up (\<open>Some None\<close>); zeros and other
  characters are skipped. \<open>None\<close> means that the line is not finished.
\<close>

fun edit_line :: "int list \<Rightarrow> u8 list \<Rightarrow> u8 list option option" where
  "edit_line [] line = None"
| "edit_line (c # cs) line =
     (if c = 0 then edit_line cs line
      else if c < 0 then Some None
      else if c \<ge> 32 \<and> length line < BUFSIZE - 1 then edit_line cs (line @ [of_int c])
      else if c = 8 \<and> line \<noteq> [] then edit_line cs (butlast line)
      else if c = 10 \<or> c = 13 then Some (Some line)
      else edit_line cs line)"

lemma sint_low_word:
  assumes "- (2 ^ 31) \<le> c" and "c < 2 ^ 31"
  shows "sint (ucast (of_int c :: u64) :: u32) = c"
proof -
  have "(ucast (of_int c :: u64) :: u32) = of_int c" by (rule bit_eqI) (auto simp: bit_simps)
  with assms show ?thesis by (simp add: signed_of_int signed_take_bit_int_eq_self)
qed

lemma of_int_u8_nonzero:
  assumes "0 < c" and "c < 256"
  shows "(of_int c :: u8) \<noteq> 0"
proof -
  have "uint (of_int c :: u8) = c" using assms by (simp add: unsigned_of_int take_bit_int_eq_self)
  then show ?thesis using assms(1) by auto
qed

definition getchar_req :: sbi_req where
  "getchar_req = \<lparr>sbi_type = SBI_CONSOLE_GETCHAR, arg0 = 0, arg1 = 0, arg2 = 0\<rparr>"

lemma cons_getc_next:
  assumes "delivers P cs" and "drop (getchar_count (sbi_log h)) cs = c # cs'"
    and "- (2 ^ 31) \<le> c" and "c < 2 ^ 31"
  shows "cons_getc P h = (c, h\<lparr>sbi_log := sbi_log h @ [getchar_req]\<rparr>)"
proof -
  have lt: "getchar_count (sbi_log h) < length cs" and "cs ! getchar_count (sbi_log h) = c"
    using assms(2) by (auto simp: not_less nth_via_drop intro!: leI dest: arg_cong [where f = length])
  then have "firmware P (sbi_log h @ [getchar_req]) = of_int c"
    using assms(1) by (auto simp: delivers_def getchar_req_def)
  then show ?thesis
    using assms(3,4) by (simp add: cons_getc_def sbi_console_getchar_def sbi_call_def Let_def
        sint_low_word getchar_req_def)
qed

lemma getchar_count_simps [simp]:
  "getchar_count (l @ [getchar_req]) = Suc (getchar_count l)"
  "getchar_count (sbi_log (cputchar P c h)) = getchar_count (sbi_log h)"
  by (simp_all add: getchar_count_def getchar_req_def cputchar_def cons_putc_log
      SBI_CONSOLE_PUTCHAR_def SBI_CONSOLE_GETCHAR_def)

lemma tty_frame [simp]:
  "line_buf (cputchar P c t) = line_buf t" "line_buf (t\<lparr>sbi_log := l\<rparr>) = line_buf t"
  by (simp_all add: cputchar_def cons_putc_log)

text \<open>The buffer holds the line typed so far.\<close>

definition holds_line :: "'a tty_scheme \<Rightarrow> u8 list \<Rightarrow> bool" where
  "holds_line t line \<longleftrightarrow> length (line_buf t) = BUFSIZE \<and> length line < BUFSIZE \<and>
     take (length line) (line_buf t) = line \<and> 0 \<notin> set line"

lemma holds_line_end:
  assumes "holds_line t line"
  shows "takeWhile (\<lambda>c. c \<noteq> 0) ((line_buf t)[length line := 0]) = line"
proof -
  have "(line_buf t)[length line := 0] = line @ 0 # drop (Suc (length line)) (line_buf t)"
    using assms by (simp add: holds_line_def upd_conv_take_nth_drop)
  then show ?thesis using assms by (auto simp: holds_line_def takeWhile_tail)
qed

lemma holds_line_snoc:
  assumes "holds_line t line" and "length line < BUFSIZE - 1" and "c \<noteq> 0"
    and "line_buf t' = (line_buf t)[length line := c]"
  shows "holds_line t' (line @ [c])"
  using assms by (auto simp: holds_line_def take_Suc_conv_app_nth BUFSIZE_def)

lemma holds_line_butlast:
  assumes "holds_line t line" and "line_buf t' = line_buf t"
  shows "holds_line t' (butlast line)"
proof -
  have "take (length line - 1) (line_buf t) = take (length line - 1) (take (length line) (line_buf t))"
    by simp
  also have "\<dots> = butlast line" using assms(1) by (simp add: holds_line_def butlast_conv_take)
  finally show ?thesis using assms by (auto simp: holds_line_def dest: in_set_butlastD)
qed

lemma getchar_next:
  assumes "delivers P cs" and "drop (getchar_count (sbi_log h)) cs = c # cs'"
    and "- (2 ^ 31) \<le> c" and "c < 2 ^ 31"
  shows "getchar P h = (if c = 0 then getchar P (h\<lparr>sbi_log := sbi_log h @ [getchar_req]\<rparr>)
    else Some (c, h\<lparr>sbi_log := sbi_log h @ [getchar_req]\<rparr>))"
  using cons_getc_next [OF assms] by (subst getchar.simps) simp

lemma drop_next: "drop n xs = y # ys \<Longrightarrow> drop (Suc n) xs = ys"
  by (metis drop_Suc tl_drop list.sel(3))

lemma readline_loop_edits:
  fixes t :: "'a tty_scheme"
  assumes del: "delivers P cs" and rng: "\<forall>c \<in> set cs. - (2 ^ 31) \<le> c \<and> c < 256"
    and "holds_line t line" and "edit_line (drop (getchar_count (sbi_log t)) cs) line = Some r"
  shows "\<exists>t'. readline_loop P (length line) t = Some (Inr (r, t')) \<and> length (line_buf t') = BUFSIZE"
  using assms(3,4)
proof (induction "drop (getchar_count (sbi_log t)) cs" arbitrary: t line)
  case Nil
  then show ?case by simp
next
  case (Cons c cs')
  note dr = Cons.hyps(2) [symmetric]
  have "c \<in> set cs" using dr by (metis in_set_dropD list.set_intros(1))
  then have c: "- (2 ^ 31) \<le> c" "c < 256" using rng by auto
  let ?t = "t\<lparr>sbi_log := sbi_log t @ [getchar_req]\<rparr>"
  have gc: "getchar P t = (if c = 0 then getchar P ?t else Some (c, ?t))"
    using getchar_next [OF del dr] c by simp
  have nx: "cs' = drop (getchar_count (sbi_log ?t)) cs" using drop_next [OF dr] by simp
  have ho: "holds_line ?t line" using Cons.prems(1) by (simp add: holds_line_def)
  have len: "length (line_buf t) = BUFSIZE" "length line < BUFSIZE"
    using Cons.prems(1) by (simp_all add: holds_line_def)
  note ed = Cons.prems(2) [unfolded dr]
  have loop: "readline_loop P (length line) t = (case readline_step P c (length line) ?t of
      Inl e \<Rightarrow> Some (Inl e) | Inr (Next (i', t'')) \<Rightarrow> readline_loop P i' t''
      | Inr (Break (i', t'')) \<Rightarrow> readline_loop P i' t'' | Inr (Return r) \<Rightarrow> Some (Inr r))" if "c \<noteq> 0"
    using that gc by (subst readline_loop.simps) simp
  consider "c = 0" | "c < 0" | "32 \<le> c" "length line < BUFSIZE - 1"
    | "c = 8" "line \<noteq> []" | "c = 10 \<or> c = 13"
    | "0 < c" "\<not> (32 \<le> c \<and> length line < BUFSIZE - 1)" "\<not> (c = 8 \<and> line \<noteq> [])" "c \<noteq> 10" "c \<noteq> 13"
    by linarith
  then show ?case
  proof cases
    case 1
    then have "readline_loop P (length line) t = readline_loop P (length line) ?t"
      using gc by (simp add: readline_loop.simps [of P _ t] readline_loop.simps [of P _ ?t])
    then show ?thesis using Cons.hyps(1) [OF nx ho] ed 1 nx by simp
  next
    case 2
    then show ?thesis using loop ed len by (simp add: readline_step_def)
  next
    case 3
    let ?t' = "(cputchar P c ?t)\<lparr>line_buf := (line_buf t)[length line := of_int c]\<rparr>"
    have ho': "holds_line ?t' (line @ [of_int c])"
      using 3 c of_int_u8_nonzero [of c] by (intro holds_line_snoc [OF ho 3(2)]) auto
    have "cs' = drop (getchar_count (sbi_log ?t')) cs" using nx by simp
    from Cons.hyps(1) [OF this ho'] show ?thesis
      using loop ed 3 len nx by (simp add: readline_step_def buf_store_def)
  next
    case 4
    let ?t' = "cputchar P c ?t"
    have ho': "holds_line ?t' (butlast line)" by (rule holds_line_butlast [OF ho]) simp
    have "cs' = drop (getchar_count (sbi_log ?t')) cs" using nx by simp
    from Cons.hyps(1) [OF this ho'] show ?thesis
      using loop ed 4 nx by (simp add: readline_step_def)
  next
    case 5
    then show ?thesis
      using loop ed len holds_line_end [OF Cons.prems(1)]
      by (auto simp: readline_step_def buf_store_def buf_string_def)
  next
    case 6
    then show ?thesis
      using loop ed Cons.hyps(1) [OF nx ho] nx by (auto simp: readline_step_def)
  qed
qed

lemma edit_line_bound:
  "edit_line cs line = Some (Some l) \<Longrightarrow> length line < BUFSIZE \<Longrightarrow> length l < BUFSIZE"
  by (induction cs line rule: edit_line.induct) (auto split: if_splits)

text \<open>Printing a string.\<close>

lemma pad_loop_negative: "w \<le> 0 \<Longrightarrow> pad_loop putch c w s = s"
  by (simp add: pad_loop.simps)

lemma str_loop_plain:
  "str_loop collect False p (- 1) w s = (w - int (length p), s @ map of_char p)"
  by (induction p arbitrary: w s) (simp_all add: collect_def)

lemma format_s: "format_text ''%s'' [Str (Some p)] = Inr (map of_char (cstring p))"
proof -
  have fs: "flag_case CHR ''s'' [] [Str (Some p)] escape0 = None" by (simp add: flag_case_def is_dec_def)
  have "print_string collect escape0 (cstring p) [] = map of_char (cstring p)"
    by (simp add: print_string_def escape0_def str_loop_plain pad_loop_negative)
  then have "conversion pe collect escape0 CHR ''s'' [Str (Some p)] [] = Some (Inr ([], map of_char (cstring p)))"
    for pe by (simp add: conversion_def)
  moreover have "cstring ''%s'' = ''%s''" by (simp add: cstring_def)
  ultimately show ?thesis by (simp add: format_text_def vprintfmt_def fs convert_def)
qed

lemma fold_putc_count: "getchar_count (sbi_log (fold (cons_putc P) out h)) = getchar_count (sbi_log h)"
  by (induction out arbitrary: h) (simp_all add: getchar_count_simps(2) [unfolded cputchar_def])

lemma fold_putc_tty: "line_buf (fold (cons_putc P) out t) = line_buf t"
  by (induction out arbitrary: t) (simp_all add: tty_frame(1) [unfolded cputchar_def])

lemma prompt_printed:
  obtains n t1 where
    "(case prompt of None \<Rightarrow> Inr (0, t) | Some p \<Rightarrow> cprintf b P ''%s'' [Str (Some p)] t) = Inr (n, t1)"
    and "getchar_count (sbi_log t1) = getchar_count (sbi_log t)" and "line_buf t1 = line_buf t"
proof (cases prompt)
  case None
  then show ?thesis using that by simp
next
  case (Some p)
  then show ?thesis
    using that by (cases b) (auto simp: vcprintf_text format_s fold_putc_count fold_putc_tty)
qed

text \<open>A machine for concrete runs; its firmware hands out \<open>cs\<close> and then zeros.\<close>

definition demo_platform :: "int list \<Rightarrow> platform" where
  "demo_platform cs = \<lparr>firmware = (\<lambda>l. let k = getchar_count (butlast l)
       in if k < length cs then of_int (cs ! k) else 0),
     clock_reading = of_nat, sym_kern_init = 0xFFFFFFFFC0200000, sym_etext = 0xFFFFFFFFC0204000,
     sym_edata = 0xFFFFFFFFC0206000, sym_end = 0xFFFFFFFFC0209100,
     sym_boot_page_table_sv39 = 0xFFFFFFFFC0205000, sym_alltraps = 0xFFFFFFFFC0200100,
     sym_bootstack = 0xFFFFFFFFC0207000\<rparr>"

definition demo_hw :: hw where
  "demo_hw = \<lparr>csrs = (\<lambda>_. 0), sbi_log = [], time_reads = 0\<rparr>"

definition demo_tty :: tty where
  "demo_tty = \<lparr>csrs = (\<lambda>_. 0), sbi_log = [], time_reads = 0, line_buf = replicate 1024 0\<rparr>"

lemma demo_platform_delivers: "delivers (demo_platform cs) cs"
  by (simp add: delivers_def demo_platform_def)

section \<open>Properties\<close>

text \<open>
  Formatted output reaches the console: in the kernel build \<open>cprintf\<close> sends the characters of the
  text to the firmware in order, returns their number and changes nothing else; in the verifier's
  build it has no effect.
\<close>

theorem cprintf_console:
  assumes "format_text fmt ap = Inr out"
  shows "(\<exists>h'. cprintf Kernel P fmt ap h = Inr (int (length out), h') \<and>
      console_output h' = console_output h @ map of_int out \<and> log_only h h') \<and>
    cprintf Verif P fmt ap h = Inr (0, h)"
proof -
  have eq: "cprintf Kernel P fmt ap h = Inr (int (length out), fold (cons_putc P) out h)"
    using assms by (simp add: vcprintf_text)
  show ?thesis
    using cprintf_log_only [OF eq] fold_putc_output [of P out h] by (simp add: eq del: cprintf.simps(1))
qed

theorem cprintf_console_witness:
  "\<exists>h'. cprintf Kernel (demo_platform []) ''%d ticks'' [Num 100] demo_hw = Inr (9, h') \<and>
     console_output h' = console_output demo_hw @ map of_int (map of_char ''100 ticks'')"
proof -
  have t: "format_text ''%d ticks'' [Num 100] = Inr (map of_char ''100 ticks'')" by code_simp
  show ?thesis using cprintf_console [OF t, of "demo_platform []" demo_hw] by auto
qed

text \<open>
  C29. \<open>readline\<close> is a line editor: when the firmware delivers the input characters one by one and the
  input contains a finished line, \<open>readline\<close> prints the prompt and returns what the editing keys make of
  the input, never more than \<open>BUFSIZE - 1\<close> characters, or \<open>NULL\<close> on a negative character.
\<close>

theorem readline_edits:
  assumes "delivers P cs" and "\<forall>c \<in> set cs. - (2 ^ 31) \<le> c \<and> c < 256"
    and "length (line_buf t) = BUFSIZE"
    and "edit_line (drop (getchar_count (sbi_log t)) cs) [] = Some r"
  shows "\<exists>t'. readline b P prompt t = Some (Inr (r, t')) \<and> length (line_buf t') = BUFSIZE \<and>
    (case r of None \<Rightarrow> True | Some line \<Rightarrow> length line < BUFSIZE)"
proof -
  obtain n t1 where pr: "(case prompt of None \<Rightarrow> Inr (0, t) | Some p \<Rightarrow> cprintf b P ''%s'' [Str (Some p)] t) = Inr (n, t1)"
    and cnt: "getchar_count (sbi_log t1) = getchar_count (sbi_log t)" and buf: "line_buf t1 = line_buf t"
    by (rule prompt_printed)
  have "holds_line t1 []" using assms(3) buf by (simp add: holds_line_def BUFSIZE_def)
  then obtain t' where "readline_loop P 0 t1 = Some (Inr (r, t'))" "length (line_buf t') = BUFSIZE"
    using readline_loop_edits [OF assms(1,2), of t1 "[]" r] assms(4) cnt by auto
  moreover have "case r of None \<Rightarrow> True | Some line \<Rightarrow> length line < BUFSIZE"
    using edit_line_bound assms(4) by (cases r) (auto simp: BUFSIZE_def)
  ultimately show ?thesis using pr by (auto simp: readline_def)
qed

theorem readline_edits_witness:
  "\<exists>t'. readline Kernel (demo_platform [104, 120, 8, 105, 13]) (Some ''K> '') demo_tty =
     Some (Inr (Some [104, 105], t'))"
proof -
  have e: "edit_line (drop (getchar_count (sbi_log demo_tty)) [104, 120, 8, 105, 13]) [] = Some (Some [104, 105])"
    by code_simp
  have l: "length (line_buf demo_tty) = BUFSIZE" by (simp add: demo_tty_def BUFSIZE_def)
  show ?thesis
    using readline_edits [OF demo_platform_delivers _ l e, of Kernel "Some ''K> ''"] by auto
qed

end
