(* ===== verification/Mmu.thy ===== *)
theory Mmu
  imports Memlayout
begin

unbundle bit_operations_syntax

text \<open>
  Addresses: the Sv39 macros of \<open>kern/mm/mmu.h\<close>, the rounding macros of \<open>libs/defs.h\<close> and the
  conversions between page numbers, physical and kernel virtual addresses of \<open>kern/mm/pmm.h\<close>. Macro
  arguments have the type \<open>uintptr_t\<close> that their uses give them.
\<close>

section \<open>Sv39\<close>

definition PPN :: "uintptr_t \<Rightarrow> u64" where
  "PPN la = drop_bit PGSHIFT la"

definition SV39_NENTRY :: u64 where
  "SV39_NENTRY = 512"

definition SV39_PGSIZE :: u64 where
  "SV39_PGSIZE = 4096"

definition SV39_PGSHIFT :: nat where
  "SV39_PGSHIFT = 12"

definition SV39_PTSHIFT :: nat where
  "SV39_PTSHIFT = 21"

definition SV39_VPN0SHIFT :: nat where
  "SV39_VPN0SHIFT = 12"

definition SV39_VPN1SHIFT :: nat where
  "SV39_VPN1SHIFT = 21"

definition SV39_VPN2SHIFT :: nat where
  "SV39_VPN2SHIFT = 30"

definition SV39_PTE_PPN_SHIFT :: nat where
  "SV39_PTE_PPN_SHIFT = 10"

definition SV39_VPN0 :: "uintptr_t \<Rightarrow> u64" where
  "SV39_VPN0 la = drop_bit SV39_VPN0SHIFT la AND 0x1FF"

definition SV39_VPN1 :: "uintptr_t \<Rightarrow> u64" where
  "SV39_VPN1 la = drop_bit SV39_VPN1SHIFT la AND 0x1FF"

definition SV39_VPN2 :: "uintptr_t \<Rightarrow> u64" where
  "SV39_VPN2 la = drop_bit SV39_VPN2SHIFT la AND 0x1FF"

definition SV39_VPN :: "uintptr_t \<Rightarrow> nat \<Rightarrow> u64" where
  "SV39_VPN la n = drop_bit (9 * n) (drop_bit 12 la) AND 0x1FF"

definition SV39_PGADDR :: "u64 \<Rightarrow> u64 \<Rightarrow> u64 \<Rightarrow> u64 \<Rightarrow> uintptr_t" where
  "SV39_PGADDR v2 v1 v0 off =
     push_bit SV39_VPN2SHIFT v2 OR push_bit SV39_VPN1SHIFT v1 OR push_bit SV39_VPN0SHIFT v0 OR off"

definition SV39_PTE_ADDR :: "u64 \<Rightarrow> uintptr_t" where
  "SV39_PTE_ADDR pte = push_bit 3 (pte AND NOT 0x1FF)"

definition PTE_V :: u64 where "PTE_V = 0x001"
definition PTE_R :: u64 where "PTE_R = 0x002"
definition PTE_W :: u64 where "PTE_W = 0x004"
definition PTE_X :: u64 where "PTE_X = 0x008"
definition PTE_U :: u64 where "PTE_U = 0x010"
definition PTE_G :: u64 where "PTE_G = 0x020"
definition PTE_A :: u64 where "PTE_A = 0x040"
definition PTE_D :: u64 where "PTE_D = 0x080"
definition PTE_SOFT :: u64 where "PTE_SOFT = 0x300"

definition PAGE_TABLE_DIR :: u64 where "PAGE_TABLE_DIR = PTE_V"
definition READ_ONLY :: u64 where "READ_ONLY = PTE_R OR PTE_V"
definition READ_WRITE :: u64 where "READ_WRITE = PTE_R OR PTE_W OR PTE_V"
definition EXEC_ONLY :: u64 where "EXEC_ONLY = PTE_X OR PTE_V"
definition READ_EXEC :: u64 where "READ_EXEC = PTE_R OR PTE_X OR PTE_V"
definition READ_WRITE_EXEC :: u64 where "READ_WRITE_EXEC = PTE_R OR PTE_W OR PTE_X OR PTE_V"
definition PTE_USER :: u64 where "PTE_USER = PTE_R OR PTE_W OR PTE_X OR PTE_U OR PTE_V"

section \<open>Rounding\<close>

text \<open>The divisor is a positive constant in every use.\<close>

definition ROUNDDOWN :: "u64 \<Rightarrow> u64 \<Rightarrow> u64" where
  "ROUNDDOWN a n = a - a mod n"

definition ROUNDUP :: "u64 \<Rightarrow> u64 \<Rightarrow> u64" where
  "ROUNDUP a n = ROUNDDOWN (a + n - 1) n"

section \<open>Page numbers and addresses\<close>

text \<open>The globals \<open>nbase\<close>, \<open>npage\<close> and \<open>va_pa_offset\<close> are arguments.\<close>

definition page2ppn :: "size_t \<Rightarrow> size_t \<Rightarrow> u64" where
  "page2ppn nbase page = page + nbase"

definition page2pa :: "size_t \<Rightarrow> size_t \<Rightarrow> uintptr_t" where
  "page2pa nbase page = push_bit PGSHIFT (page2ppn nbase page)"

definition pa2page :: "size_t \<Rightarrow> size_t \<Rightarrow> uintptr_t \<Rightarrow> size_t res" where
  "pa2page npage nbase pa =
     (if PPN pa \<ge> npage then Inl (Panic ''pa2page called with invalid pa'')
      else Inr (PPN pa - nbase))"

definition PADDR :: "u64 \<Rightarrow> uintptr_t \<Rightarrow> uintptr_t res" where
  "PADDR va_pa_offset kva =
     (if kva < KERNBASE then Inl (Panic ''PADDR called with invalid kva %08lx'')
      else Inr (kva - va_pa_offset))"

section \<open>Facts\<close>

lemma mask_9: "0x1FF = (mask 9 :: u64)"
  by (simp add: mask_eq_exp_minus_1)

lemma and_mask_9: "x AND 0x1FF = take_bit 9 (x :: u64)"
  by (simp only: mask_9 take_bit_eq_mask)

lemma vpn_take_bit:
  "SV39_VPN0 la = take_bit 9 (drop_bit 12 la)"
  "SV39_VPN1 la = take_bit 9 (drop_bit 21 la)"
  "SV39_VPN2 la = take_bit 9 (drop_bit 30 la)"
  "SV39_VPN la n = take_bit 9 (drop_bit (9 * n + 12) la)"
  unfolding SV39_VPN0_def SV39_VPN1_def SV39_VPN2_def SV39_VPN_def and_mask_9
    SV39_VPN0SHIFT_def SV39_VPN1SHIFT_def SV39_VPN2SHIFT_def by (simp_all add: drop_bit_drop_bit)

text \<open>A bit test beyond the size of a small word is false.\<close>

lemma bit_small:
  assumes "x < 2 ^ k" and "bit (x :: u64) j"
  shows "j < k"
proof (cases "k < 64")
  case True
  then have "(2 :: nat) ^ k < 2 ^ 64" by (rule power_strict_increasing) simp
  then have "unat (2 ^ k :: u64) = 2 ^ k" using unat_of_nat_u64 [of "2 ^ k"] by simp
  then have "take_bit k x = x"
    using assms(1) by (simp add: word_unat_eq_iff unsigned_take_bit_eq word_less_nat_alt
        take_bit_nat_eq_self)
  then have "bit (take_bit k x) j" using assms(2) by simp
  then show ?thesis by (simp add: bit_take_bit_iff)
next
  case False
  then show ?thesis using bit_imp_le_length [OF assms(2)] by simp
qed

lemma rounddown_unat: "0 < n \<Longrightarrow> unat (ROUNDDOWN a n) = unat a - unat a mod unat n"
  by (simp add: ROUNDDOWN_def unat_u64_sub word_le_nat_alt unat_mod)

lemma roundup_unat:
  assumes n: "0 < n" and fits: "unat a + unat n < 2 ^ 64"
  shows "unat (ROUNDUP a n) = (unat a + unat n - 1) div unat n * unat n"
proof -
  have "unat (a + n) = unat a + unat n" using fits by (rule unat_u64_add)
  moreover have "1 \<le> a + n" using n calculation by (simp add: word_le_nat_alt word_less_nat_alt)
  ultimately have "unat (a + n - 1) = unat a + unat n - 1" by (simp add: unat_u64_sub)
  then show ?thesis
    using n by (simp add: ROUNDUP_def rounddown_unat minus_mod_eq_div_mult)
qed

lemma page2pa_unat:
  assumes "unat page \<le> 4096"
  shows "unat (page2pa NBASE page) = unat KERNEL_BEGIN_PADDR + unat page * 4096"
proof -
  have "unat (page + NBASE) = unat page + unat NBASE"
    using assms by (intro unat_u64_add) (simp add: layout_defs drop_bit_eq_div unat_div)
  moreover have "unat NBASE = 0x80200" by (simp add: layout_defs drop_bit_eq_div unat_div)
  ultimately show ?thesis
    using assms by (simp add: page2pa_def page2ppn_def push_bit_eq_mult PGSHIFT_def
        unat_word_ariths KERNEL_BEGIN_PADDR_def)
qed

section \<open>Properties\<close>

text \<open>
  C36. The Sv39 macros split and rebuild addresses: the indexes and the offset of an address rebuild
  it, indexes and offsets in range are recovered from the address they build, and the general index
  macro agrees with the three specific ones.
\<close>

theorem sv39_split_rebuild:
  assumes "v2 < 512" and "v1 < 512" and "v0 < 512" and "off < 4096" and "la < 2 ^ 39"
  shows "SV39_PGADDR (SV39_VPN2 la) (SV39_VPN1 la) (SV39_VPN0 la) (la AND 0xFFF) = la \<and>
    SV39_VPN2 (SV39_PGADDR v2 v1 v0 off) = v2 \<and> SV39_VPN1 (SV39_PGADDR v2 v1 v0 off) = v1 \<and>
    SV39_VPN0 (SV39_PGADDR v2 v1 v0 off) = v0 \<and> SV39_PGADDR v2 v1 v0 off AND 0xFFF = off \<and>
    SV39_VPN la 0 = SV39_VPN0 la \<and> SV39_VPN la 1 = SV39_VPN1 la \<and> SV39_VPN la 2 = SV39_VPN2 la"
proof -
  have small: "\<And>j. bit v2 j \<Longrightarrow> j < 9" "\<And>j. bit v1 j \<Longrightarrow> j < 9" "\<And>j. bit v0 j \<Longrightarrow> j < 9"
    "\<And>j. bit off j \<Longrightarrow> j < 12" "\<And>j. bit la j \<Longrightarrow> j < 39"
    using assms bit_small [of v2 9] bit_small [of v1 9] bit_small [of v0 9] bit_small [of off 12]
      bit_small [of la 39] by auto
  have fff: "x AND 0xFFF = take_bit 12 (x :: u64)" for x
    by (simp add: take_bit_eq_mask mask_eq_exp_minus_1)
  note bits = SV39_PGADDR_def SV39_VPN2SHIFT_def SV39_VPN1SHIFT_def SV39_VPN0SHIFT_def
    bit_take_bit_iff bit_drop_bit_eq bit_push_bit_iff bit_or_iff
  show ?thesis
    unfolding vpn_take_bit fff
  proof (intro conjI)
    show "SV39_PGADDR (take_bit 9 (drop_bit 30 la)) (take_bit 9 (drop_bit 21 la))
        (take_bit 9 (drop_bit 12 la)) (take_bit 12 la) = la"
    proof (rule bit_eqI)
      fix j assume "possible_bit TYPE(u64) j"
      consider "j < 12" | "12 \<le> j" "j < 21" | "21 \<le> j" "j < 30" | "30 \<le> j" by linarith
      then show "bit (SV39_PGADDR (take_bit 9 (drop_bit 30 la)) (take_bit 9 (drop_bit 21 la))
          (take_bit 9 (drop_bit 12 la)) (take_bit 12 la)) j = bit la j"
        using \<open>possible_bit TYPE(u64) j\<close> small(5) [of j] by cases (auto simp: bits)
    qed
  qed (rule bit_eqI; auto simp: bits dest: small)+
qed

theorem sv39_split_rebuild_witness:
  "(511 :: u64) < 512 \<and> (0x40200123 :: u64) < 2 ^ 39 \<and>
   SV39_PGADDR (SV39_VPN2 0x40200123) (SV39_VPN1 0x40200123) (SV39_VPN0 0x40200123)
     (0x40200123 AND 0xFFF) = 0x40200123 \<and>
   SV39_VPN2 (SV39_PGADDR 511 3 4 5) = 511"
  using sv39_split_rebuild [of 511 3 4 5 "0x40200123"] by simp

text \<open>
  The macro that should extract the address of a page table entry does not: on the entry of page
  \<open>ppn\<close>, whose number stands from bit 10 on by \<open>SV39_PTE_PPN_SHIFT\<close> and the drawing of the entry's
  layout, it returns twice the address of the page.
\<close>

theorem sv39_pte_addr_doubles:
  assumes "ppn < 2 ^ 44" and "fl < 2 ^ 9"
  shows "SV39_PTE_ADDR (push_bit SV39_PTE_PPN_SHIFT ppn OR fl) = 2 * push_bit PGSHIFT ppn"
proof -
  have f: "bit fl j \<Longrightarrow> j < 9" for j using bit_small assms(2) by blast
  have not: "NOT 0x1FF = (NOT (mask 9) :: u64)" by (simp only: mask_9)
  have "(push_bit 10 ppn OR fl) AND NOT (mask 9) = push_bit 10 ppn"
    by (rule bit_eqI) (auto simp: bit_and_iff bit_or_iff bit_not_iff bit_push_bit_iff
        semiring_bit_operations_class.bit_mask_iff
        dest: f)
  then have "SV39_PTE_ADDR (push_bit SV39_PTE_PPN_SHIFT ppn OR fl) = push_bit 13 ppn"
    unfolding SV39_PTE_ADDR_def SV39_PTE_PPN_SHIFT_def not by simp
  also have "\<dots> = 2 * push_bit 12 ppn" by (simp add: push_bit_eq_mult)
  finally show ?thesis by (simp add: PGSHIFT_def)
qed

theorem sv39_pte_addr_doubles_witness:
  "(0x80000 :: u64) < 2 ^ 44 \<and>
   SV39_PTE_ADDR (push_bit SV39_PTE_PPN_SHIFT 0x80000 OR 0xcf) = 0x100000000 \<and>
   push_bit PGSHIFT 0x80000 = (0x80000000 :: u64)"
  using sv39_pte_addr_doubles [of "0x80000" "0xcf"] by (simp add: PGSHIFT_def push_bit_eq_mult)

text \<open>
  C35. Page numbers and physical addresses: after \<open>page_init\<close> has set \<open>nbase\<close> and \<open>npage\<close>, a page of
  the array has an aligned address inside the managed memory, \<open>pa2page\<close> recovers the page from any
  address in it, and \<open>pa2page\<close> panics at the end of the managed memory.
\<close>

theorem page_address_roundtrip:
  assumes "page < NPAGE b" and "off < PGSIZE"
  shows "page2pa NBASE page mod PGSIZE = 0 \<and>
    KERNEL_BEGIN_PADDR \<le> page2pa NBASE page \<and> page2pa NBASE page + off < KERNEL_MEMEND_PADDR b \<and>
    pa2page (NBASE + NPAGE b) NBASE (page2pa NBASE page + off) = Inr page \<and>
    pa2page (NBASE + NPAGE b) NBASE (KERNEL_MEMEND_PADDR b) =
      Inl (Panic ''pa2page called with invalid pa'')"
proof -
  have page: "unat page < unat (NPAGE b)" and off: "unat off < 4096"
    using assms by (simp_all add: word_less_nat_alt PGSIZE_def)
  have "unat page \<le> 4096" using page NPAGE_bounds(2) [of b] by simp
  note pa = page2pa_unat [OF \<open>unat page \<le> 4096\<close>]
  have nbase: "unat NBASE = 0x80200" by (simp add: layout_defs drop_bit_eq_div unat_div)
  have sum: "unat (page2pa NBASE page + off) = 0x80200000 + unat page * 4096 + unat off"
    using pa off \<open>unat page \<le> 4096\<close> by (subst unat_u64_add) (simp_all add: KERNEL_BEGIN_PADDR_def)
  have ppn: "unat (PPN (page2pa NBASE page + off)) = 0x80200 + unat page"
    unfolding PPN_def PGSHIFT_def using sum off by (simp add: drop_bit_eq_div unat_div)
  have top: "unat (NBASE + NPAGE b) = 0x80200 + unat (NPAGE b)"
    using nbase NPAGE_bounds(2) [of b] by (subst unat_u64_add) simp_all
  have memend: "unat (KERNEL_MEMEND_PADDR b) = 0x80200000 + unat (NPAGE b) * 4096"
    by (cases b) (simp_all add: layout_defs)
  have rev: "PPN (page2pa NBASE page + off) - NBASE = page"
    using ppn nbase by (simp add: word_unat_eq_iff unat_u64_sub word_le_nat_alt)
  have "page2pa NBASE page mod PGSIZE = 0"
    using pa by (simp add: word_unat_eq_iff unat_mod PGSIZE_def KERNEL_BEGIN_PADDR_def)
  moreover have "KERNEL_BEGIN_PADDR \<le> page2pa NBASE page" using pa by (simp add: word_le_nat_alt)
  moreover have "page2pa NBASE page + off < KERNEL_MEMEND_PADDR b"
    using sum memend page off by (simp add: word_less_nat_alt)
  moreover have "pa2page (NBASE + NPAGE b) NBASE (page2pa NBASE page + off) = Inr page"
    using ppn top page rev by (simp add: pa2page_def word_le_nat_alt)
  moreover have "NBASE + NPAGE b \<le> PPN (KERNEL_MEMEND_PADDR b)"
    by (cases b) (simp_all add: layout_defs PPN_def drop_bit_eq_div)
  ultimately show ?thesis by (simp add: pa2page_def)
qed

theorem page_address_roundtrip_witness:
  "(7 :: u64) < NPAGE Kernel \<and> 5 < PGSIZE \<and>
   pa2page (NBASE + NPAGE Kernel) NBASE (page2pa NBASE 7 + 5) = Inr 7"
proof -
  have h: "(7 :: u64) < NPAGE Kernel" "5 < PGSIZE" by (simp_all add: PGSIZE_def)
  with page_address_roundtrip [OF h] show ?thesis by blast
qed

text \<open>
  Rounding: \<open>ROUNDDOWN\<close> is the greatest multiple of \<open>n\<close> that is at most \<open>a\<close>, and \<open>ROUNDUP\<close> the
  least that is at least \<open>a\<close> when \<open>a + n\<close> does not wrap around.
\<close>

theorem rounding_correct:
  assumes "0 < n"
  shows "n dvd (ROUNDDOWN a n) \<and> unat n dvd unat (ROUNDDOWN a n) \<and> ROUNDDOWN a n \<le> a \<and>
    unat a < unat (ROUNDDOWN a n) + unat n \<and>
    (unat a + unat n < 2 ^ 64 \<longrightarrow>
       unat n dvd unat (ROUNDUP a n) \<and> a \<le> ROUNDUP a n \<and> unat (ROUNDUP a n) < unat a + unat n)"
proof -
  have n: "0 < unat n" using assms by (simp add: word_less_nat_alt)
  have down: "unat (ROUNDDOWN a n) = unat a div unat n * unat n"
    using assms by (simp add: rounddown_unat minus_mod_eq_div_mult)
  have lt: "unat a < unat (ROUNDDOWN a n) + unat n"
    using n dividend_less_div_times [of "unat n" "unat a"] by (simp add: down)
  have "ROUNDDOWN a n = a div n * n" by (simp add: ROUNDDOWN_def minus_mod_eq_div_mult)
  then have "n dvd ROUNDDOWN a n" by simp
  moreover have "unat a + unat n < 2 ^ 64 \<Longrightarrow> unat a \<le> unat (ROUNDUP a n)"
    using roundup_unat [OF assms, of a] n dividend_less_div_times [of "unat n" "unat a + unat n - 1"]
    by simp
  moreover have "unat a + unat n < 2 ^ 64 \<Longrightarrow> unat (ROUNDUP a n) < unat a + unat n"
    using roundup_unat [OF assms, of a] n
    by (simp add: le_less_trans [OF div_times_less_eq_dividend])
  ultimately show ?thesis
    using lt by (auto simp: down word_le_nat_alt roundup_unat [OF assms])
qed

theorem rounding_correct_witness:
  "(0 :: u64) < PGSIZE \<and> ROUNDDOWN 5000 PGSIZE \<le> 5000 \<and> 5000 \<le> ROUNDUP 5000 PGSIZE"
proof -
  have h: "(0 :: u64) < PGSIZE" by (simp add: PGSIZE_def)
  with rounding_correct [OF h, of 5000] show ?thesis by (simp add: PGSIZE_def)
qed

end
