(* ===== verification/Pmm_Trace.thy ===== *)
theory Pmm_Trace
  imports Pmm_Spec
begin

text \<open>
  Whole runs of the allocator: the states a client reaches by calling the operations of
  \<open>default_pmm_manager\<close>, with the blocks it holds, when it gives back only blocks it holds. The
  start is the state \<open>page_init\<close> leaves: every page reserved, none allocated, counter zero.
\<close>

section \<open>Runs\<close>

type_synonym block = "nat \<times> nat"

definition block_frames :: "block \<Rightarrow> nat set" where
  "block_frames k = {fst k..<fst k + snd k}"

inductive pmm_run :: "build \<Rightarrow> mm \<Rightarrow> block list \<Rightarrow> bool" for b where
  boot: "mm_ok b m \<Longrightarrow> (\<And>i. i < unat (NPAGE b) \<Longrightarrow> reserved m i \<and> \<not> allocated m i) \<Longrightarrow>
    pmm_run b (default_init m) []"
| memmap: "pmm_run b m L \<Longrightarrow> default_init_memmap b base n m = Inr (r, m') \<Longrightarrow> pmm_run b m' L"
| alloc: "pmm_run b m L \<Longrightarrow> default_alloc_pages b n m = Inr (p, m') \<Longrightarrow> p \<noteq> NULLPAGE \<Longrightarrow>
    pmm_run b m' ((unat p, unat n) # L)"
| fail: "pmm_run b m L \<Longrightarrow> default_alloc_pages b n m = Inr (NULLPAGE, m') \<Longrightarrow> pmm_run b m' L"
| free: "pmm_run b m L \<Longrightarrow> (unat base, unat n) \<in> set L \<Longrightarrow>
    default_free_pages b base n m = Inr m' \<Longrightarrow>
    pmm_run b m' (remove1 (unat base, unat n) L)"

inductive_cases pmm_runE: "pmm_run b m L"

section \<open>The invariant of a run\<close>

text \<open>
  The live blocks are non-empty and pairwise disjoint, and together they are exactly the
  allocated frames, none of which is reserved.
\<close>

fun disjoint_blocks :: "block list \<Rightarrow> bool" where
  "disjoint_blocks [] = True"
| "disjoint_blocks (k # ks) \<longleftrightarrow>
     block_frames k \<noteq> {} \<and> (\<forall>j \<in> set ks. block_frames k \<inter> block_frames j = {}) \<and> disjoint_blocks ks"

definition run_inv :: "build \<Rightarrow> mm \<Rightarrow> block list \<Rightarrow> bool" where
  "run_inv b m L \<longleftrightarrow> pmm_inv b m \<and> disjoint_blocks L \<and>
     alc (frames_of b m) = \<Union> (block_frames ` set L) \<and>
     alc (frames_of b m) \<inter> rsv (frames_of b m) = {}"

lemma disjoint_blocks_remove1:
  assumes "disjoint_blocks L" and "k \<in> set L"
  shows "disjoint_blocks (remove1 k L) \<and>
    \<Union> (block_frames ` set (remove1 k L)) = \<Union> (block_frames ` set L) - block_frames k \<and>
    block_frames k \<noteq> {}"
  using assms
proof (induction L)
  case (Cons j L)
  show ?case
  proof (cases "j = k")
    case True
    with Cons.prems(1) show ?thesis by auto
  next
    case False
    with Cons have "disjoint_blocks (remove1 k L) \<and>
      \<Union> (block_frames ` set (remove1 k L)) = \<Union> (block_frames ` set L) - block_frames k \<and>
      block_frames k \<noteq> {}" and "block_frames j \<inter> block_frames k = {}" by auto
    with False Cons.prems(1) show ?thesis by (auto dest: notin_set_remove1)
  qed
qed simp

lemma boot_inv:
  assumes "mm_ok b m" and "\<And>i. i < unat (NPAGE b) \<Longrightarrow> reserved m i \<and> \<not> allocated m i"
  shows "run_inv b (default_init m) []"
proof -
  have "{i. i < unat (NPAGE b) \<and> available m i} = {}"
    using assms(2) by (auto simp: available_def)
  then show ?thesis
    using assms by (auto simp: run_inv_def pmm_inv_def mm_ok_def default_init_def frames_of_def)
qed

lemma run_inv_step:
  assumes "pmm_run b m L"
  shows "run_inv b m L"
  using assms
proof (induction rule: pmm_run.induct)
  case (boot m)
  then show ?case by (rule boot_inv)
next
  case (memmap m L base n r m')
  then show ?case
    using default_mgr.memmap_law [of b m base n]
    by (auto simp: run_inv_def open_frames_def split: if_splits)
next
  case (alloc m L n p m')
  then have "pmm_inv b m" by (simp add: run_inv_def)
  note a = default_mgr.alloc_block [OF this alloc.hyps(2,3)]
  have new: "block_frames (unat p, unat n) = {unat p..<unat p + unat n}" by (simp add: block_frames_def)
  have "block_frames (unat p, unat n) \<inter> block_frames j = {}" if "j \<in> set L" for j
    using that a(3) alloc.IH new by (auto simp: run_inv_def frames_free_def)
  with alloc.IH a new show ?case
    by (auto simp: run_inv_def frames_free_def)
next
  case (fail m L n m')
  then show ?case
    using default_mgr.alloc_law [of b m n] by (auto simp: run_inv_def alloc_frames_None)
next
  case (free m L base n m')
  let ?k = "(unat base, unat n)"
  have inv: "pmm_inv b m" and dis: "disjoint_blocks L"
    and alc: "alc (frames_of b m) = \<Union> (block_frames ` set L)"
    and rsv: "alc (frames_of b m) \<inter> rsv (frames_of b m) = {}"
    using free.IH by (auto simp: run_inv_def)
  from disjoint_blocks_remove1 [OF dis free.hyps(2)]
  have rem: "disjoint_blocks (remove1 ?k L)"
    "\<Union> (block_frames ` set (remove1 ?k L)) = \<Union> (block_frames ` set L) - block_frames ?k"
    "block_frames ?k \<noteq> {}" by blast+
  have k: "block_frames ?k = {unat base..<unat base + unat n}" by (simp add: block_frames_def)
  then have n: "0 < unat n" using rem(3) by simp
  have sub: "{unat base..<unat base + unat n} \<subseteq> alc (frames_of b m)"
    using alc free.hyps(2) k by blast
  moreover have "alc (frames_of b m) \<subseteq> {..<unat (NPAGE b)}" by (auto simp: frames_of_def)
  ultimately have "{unat base..<unat base + unat n} \<subseteq>
      {..<unat (NPAGE b)} \<inter> alc (frames_of b m) - rsv (frames_of b m)" using rsv by blast
  from default_mgr.free_law [OF inv n this] free.hyps(3)
  have "pmm_inv b m'" and "frames_of b m' = release_frames (unat base) (unat n) (frames_of b m)"
    by auto
  with rem alc rsv k show ?case by (auto simp: run_inv_def release_frames_def)
qed

lemma card_blocks:
  "disjoint_blocks L \<Longrightarrow> card (\<Union> (block_frames ` set L)) = sum_list (map snd L)"
proof (induction L)
  case (Cons k L)
  have "finite (\<Union> (block_frames ` set L))" by (simp add: block_frames_def)
  moreover have "block_frames k \<inter> \<Union> (block_frames ` set L) = {}" using Cons.prems by auto
  ultimately show ?case using Cons by (simp add: card_Un_disjoint block_frames_def)
qed simp

lemma run_inv_accounts:
  assumes "run_inv b m L"
  shows "unat (nr_free m) + sum_list (map snd L) + card (rsv (frames_of b m)) = unat (NPAGE b)"
proof -
  let ?a = "frames_of b m" and ?N = "unat (NPAGE b)"
  have parts: "{..<?N} = frames_free ?N ?a \<union> alc ?a \<union> rsv ?a"
    by (auto simp: frames_free_def frames_of_def)
  have fin: "finite (alc ?a)" "finite (rsv ?a)" by (auto simp: frames_of_def)
  have dis: "frames_free ?N ?a \<inter> alc ?a = {}" "(frames_free ?N ?a \<union> alc ?a) \<inter> rsv ?a = {}"
    using assms by (auto simp: frames_free_def run_inv_def)
  have "card {..<?N} = card (frames_free ?N ?a) + card (alc ?a) + card (rsv ?a)"
    unfolding parts using fin dis by (simp add: card_Un_disjoint)
  moreover have "card (alc ?a) = sum_list (map snd L)"
    using assms by (simp add: run_inv_def card_blocks)
  moreover have "unat (nr_free m) = card (frames_free ?N ?a)"
    using assms by (intro pmm_inv_count) (simp add: run_inv_def)
  ultimately show ?thesis by simp
qed

section \<open>Properties\<close>

definition boot_mm :: mm where
  "boot_mm = \<lparr>pages = replicate 5 \<lparr>flags = 1\<rparr>, nr_free = 77\<rparr>"

definition demo_run_mm :: mm where
  "demo_run_mm = \<lparr>pages = [\<lparr>flags = 1\<rparr>, \<lparr>flags = 2\<rparr>, \<lparr>flags = 2\<rparr>, \<lparr>flags = 0\<rparr>, \<lparr>flags = 0\<rparr>],
     nr_free = 2\<rparr>"

lemma demo_run: "pmm_run Verif demo_run_mm [(1, 2)]"
proof -
  let ?m1 = "\<lparr>pages = [\<lparr>flags = 1\<rparr>, \<lparr>flags = 0\<rparr>, \<lparr>flags = 0\<rparr>, \<lparr>flags = 0\<rparr>, \<lparr>flags = 0\<rparr>], nr_free = 4\<rparr>"
  have "list_all (\<lambda>i. reserved boot_mm i \<and> \<not> allocated boot_mm i) [0..<5]" by code_simp
  then have "pmm_run Verif (default_init boot_mm) []"
    by (intro pmm_run.boot) (auto simp: list_all_iff mm_ok_def boot_mm_def)
  moreover have "default_init_memmap Verif 1 4 (default_init boot_mm) = Inr (0, ?m1)" by code_simp
  ultimately have "pmm_run Verif ?m1 []" by (rule pmm_run.memmap)
  moreover have "default_alloc_pages Verif 2 ?m1 = Inr (1, demo_run_mm)" by code_simp
  moreover have "(1 :: u64) \<noteq> NULLPAGE" by code_simp
  ultimately have "pmm_run Verif demo_run_mm ((unat (1 :: u64), unat (2 :: u64)) # [])"
    by (rule pmm_run.alloc)
  then show ?thesis by simp
qed

text \<open>
  C4. In every state a client can reach, whatever it calls and in whatever order, as long as it
  frees only blocks it holds: the blocks it holds are non-empty and pairwise disjoint, their pages
  exist, are allocated and not reserved, and the counter, the pages it holds and the reserved
  pages add up to \<open>NPAGE\<close>.
\<close>

theorem pmm_run_blocks_disjoint:
  assumes "pmm_run b m L"
  shows "disjoint_blocks L \<and>
    (\<forall>k \<in> set L. \<forall>i \<in> block_frames k. i < unat (NPAGE b) \<and> allocated m i \<and> \<not> reserved m i) \<and>
    unat (nr_free m) + sum_list (map snd L) + card (rsv (frames_of b m)) = unat (NPAGE b)"
proof (intro conjI)
  have inv: "run_inv b m L" using assms by (rule run_inv_step)
  then show "disjoint_blocks L" by (simp add: run_inv_def)
  have "\<forall>k \<in> set L. \<forall>i \<in> block_frames k. i \<in> alc (frames_of b m) \<and> i \<notin> rsv (frames_of b m)"
    using inv unfolding run_inv_def by blast
  then show "\<forall>k \<in> set L. \<forall>i \<in> block_frames k. i < unat (NPAGE b) \<and> allocated m i \<and> \<not> reserved m i"
    by (fastforce simp: frames_of_def)
  show "unat (nr_free m) + sum_list (map snd L) + card (rsv (frames_of b m)) = unat (NPAGE b)"
    using inv by (rule run_inv_accounts)
qed

theorem pmm_run_blocks_disjoint_witness:
  "pmm_run Verif demo_run_mm [(1, 2)] \<and> allocated demo_run_mm 2 \<and>
   unat (nr_free demo_run_mm) + 2 + card (rsv (frames_of Verif demo_run_mm)) = 5"
  using demo_run pmm_run_blocks_disjoint [OF demo_run] by (simp add: block_frames_def)

text \<open>
  C31. What a reachable state grants: a request for \<open>n\<close> pages succeeds exactly when \<open>n\<close> is positive
  and some \<open>n\<close> consecutive pages are available, and then none of its pages belongs to a block that
  is already held.
\<close>

theorem pmm_run_alloc_fresh:
  assumes "pmm_run b m L"
  shows "\<exists>p m'. default_alloc_pages b n m = Inr (p, m') \<and>
    (p \<noteq> NULLPAGE \<longleftrightarrow> 0 < unat n \<and> (\<exists>i. free_run b m i (unat n))) \<and>
    (p \<noteq> NULLPAGE \<longrightarrow> (\<forall>k \<in> set L. block_frames k \<inter> {unat p..<unat p + unat n} = {}))"
proof -
  have inv: "run_inv b m L" using assms by (rule run_inv_step)
  then have pinv: "pmm_inv b m" by (simp add: run_inv_def)
  then obtain p m' where run: "default_alloc_pages b n m = Inr (p, m')"
    using default_mgr.alloc_law by blast
  have "block_frames k \<inter> {unat p..<unat p + unat n} = {}" if "p \<noteq> NULLPAGE" "k \<in> set L" for k
    using default_mgr.alloc_block(3) [OF pinv run that(1)] inv that(2)
    by (auto simp: run_inv_def frames_free_def)
  moreover have "p \<noteq> NULLPAGE \<longleftrightarrow> 0 < unat n \<and> (\<exists>i. free_run b m i (unat n))"
    using default_mgr.alloc_fails_iff [OF pinv run] frames_run_of [of "unat n" b m]
    by (cases "n = 0") (auto simp: unat_gt_0)
  ultimately show ?thesis using run by blast
qed

theorem pmm_run_alloc_fresh_witness:
  "pmm_run Verif demo_run_mm [(1, 2)] \<and>
   (\<exists>p m'. default_alloc_pages Verif 2 demo_run_mm = Inr (p, m') \<and>
     (p \<noteq> NULLPAGE \<longleftrightarrow> (\<exists>i. free_run Verif demo_run_mm i 2)) \<and>
     (p \<noteq> NULLPAGE \<longrightarrow> block_frames (1, 2) \<inter> {unat p..<unat p + 2} = {}))"
  using demo_run pmm_run_alloc_fresh [OF demo_run, of 2] by simp

end
