(* ===== verification/Pmm.thy ===== *)
theory Pmm
  imports Stdio Mmu Pmm_Trace
begin

text \<open>
  The physical memory manager of \<open>kern/mm/pmm.c\<close>: the wrappers around the manager's operations,
  which run with interrupts off, the set-up of the page array from the kernel's size, and the
  start-up self-test that \<open>kern/mm/default_pmm.c\<close> adds to the allocator. The record \<open>kernel\<close> extends
  the hardware and the console by the kernel's global variables.
\<close>

section \<open>Kernel state\<close>

text \<open>
  \<open>pmm_manager\<close> is a struct of function pointers that is either still zero or a copy of
  \<open>default_pmm_manager\<close>; calling a null pointer is a fault.
\<close>

datatype pmm_manager = No_manager | Default_pmm_manager

record kernel = tty +
  kmm :: mm
  npage :: size_t
  nbase :: size_t
  va_pa_offset :: u64
  satp_virtual :: uintptr_t
  satp_physical :: uintptr_t
  manager :: pmm_manager
  ticks :: size_t
  is_panic :: bool

definition on_mm :: "(mm \<Rightarrow> ('r \<times> mm) res) \<Rightarrow> kernel \<Rightarrow> ('r \<times> kernel) res" where
  "on_mm f k = res_bind (f (kmm k)) (\<lambda>(r, m). Inr (r, k\<lparr>kmm := m\<rparr>))"

definition mgr_call :: "(kernel \<Rightarrow> 'a res) \<Rightarrow> kernel \<Rightarrow> 'a res" where
  "mgr_call default_op k = (case manager k of No_manager \<Rightarrow> Inl NullCall | Default_pmm_manager \<Rightarrow> default_op k)"

definition assert_c :: "bool \<Rightarrow> string \<Rightarrow> unit res" where
  "assert_c x msg = (if \<not> x then Inl (Panic (''assertion failed: '' @ msg)) else Inr ())"

section \<open>Wrappers\<close>

definition init_memmap :: "build \<Rightarrow> size_t \<Rightarrow> size_t \<Rightarrow> kernel \<Rightarrow> (u64 \<times> kernel) res" where
  "init_memmap b base n = mgr_call (on_mm (default_init_memmap b base n))"

definition alloc_pages :: "build \<Rightarrow> size_t \<Rightarrow> kernel \<Rightarrow> (size_t \<times> kernel) res" where
  "alloc_pages b n = with_intr_saved (mgr_call (on_mm (default_alloc_pages b n)))"

definition free_pages :: "build \<Rightarrow> size_t \<Rightarrow> size_t \<Rightarrow> kernel \<Rightarrow> kernel res" where
  "free_pages b base n k =
     res_bind (with_intr_saved (mgr_call (on_mm (\<lambda>m.
       res_bind (default_free_pages b base n m) (\<lambda>m'. Inr ((), m'))))) k) (\<lambda>(_, k'). Inr k')"

definition nr_free_pages :: "kernel \<Rightarrow> (size_t \<times> kernel) res" where
  "nr_free_pages = with_intr_saved (mgr_call (on_mm (\<lambda>m. Inr (default_nr_free_pages m, m))))"

definition alloc_page :: "build \<Rightarrow> kernel \<Rightarrow> (size_t \<times> kernel) res" where
  "alloc_page b = alloc_pages b 1"

definition free_page :: "build \<Rightarrow> size_t \<Rightarrow> kernel \<Rightarrow> kernel res" where
  "free_page b page = free_pages b page 1"

definition verify_magic :: u64 where
  "verify_magic = 0"

section \<open>The self-test (\<open>kern/mm/default_pmm.c\<close>)\<close>

definition basic_check :: "build \<Rightarrow> kernel \<Rightarrow> kernel res" where
  "basic_check b k0 =
     res_bind (alloc_page b k0) (\<lambda>(p0, k1).
     res_bind (assert_c (p0 \<noteq> NULLPAGE) ''(p0 = alloc_page()) != NULLPAGE'') (\<lambda>_.
     res_bind (alloc_page b k1) (\<lambda>(p1, k2).
     res_bind (assert_c (p1 \<noteq> NULLPAGE) ''(p1 = alloc_page()) != NULLPAGE'') (\<lambda>_.
     res_bind (alloc_page b k2) (\<lambda>(p2, k3).
     res_bind (assert_c (p2 \<noteq> NULLPAGE) ''(p2 = alloc_page()) != NULLPAGE'') (\<lambda>_.
     res_bind (assert_c (p0 \<noteq> p1 \<and> p0 \<noteq> p2 \<and> p1 \<noteq> p2) ''p0 != p1 && p0 != p2 && p1 != p2'') (\<lambda>_.
     res_bind (assert_c (page2pa (nbase k3) p0 < npage k3 * PGSIZE) ''page2pa(p0) < npage * PGSIZE'') (\<lambda>_.
     res_bind (assert_c (page2pa (nbase k3) p1 < npage k3 * PGSIZE) ''page2pa(p1) < npage * PGSIZE'') (\<lambda>_.
     res_bind (assert_c (page2pa (nbase k3) p2 < npage k3 * PGSIZE) ''page2pa(p2) < npage * PGSIZE'') (\<lambda>_.
     res_bind (free_page b p0 k3) (\<lambda>k4.
     res_bind (free_page b p1 k4) (\<lambda>k5.
     free_page b p2 k5))))))))))))"

text \<open>
  The two loops over all pages of \<open>default_check\<close>: \<open>step\<close> is \<open>++\<close> in the first and \<open>--\<close> in the second.
\<close>

definition check_loop ::
  "build \<Rightarrow> (size_t \<Rightarrow> size_t) \<Rightarrow> mm \<Rightarrow> size_t \<times> size_t \<Rightarrow> (size_t \<times> size_t, unit) ctl res" where
  "check_loop b step m =
     for_loop 0 (NPAGE b) (\<lambda>p (not_reserved, not_allocated).
       res_bind (PageReserved p m) (\<lambda>r.
         if \<not> r then
           res_bind (PageAllocated p m) (\<lambda>a.
             Inr (Next (step not_reserved, if \<not> a then step not_allocated else not_allocated)))
         else Inr (Next (not_reserved, not_allocated))))"

definition default_check :: "build \<Rightarrow> kernel \<Rightarrow> kernel res" where
  "default_check b k0 =
     after_loop (check_loop b (\<lambda>c. c + 1) (kmm k0) (0, 0)) (\<lambda>_. Inr k0) (\<lambda>(not_reserved, not_allocated).
     res_bind (nr_free_pages k0) (\<lambda>(nr, k1).
     res_bind (assert_c (not_allocated = nr) ''not_allocated == nr_free_pages()'') (\<lambda>_.
     res_bind (basic_check b k1) (\<lambda>k2.
     res_bind (alloc_pages b 5 k2) (\<lambda>(p0, k3).
     res_bind (assert_c (p0 \<noteq> NULLPAGE) ''p0 != NULLPAGE'') (\<lambda>_.
     res_bind (PageAllocated p0 (kmm k3)) (\<lambda>a.
     res_bind (assert_c a ''PageAllocated(p0)'') (\<lambda>_.
     res_bind (free_pages b p0 5 k3) (\<lambda>k4.
     after_loop (check_loop b (\<lambda>c. c - 1) (kmm k4) (not_reserved, not_allocated)) (\<lambda>_. Inr k4)
       (\<lambda>(not_reserved, not_allocated).
     res_bind (assert_c (not_reserved = 0) ''not_reserved == 0'') (\<lambda>_.
     res_bind (assert_c (not_allocated = 0) ''not_allocated == 0'') (\<lambda>_.
     Inr k4))))))))))))"

section \<open>Set-up\<close>

definition default_pmm_manager_name :: string where
  "default_pmm_manager_name = ''default_pmm_manager''"

definition init_pmm_manager :: "build \<Rightarrow> platform \<Rightarrow> kernel \<Rightarrow> kernel res" where
  "init_pmm_manager b P k =
     (let k1 = k\<lparr>manager := Default_pmm_manager\<rparr>
      in res_bind (cprintf b P ''memory management: %s\<newline>'' [Str (Some default_pmm_manager_name)] k1) (\<lambda>(_, k2).
         mgr_call (\<lambda>k. Inr (k\<lparr>kmm := default_init (kmm k)\<rparr>)) k2))"

definition page_init_loop :: "build \<Rightarrow> mm \<Rightarrow> (mm, unit) ctl res" where
  "page_init_loop b m =
     for_loop 0 (NPAGE b) (\<lambda>i m.
       res_bind (on_page_flags (\<lambda>_. Inr [0]) i m) (\<lambda>m1.
       res_bind (SetPageReserved i m1) (\<lambda>m2. Inr (Next m2)))) m"

definition page_init :: "build \<Rightarrow> platform \<Rightarrow> kernel \<Rightarrow> kernel res" where
  "page_init b P k =
     (let k1 = k\<lparr>va_pa_offset := PHYSICAL_MEMORY_OFFSET, nbase := NBASE, npage := NBASE + NPAGE b\<rparr>;
          mem_begin = KERNEL_BEGIN_PADDR;
          mem_size = KERNEL_MEMEND_PADDR b - KERNEL_BEGIN_PADDR;
          mem_end = KERNEL_MEMEND_PADDR b
      in
      res_bind (cprintf b P ''physcial memory:\<newline>'' [] k1) (\<lambda>(_, k2).
      res_bind (cprintf b P ''  memory: 0x%016lx, [0x%016lx, 0x%016lx].\<newline>''
                  [Num mem_size, Num mem_begin, Num (mem_end - 1)] k2) (\<lambda>(_, k3).
      after_loop (page_init_loop b (kmm k3)) (\<lambda>_. Inr k3) (\<lambda>m.
      let k4 = k3\<lparr>kmm := m\<rparr> in
      res_bind (PADDR (va_pa_offset k4) (sym_end P)) (\<lambda>freemem.
      let mem_begin = ROUNDUP freemem PGSIZE;
          mem_end = ROUNDDOWN mem_end PGSIZE;
          mem_end = (if mem_end > npage k4 * PGSIZE then npage k4 * PGSIZE else mem_end)
      in
      if freemem < mem_end then
        res_bind (pa2page (npage k4) (nbase k4) mem_begin) (\<lambda>base.
        res_bind (init_memmap b base ((mem_end - mem_begin) div PGSIZE) k4) (\<lambda>(init_ret, k5).
        res_bind (assert_c (init_ret = 0) ''init_ret == 0'') (\<lambda>_.
        res_bind (cprintf b P ''free memory :\<newline>'' [] k5) (\<lambda>(_, k6).
        res_bind (cprintf b P ''  memory: 0x%016lx, [0x%016lx, 0x%016lx].\<newline>''
                    [Num (mem_end - mem_begin), Num mem_begin, Num (mem_end - 1)] k6) (\<lambda>(_, k7).
        Inr k7)))))
      else Inr k4)))))"

definition check_alloc_page :: "build \<Rightarrow> platform \<Rightarrow> kernel \<Rightarrow> kernel res" where
  "check_alloc_page b P k =
     res_bind (mgr_call (default_check b) k) (\<lambda>k1.
     res_bind (cprintf b P ''check_alloc_page() succeeded!\<newline>'' [] k1) (\<lambda>(_, k2). Inr k2))"

definition pmm_init :: "build \<Rightarrow> platform \<Rightarrow> kernel \<Rightarrow> kernel res" where
  "pmm_init b P k =
     res_bind (init_pmm_manager b P k) (\<lambda>k1.
     res_bind (page_init b P k1) (\<lambda>k2.
     res_bind (check_alloc_page b P k2) (\<lambda>k3.
     let k4 = k3\<lparr>satp_virtual := sym_boot_page_table_sv39 P\<rparr> in
     res_bind (PADDR (va_pa_offset k4) (satp_virtual k4)) (\<lambda>pa.
     let k5 = k4\<lparr>satp_physical := pa\<rparr> in
     res_bind (cprintf b P ''satp virtual address: 0x%016lx\<newline>satp physical address: 0x%016lx\<newline>''
                 [Num (satp_virtual k5), Num (satp_physical k5)] k5) (\<lambda>(_, k6).
     Inr k6)))))"

section \<open>The wrappers\<close>

text \<open>
  A critical section is the same whether or not its body is guarded by a test that interrupts are off:
  the body never runs with interrupts on.
\<close>

lemma with_intr_saved_guard:
  "with_intr_saved body h = with_intr_saved (\<lambda>s. if intr_on s then Inl e else body s) h"
  using sync.save_off [of h] by (cases "intr_save h") (simp add: with_intr_saved_def)

lemma intr_restore_save:
  "intr_save k = (flag, k1) \<Longrightarrow> intr_restore flag (k1\<lparr>kmm := m\<rparr>) = k\<lparr>kmm := m\<rparr>"
proof (cases flag)
  case True
  assume "intr_save k = (flag, k1)"
  with True have on: "intr_on k" and k1: "k1 = intr_disable k"
    by (auto simp: intr_save_def read_csr_def and_SIE intr_on_def split: if_splits)
  then have "(csrs k1)(Sstatus := csrs k1 Sstatus OR SSTATUS_SIE) = csrs k"
    by (auto simp: intr_disable_def clear_csr_def intr_on_def sie_roundtrip fun_eq_iff)
  with True k1 show ?thesis
    by (simp add: intr_restore_def intr_enable_def set_csr_def intr_disable_def clear_csr_def)
qed (auto simp: intr_save_def intr_restore_def split: if_splits)

lemma intr_save_fields:
  "intr_save k = (flag, k1) \<Longrightarrow> kmm k1 = kmm k \<and> manager k1 = manager k"
  by (auto simp: intr_save_def intr_disable_def clear_csr_def split: if_splits)

lemma wrapped_call:
  "with_intr_saved (mgr_call (on_mm f)) k =
     (case manager k of
        No_manager \<Rightarrow> Inl NullCall
      | Default_pmm_manager \<Rightarrow> res_bind (f (kmm k)) (\<lambda>(r, m). Inr (r, k\<lparr>kmm := m\<rparr>)))"
proof -
  obtain flag k1 where sv: "intr_save k = (flag, k1)" by force
  have "intr_restore flag (k1\<lparr>kmm := m\<rparr>) = k\<lparr>kmm := m\<rparr>" for m
    using sv by (rule intr_restore_save)
  then show ?thesis
    using intr_save_fields [OF sv]
    by (simp add: with_intr_saved_def sv mgr_call_def on_mm_def res_bind_def
        split: pmm_manager.split sum.split prod.split)
qed

lemma kernel_kmm_same [simp]: "k\<lparr>kmm := kmm k\<rparr> = k"
  by simp

lemma wrappers_result:
  assumes "manager k = Default_pmm_manager"
  shows "alloc_pages b n k = res_bind (default_alloc_pages b n (kmm k)) (\<lambda>(p, m). Inr (p, k\<lparr>kmm := m\<rparr>))"
    and "free_pages b base n k = res_bind (default_free_pages b base n (kmm k)) (\<lambda>m. Inr (k\<lparr>kmm := m\<rparr>))"
    and "nr_free_pages k = Inr (nr_free (kmm k), k)"
  using assms by (simp_all add: alloc_pages_def free_pages_def nr_free_pages_def wrapped_call
      default_nr_free_pages_def res_bind_assoc)

section \<open>The self-test passes\<close>

text \<open>Marking and unmarking one page, with the counter.\<close>

definition mark :: "nat \<Rightarrow> mm \<Rightarrow> mm" where
  "mark i m = (upd_page set_alc i m)\<lparr>nr_free := nr_free m - 1\<rparr>"

definition unmark :: "nat \<Rightarrow> mm \<Rightarrow> mm" where
  "unmark i m = (upd_page clr_alc i m)\<lparr>nr_free := nr_free m + 1\<rparr>"

lemma mark_ok [simp]: "mm_ok b (mark i m) = mm_ok b m" "mm_ok b (unmark i m) = mm_ok b m"
  by (simp_all add: mark_def unmark_def mm_ok_def)

lemma unmark_mark:
  assumes "i < length (pages m)" and "available m i"
  shows "unmark i (mark i m) = m"
proof -
  have "clr_alc (set_alc (flags (pages m ! i))) = flags (pages m ! i)"
    using assms by (intro clr_set_alc) (simp add: available_def allocated_def)
  then show ?thesis using assms(1) by (simp add: mark_def unmark_def upd_page_def)
qed

lemma unmark_mark_other: "i \<noteq> j \<Longrightarrow> unmark i (mark j m) = mark j (unmark i m)"
  by (simp add: mark_def unmark_def upd_page_def list_update_swap)

lemma available_mark:
  assumes "i < length (pages m)" and "j < length (pages m)"
  shows "available (mark i m) j \<longleftrightarrow> available m j \<and> j \<noteq> i"
  using assms by (auto simp: mark_def available_def reserved_def allocated_def upd_page_flags flag_bits
      flag_bits [unfolded One_nat_def])

lemma upd_range_one: "i < length (pages m) \<Longrightarrow> upd_range f i (Suc i) m = upd_page f i m"
  by (simp add: upd_range_Suc upd_range_empty)

lemma unat_page: "i < unat (NPAGE b) \<Longrightarrow> unat (of_nat i :: u64) = i"
  using NPAGE_bounds(2) [of b] by (intro unat_of_nat_u64) simp

lemma alloc_page_result:
  assumes "manager k = Default_pmm_manager" and ok: "mm_ok b (kmm k)"
    and "j < unat (NPAGE b)" and "available (kmm k) j"
  obtains i where "alloc_page b k = Inr (of_nat i, k\<lparr>kmm := mark i (kmm k)\<rparr>)"
    and "i < unat (NPAGE b)" and "available (kmm k) i"
proof -
  have run: "free_run b (kmm k) j (unat (1 :: u64))"
    using assms(3,4) by (auto simp: free_run_def less_Suc_eq_le dest: le_antisym)
  from ok show ?thesis
  proof (cases rule: default_alloc_pages_cases [where n = 1])
    case none
    then show ?thesis using run by auto
  next
    case (found i)
    then have "i < unat (NPAGE b)" "available (kmm k) i" by (auto simp: free_run_def)
    then show ?thesis
      using that [of i] found(4) assms(1) ok
      by (simp add: alloc_page_def wrappers_result upd_range_one mark_def mm_ok_def)
  qed
qed

lemma free_page_result:
  assumes "manager k = Default_pmm_manager" and "mm_ok b (kmm k)" and "i < unat (NPAGE b)"
  shows "free_page b (of_nat i) k = Inr (k\<lparr>kmm := unmark i (kmm k)\<rparr>)"
  using assms unat_page [OF assms(3)]
  by (simp add: free_page_def wrappers_result default_free_pages_result word_less_nat_alt
      upd_range_one unmark_def mm_ok_def)

lemma page_below_memend:
  assumes "i < unat (NPAGE b)"
  shows "page2pa NBASE (of_nat i) < (NBASE + NPAGE b) * PGSIZE"
proof -
  have "i \<le> 4096" using assms NPAGE_bounds(2) [of b] by simp
  then have "unat (page2pa NBASE (of_nat i)) = 0x80200000 + i * 4096"
    using page2pa_unat [of "of_nat i"] unat_page [OF assms] by (simp add: KERNEL_BEGIN_PADDR_def)
  moreover have "unat ((NBASE + NPAGE b) * PGSIZE) = 0x80200000 + unat (NPAGE b) * 4096"
    by (cases b) (simp_all add: layout_defs drop_bit_eq_div)
  ultimately show ?thesis using assms by (simp add: word_less_nat_alt)
qed

lemma of_nat_page_eq:
  "i < unat (NPAGE b) \<Longrightarrow> j < unat (NPAGE b) \<Longrightarrow> (of_nat i :: u64) = of_nat j \<longleftrightarrow> i = j"
  by (metis unat_page)

lemma of_nat_page_null: "i < unat (NPAGE b) \<Longrightarrow> (of_nat i :: u64) \<noteq> NULLPAGE"
  using unat_page [of i b] NPAGE_less_NULLPAGE [of b] by auto

lemma assert_true [simp]: "assert_c True msg = Inr ()"
  by (simp add: assert_c_def)

text \<open>The state of the memory manager that the checks rely on.\<close>

definition pmm_ready :: "build \<Rightarrow> kernel \<Rightarrow> bool" where
  "pmm_ready b k \<longleftrightarrow> manager k = Default_pmm_manager \<and> pmm_inv b (kmm k) \<and>
     nbase k = NBASE \<and> npage k = NBASE + NPAGE b"

lemma alloc_three:
  assumes mgr: "manager k = Default_pmm_manager" and ok: "mm_ok b (kmm k)"
    and run: "free_run b (kmm k) j 3"
  obtains i0 i1 i2 where "alloc_page b k = Inr (of_nat i0, k\<lparr>kmm := mark i0 (kmm k)\<rparr>)"
    and "alloc_page b (k\<lparr>kmm := mark i0 (kmm k)\<rparr>) =
      Inr (of_nat i1, k\<lparr>kmm := mark i1 (mark i0 (kmm k))\<rparr>)"
    and "alloc_page b (k\<lparr>kmm := mark i1 (mark i0 (kmm k))\<rparr>) =
      Inr (of_nat i2, k\<lparr>kmm := mark i2 (mark i1 (mark i0 (kmm k)))\<rparr>)"
    and "distinct [i0, i1, i2]"
    and "\<forall>i \<in> {i0, i1, i2}. i < unat (NPAGE b) \<and> available (kmm k) i"
proof -
  let ?m = "kmm k"
  have len: "length (pages ?m) = unat (NPAGE b)" using ok by (simp add: mm_ok_def)
  have av: "available ?m j" "available ?m (j + 1)" "available ?m (j + 2)" and jb: "j + 2 < unat (NPAGE b)"
    using run by (auto simp: free_run_def)
  obtain i0 where a0: "alloc_page b k = Inr (of_nat i0, k\<lparr>kmm := mark i0 ?m\<rparr>)"
    and i0: "i0 < unat (NPAGE b)" "available ?m i0"
    using alloc_page_result [OF mgr ok _ av(1)] jb by auto
  let ?m1 = "mark i0 ?m" and ?k1 = "k\<lparr>kmm := mark i0 (kmm k)\<rparr>"
  have av1: "available ?m1 x \<longleftrightarrow> available ?m x \<and> x \<noteq> i0" if "x < unat (NPAGE b)" for x
    using that i0 len by (intro available_mark) auto
  obtain x1 where x1: "x1 < unat (NPAGE b)" "available ?m1 x1"
    using that [of j] that [of "j + 1"] av av1 [of j] av1 [of "j + 1"] jb by (cases "j = i0") simp_all
  obtain i1 where a1: "alloc_page b ?k1 = Inr (of_nat i1, k\<lparr>kmm := mark i1 ?m1\<rparr>)"
    and i1: "i1 < unat (NPAGE b)" "available ?m1 i1"
    using alloc_page_result [of ?k1 b x1] mgr ok x1 by auto
  let ?m2 = "mark i1 ?m1" and ?k2 = "k\<lparr>kmm := mark i1 (mark i0 (kmm k))\<rparr>"
  have len1: "length (pages ?m1) = unat (NPAGE b)" "length (pages ?m2) = unat (NPAGE b)"
    using len by (simp_all add: mark_def)
  have av2: "available ?m2 x \<longleftrightarrow> available ?m1 x \<and> x \<noteq> i1" if "x < unat (NPAGE b)" for x
    using that i1 len1 by (intro available_mark) auto
  have "\<exists>x < unat (NPAGE b). available ?m2 x"
  proof -
    have "{j, j + 1, j + 2} \<subseteq> {i0, i1} \<Longrightarrow> card {j, j + 1, j + 2} \<le> card {i0, i1}"
      by (rule card_mono) simp_all
    moreover have "card {j, j + 1, j + 2} = 3" and "card {i0, i1} \<le> 2" by (auto simp: card_insert_if)
    ultimately obtain x where "x \<in> {j, j + 1, j + 2}" "x \<noteq> i0" "x \<noteq> i1" by fastforce
    then show ?thesis using av av1 [of x] av2 [of x] jb by (intro exI [of _ x]) auto
  qed
  then obtain i2 where a2: "alloc_page b ?k2 = Inr (of_nat i2, k\<lparr>kmm := mark i2 ?m2\<rparr>)"
    and i2: "i2 < unat (NPAGE b)" "available ?m2 i2"
    using alloc_page_result [of ?k2 b] mgr ok by auto
  have "distinct [i0, i1, i2]" "\<forall>i \<in> {i0, i1, i2}. i < unat (NPAGE b) \<and> available ?m i"
    using i0 i1 i2 av1 av2 by auto
  then show ?thesis using that a0 a1 a2 by blast
qed

lemma basic_check_passes:
  assumes ready: "pmm_ready b k" and run: "free_run b (kmm k) j 3"
  shows "basic_check b k = Inr k"
proof -
  let ?m = "kmm k"
  have mgr: "manager k = Default_pmm_manager" and ok: "mm_ok b ?m" and nb: "nbase k = NBASE"
    and np: "npage k = NBASE + NPAGE b"
    using ready pmm_inv_ok by (auto simp: pmm_ready_def)
  obtain i0 i1 i2 where al: "alloc_page b k = Inr (of_nat i0, k\<lparr>kmm := mark i0 ?m\<rparr>)"
    "alloc_page b (k\<lparr>kmm := mark i0 ?m\<rparr>) = Inr (of_nat i1, k\<lparr>kmm := mark i1 (mark i0 ?m)\<rparr>)"
    "alloc_page b (k\<lparr>kmm := mark i1 (mark i0 ?m)\<rparr>) =
      Inr (of_nat i2, k\<lparr>kmm := mark i2 (mark i1 (mark i0 ?m))\<rparr>)"
    and ne: "distinct [i0, i1, i2]"
    and i: "\<forall>i \<in> {i0, i1, i2}. i < unat (NPAGE b) \<and> available (kmm k) i"
    by (rule alloc_three [OF mgr ok run])
  have len: "length (pages ?m) = unat (NPAGE b)" using ok by (simp add: mm_ok_def)
  have lt: "i0 < unat (NPAGE b)" "i1 < unat (NPAGE b)" "i2 < unat (NPAGE b)" using i by auto
  have undo: "unmark i2 (unmark i1 (unmark i0 (mark i2 (mark i1 (mark i0 ?m))))) = ?m"
    using ne i len by (simp add: unmark_mark_other unmark_mark)
  have "(of_nat i0 :: u64) \<noteq> of_nat i1 \<and> (of_nat i0 :: u64) \<noteq> of_nat i2 \<and> (of_nat i1 :: u64) \<noteq> of_nat i2"
    using ne lt by (simp add: of_nat_page_eq [of _ b])
  then show ?thesis
    using lt [THEN of_nat_page_null] lt [THEN page_below_memend]
    by (simp add: basic_check_def al nb np mgr ok free_page_result lt undo)
qed

text \<open>The counting loops.\<close>

lemma card_less_Suc_filter:
  "card {i. i < Suc q \<and> R i} = (if R q then Suc (card {i. i < q \<and> R i}) else card {i. i < q \<and> R i})"
proof (cases "R q")
  case True
  then have "{i. i < Suc q \<and> R i} = insert q {i. i < q \<and> R i}" by (auto simp: less_Suc_eq)
  then show ?thesis using True by simp
next
  case False
  then have "{i. i < Suc q \<and> R i} = {i. i < q \<and> R i}" by (auto simp: less_Suc_eq)
  then show ?thesis using False by simp
qed

lemma check_loop_result:
  assumes "mm_ok b m"
  shows "check_loop b step m (x, y) =
    Inr (Next ((step ^^ card {i. i < unat (NPAGE b) \<and> \<not> reserved m i}) x,
               (step ^^ card {i. i < unat (NPAGE b) \<and> available m i}) y))"
proof -
  let ?P = "\<lambda>q st. st = ((step ^^ card {i. i < unat q \<and> \<not> reserved m i}) x,
      (step ^^ card {i. i < unat q \<and> available m i}) y)"
  have "\<exists>t. check_loop b step m (x, y) = Inr (Next t) \<and> ?P (NPAGE b) t"
    unfolding check_loop_def
  proof (rule for_loop_Next [where P = ?P])
    fix q t
    assume t: "?P q t" and q: "q < NPAGE b"
    have "unat q < length (pages m)" using q assms by (simp add: mm_ok_def word_less_nat_alt)
    then have "PageReserved q m = Inr (reserved m (unat q))" "PageAllocated q m = Inr (allocated m (unat q))"
      by (simp_all add: mm_simps)
    then show "\<exists>t'. (case t of (not_reserved, not_allocated) \<Rightarrow>
        res_bind (PageReserved q m) (\<lambda>r. if \<not> r then
           res_bind (PageAllocated q m) (\<lambda>a.
             Inr (Next (step not_reserved, if \<not> a then step not_allocated else not_allocated)))
         else Inr (Next (not_reserved, not_allocated)))) = Inr (Next t') \<and> ?P (q + 1) t'"
      using t q by (simp add: unat_u64_Suc card_less_Suc_filter available_def)
  qed simp_all
  then show ?thesis by auto
qed

lemma count_up: "((\<lambda>c. c + 1) ^^ n) (0 :: u64) = of_nat n"
  by (induction n) simp_all

lemma count_down: "((\<lambda>c. c - 1) ^^ n) (of_nat n :: u64) = 0"
proof -
  have "((\<lambda>c. c - 1) ^^ n) x = x - of_nat n" for x :: u64
    by (induction n) (simp_all add: algebra_simps)
  then show ?thesis by simp
qed

lemma alloc_free_run:
  assumes mgr: "manager k = Default_pmm_manager" and ok: "mm_ok b (kmm k)" and n: "n \<noteq> 0"
    and run: "free_run b (kmm k) j (unat n)"
  obtains i m where "alloc_pages b n k = Inr (of_nat i, k\<lparr>kmm := m\<rparr>)" and "i < unat (NPAGE b)"
    and "mm_ok b m" and "allocated m i" and "free_pages b (of_nat i) n (k\<lparr>kmm := m\<rparr>) = Inr k"
  using ok
proof (cases rule: default_alloc_pages_cases [where n = n])
  case none
  then show ?thesis using run n by blast
next
  case (found i)
  let ?m = "(upd_range set_alc i (i + unat n) (kmm k))\<lparr>nr_free := nr_free (kmm k) - n\<rparr>"
  have i: "i < unat (NPAGE b)" and blk: "i + unat n \<le> unat (NPAGE b)"
    using found(1,2) by (auto simp: free_run_def)
  have len: "i < length (pages (kmm k))" using i ok by (simp add: mm_ok_def)
  have m_ok: "mm_ok b ?m" using ok by (simp add: mm_ok_def)
  have "free_pages b (of_nat i) n (k\<lparr>kmm := ?m\<rparr>) = Inr k"
    using mgr blk i n unat_page [OF i] alloc_free_pages_same [OF ok found(2)]
    by (simp add: wrappers_result default_free_pages_result [OF m_ok] word_less_nat_alt)
  moreover have "allocated ?m i" using found(1) len by (simp add: range_tests)
  moreover have "alloc_pages b n k = Inr (of_nat i, k\<lparr>kmm := ?m\<rparr>)"
    using mgr found(4) by (simp add: wrappers_result)
  ultimately show ?thesis using that i m_ok by blast
qed

lemma default_check_passes:
  assumes ready: "pmm_ready b k" and run: "free_run b (kmm k) j 5"
  shows "default_check b k = Inr k"
proof -
  have mgr: "manager k = Default_pmm_manager" and inv: "pmm_inv b (kmm k)"
    using ready by (auto simp: pmm_ready_def)
  note ok = pmm_inv_ok [OF inv]
  have run3: "free_run b (kmm k) j 3" and run5: "free_run b (kmm k) j (unat (5 :: u64))"
    using run by (auto simp: free_run_def)
  have cnt: "of_nat (card {i. i < unat (NPAGE b) \<and> available (kmm k) i}) = nr_free (kmm k)"
    using inv by (metis of_nat_unat_u64 pmm_inv_def)
  obtain i m where al: "alloc_pages b 5 k = Inr (of_nat i, k\<lparr>kmm := m\<rparr>)" and i: "i < unat (NPAGE b)"
    and m: "mm_ok b m" "allocated m i" and fr: "free_pages b (of_nat i) 5 (k\<lparr>kmm := m\<rparr>) = Inr k"
    using alloc_free_run [OF mgr ok _ run5] by auto
  have "PageAllocated (of_nat i) m = Inr True"
    using m i unat_page [OF i] by (simp add: mm_simps mm_ok_def)
  then show ?thesis
    by (simp add: default_check_def check_loop_result [OF ok] count_up cnt wrappers_result mgr
        basic_check_passes [OF ready run3] al of_nat_page_null [OF i] fr)
       (simp add: count_down flip: cnt)
qed

section \<open>Setting up the page array\<close>

lemma page_init_loop_result:
  assumes ok: "mm_ok b m"
  shows "page_init_loop b m = Inr (Next (upd_range (\<lambda>_. set_rsv 0) 0 (unat (NPAGE b)) m))"
proof -
  let ?P = "\<lambda>q t. t = upd_range (\<lambda>_. set_rsv 0) 0 (unat q) m"
  have "\<exists>t. page_init_loop b m = Inr (Next t) \<and> ?P (NPAGE b) t"
    unfolding page_init_loop_def
  proof (rule for_loop_Next [where P = ?P])
    fix q t
    assume t: "?P q t" and q: "q < NPAGE b"
    have rng: "unat q < length (pages m)" using q ok by (simp add: mm_ok_def word_less_nat_alt)
    have "on_page_flags (\<lambda>_. Inr [0]) q t = Inr (upd_page (\<lambda>_. 0) (unat q) t)"
      using rng t by (simp add: on_page_flags_in_range)
    moreover have "upd_page set_rsv (unat q) (upd_page (\<lambda>_. 0) (unat q) t) = upd_page (\<lambda>_. set_rsv 0) (unat q) t"
      using rng t by (simp add: upd_page_def)
    ultimately show "\<exists>t'. res_bind (on_page_flags (\<lambda>_. Inr [0]) q t)
        (\<lambda>m1. res_bind (SetPageReserved q m1) (\<lambda>m2. Inr (Next m2))) = Inr (Next t') \<and> ?P (q + 1) t'"
      using rng t q by (simp add: mm_simps unat_u64_Suc upd_range_Suc)
  qed (simp_all add: upd_range_empty)
  then show ?thesis by auto
qed

lemma all_reserved:
  assumes "mm_ok b m" and "i < unat (NPAGE b)"
  shows "reserved (upd_range (\<lambda>_. set_rsv 0) 0 (unat (NPAGE b)) m) i"
    and "\<not> allocated (upd_range (\<lambda>_. set_rsv 0) 0 (unat (NPAGE b)) m) i"
  using assms by (simp_all add: reserved_def allocated_def upd_range_flags mm_ok_def set_rsv_def bit_numeral_rec)

text \<open>Opening the pages from \<open>c\<close> on, after every page was reserved.\<close>

lemma open_tail:
  assumes ok: "mm_ok b m" and zero: "nr_free m = 0" and c: "c < unat (NPAGE b)"
    and base: "unat base = c" and n: "unat n = unat (NPAGE b) - c"
  obtains m' where "default_init_memmap b base n (upd_range (\<lambda>_. set_rsv 0) 0 (unat (NPAGE b)) m) = Inr (0, m')"
    and "pmm_inv b m'" and "\<forall>i < unat (NPAGE b). (reserved m' i \<longleftrightarrow> i < c) \<and> \<not> allocated m' i"
    and "pmm_run b m' []"
proof -
  let ?m0 = "upd_range (\<lambda>_. set_rsv 0) 0 (unat (NPAGE b)) m"
  have ok0: "mm_ok b ?m0" using ok by (simp add: mm_ok_def)
  have "{i. i < unat (NPAGE b) \<and> available ?m0 i} = {}"
    using all_reserved(1) [OF ok] by (auto simp: available_def)
  then have inv0: "pmm_inv b ?m0" using ok0 zero by (simp add: pmm_inv_def)
  have fr0: "rsv (frames_of b ?m0) = {..<unat (NPAGE b)}" "alc (frames_of b ?m0) = {}"
    using all_reserved [OF ok] by (auto simp: frames_of_def)
  have blk: "unat base + unat n = unat (NPAGE b)" "0 < unat n" using base n c by simp_all
  obtain r m' where im: "default_init_memmap b base n ?m0 = Inr (r, m')" and inv: "pmm_inv b m'"
    and r: "r = 0 \<longleftrightarrow> 0 < unat n \<and> {unat base..<unat base + unat n} \<subseteq>
        {..<unat (NPAGE b)} \<inter> rsv (frames_of b ?m0) - alc (frames_of b ?m0)"
    and fr: "frames_of b m' = (if r = 0 then open_frames (unat base) (unat n) (frames_of b ?m0) else frames_of b ?m0)"
    using default_memmap_law [OF inv0] by blast
  have r0: "r = 0" unfolding r fr0 using blk by auto
  then have "rsv (frames_of b m') = {..<c}" "alc (frames_of b m') = {}"
    using fr fr0 blk base c by (auto simp: open_frames_def)
  then have "\<forall>i < unat (NPAGE b). (reserved m' i \<longleftrightarrow> i < c) \<and> \<not> allocated m' i"
    by (auto simp: frames_of_def)
  moreover have "default_init ?m0 = ?m0" using zero by (intro mm.equality) (simp_all add: default_init_def)
  then have "pmm_run b ?m0 []" using pmm_run.boot [OF ok0] all_reserved [OF ok] by simp
  then have "pmm_run b m' []" by (rule pmm_run.memmap [OF _ im])
  ultimately show ?thesis using that im inv r0 by blast
qed

text \<open>The first page after the kernel image.\<close>

definition first_free :: "platform \<Rightarrow> nat" where
  "first_free P = (unat (sym_end P) - unat KERNBASE + 4095) div 4096"

lemma end_addresses:
  assumes "KERNBASE \<le> sym_end P" and "sym_end P < KERNTOP b"
  shows "unat (sym_end P - PHYSICAL_MEMORY_OFFSET) = 0x80200000 + (unat (sym_end P) - unat KERNBASE)"
    and "unat (ROUNDUP (sym_end P - PHYSICAL_MEMORY_OFFSET) PGSIZE) = 0x80200000 + first_free P * 4096"
    and "first_free P \<le> unat (NPAGE b)"
    and "sym_end P - PHYSICAL_MEMORY_OFFSET < KERNEL_MEMEND_PADDR b"
proof -
  let ?e = "unat (sym_end P) - unat KERNBASE"
  have kb: "unat KERNBASE = 0xFFFFFFFFC0200000" by (simp add: layout_defs)
  have ge: "0xFFFFFFFFC0200000 \<le> unat (sym_end P)" using assms(1) kb by (simp add: word_le_nat_alt)
  have lt: "unat (sym_end P) < 0xFFFFFFFFC0200000 + unat (NPAGE b) * 4096"
    using assms(2) by (cases b) (simp_all add: layout_defs word_less_nat_alt)
  have off: "unat PHYSICAL_MEMORY_OFFSET = 0xFFFFFFFF40000000" by (simp add: layout_defs)
  then have "PHYSICAL_MEMORY_OFFSET \<le> sym_end P" using ge by (simp add: word_le_nat_alt)
  then show fm: "unat (sym_end P - PHYSICAL_MEMORY_OFFSET) = 0x80200000 + ?e"
    using ge kb off by (simp add: unat_u64_sub)
  have e: "?e < unat (NPAGE b) * 4096" using lt ge kb by linarith
  have "unat (ROUNDUP (sym_end P - PHYSICAL_MEMORY_OFFSET) PGSIZE) = (0x80200000 + ?e + 4095) div 4096 * 4096"
    using roundup_unat [of PGSIZE "sym_end P - PHYSICAL_MEMORY_OFFSET"] fm e NPAGE_bounds(2) [of b]
    by (simp add: PGSIZE_def)
  also have "0x80200000 + ?e + 4095 = (?e + 4095) + 0x80200 * 4096" by simp
  also have "\<dots> div 4096 = 0x80200 + (?e + 4095) div 4096" by (subst div_mult_self1) simp_all
  finally show "unat (ROUNDUP (sym_end P - PHYSICAL_MEMORY_OFFSET) PGSIZE) = 0x80200000 + first_free P * 4096"
    by (simp add: first_free_def)
  show "first_free P \<le> unat (NPAGE b)" using e by (simp add: first_free_def)
  have "unat (KERNEL_MEMEND_PADDR b) = 0x80200000 + unat (NPAGE b) * 4096"
    by (cases b) (simp_all add: layout_defs)
  then show "sym_end P - PHYSICAL_MEMORY_OFFSET < KERNEL_MEMEND_PADDR b"
    using fm e by (simp add: word_less_nat_alt)
qed

lemma memend_facts:
  "ROUNDDOWN (KERNEL_MEMEND_PADDR b) PGSIZE = KERNEL_MEMEND_PADDR b"
  "(NBASE + NPAGE b) * PGSIZE = KERNEL_MEMEND_PADDR b"
  "unat (KERNEL_MEMEND_PADDR b) = 0x80200000 + unat (NPAGE b) * 4096"
  by (cases b; simp add: layout_defs ROUNDDOWN_def drop_bit_eq_div)+

lemma pa2page_of_address:
  assumes "unat pa = 0x80200000 + c * 4096" and "c \<le> unat (NPAGE b)"
  shows "pa2page (NBASE + NPAGE b) NBASE pa =
    (if c < unat (NPAGE b) then Inr (of_nat c) else Inl (Panic ''pa2page called with invalid pa''))"
proof -
  have "unat (PPN pa) = 0x80200 + c"
    unfolding PPN_def PGSHIFT_def using assms(1) by (simp add: drop_bit_eq_div unat_div)
  moreover have "unat (NBASE + NPAGE b) = 0x80200 + unat (NPAGE b)"
    by (cases b) (simp_all add: layout_defs drop_bit_eq_div)
  moreover have "unat NBASE = 0x80200" by (simp add: layout_defs drop_bit_eq_div)
  moreover have "PPN pa - NBASE = of_nat c"
    using calculation assms(2) NPAGE_bounds(2) [of b]
    by (simp add: word_unat_eq_iff unat_u64_sub word_le_nat_alt unat_of_nat_u64)
  ultimately show ?thesis by (simp add: pa2page_def word_le_nat_alt)
qed

text \<open>The messages of the set-up print without a fault.\<close>

lemma cprintf_ok_log:
  "format_ok fmt (map blank ap) \<Longrightarrow> \<exists>n l. cprintf b P fmt ap h = Inr (n, h\<lparr>sbi_log := l\<rparr>)"
  using cprintf_ok [of fmt ap b P h] unfolding log_only_def by metis

lemma pmm_messages_ok:
  "format_ok ''physcial memory:\<newline>'' (map blank [])"
  "format_ok ''free memory :\<newline>'' (map blank [])"
  "format_ok ''check_alloc_page() succeeded!\<newline>'' (map blank [])"
  "format_ok ''memory management: %s\<newline>'' (map blank [Str (Some s)])"
  "format_ok ''  memory: 0x%016lx, [0x%016lx, 0x%016lx].\<newline>'' (map blank [Num x, Num y, Num z])"
  "format_ok ''satp virtual address: 0x%016lx\<newline>satp physical address: 0x%016lx\<newline>'' (map blank [Num x, Num y])"
  by (code_simp)+

text \<open>The state when \<open>page_init\<close> starts to release memory, and what it does with it.\<close>

definition all_pages_reserved :: "build \<Rightarrow> sbi_req list \<Rightarrow> kernel \<Rightarrow> kernel" where
  "all_pages_reserved b l k = k\<lparr>va_pa_offset := PHYSICAL_MEMORY_OFFSET, nbase := NBASE,
     npage := NBASE + NPAGE b, sbi_log := l, kmm := upd_range (\<lambda>_. set_rsv 0) 0 (unat (NPAGE b)) (kmm k)\<rparr>"

definition release_memory :: "build \<Rightarrow> platform \<Rightarrow> u64 \<Rightarrow> kernel \<Rightarrow> kernel res" where
  "release_memory b P mem_begin k4 =
     res_bind (pa2page (NBASE + NPAGE b) NBASE mem_begin) (\<lambda>base.
     res_bind (init_memmap b base ((KERNEL_MEMEND_PADDR b - mem_begin) div PGSIZE) k4) (\<lambda>(init_ret, k5).
     res_bind (assert_c (init_ret = 0) ''init_ret == 0'') (\<lambda>_.
     res_bind (cprintf b P ''free memory :\<newline>'' [] k5) (\<lambda>(_, k6).
     res_bind (cprintf b P ''  memory: 0x%016lx, [0x%016lx, 0x%016lx].\<newline>''
       [Num (KERNEL_MEMEND_PADDR b - mem_begin), Num mem_begin, Num (KERNEL_MEMEND_PADDR b - 1)] k6)
       (\<lambda>(_, k7). Inr k7)))))"

lemma page_init_steps:
  assumes ok: "mm_ok b (kmm k)" and ge: "KERNBASE \<le> sym_end P" and lt: "sym_end P < KERNTOP b"
  obtains l where "page_init b P k = release_memory b P
    (ROUNDUP (sym_end P - PHYSICAL_MEMORY_OFFSET) PGSIZE) (all_pages_reserved b l k)"
proof -
  let ?k1 = "k\<lparr>va_pa_offset := PHYSICAL_MEMORY_OFFSET, nbase := NBASE, npage := NBASE + NPAGE b\<rparr>"
  obtain n1 l1 where p1: "cprintf b P ''physcial memory:\<newline>'' [] ?k1 = Inr (n1, ?k1\<lparr>sbi_log := l1\<rparr>)"
    using cprintf_ok_log [OF pmm_messages_ok(1)] by blast
  obtain n2 l2 where p2: "cprintf b P ''  memory: 0x%016lx, [0x%016lx, 0x%016lx].\<newline>''
        [Num (KERNEL_MEMEND_PADDR b - KERNEL_BEGIN_PADDR), Num KERNEL_BEGIN_PADDR, Num (KERNEL_MEMEND_PADDR b - 1)]
        (?k1\<lparr>sbi_log := l1\<rparr>) = Inr (n2, ?k1\<lparr>sbi_log := l2\<rparr>)"
    using cprintf_ok_log [OF pmm_messages_ok(5), of b P _ _ _ "?k1\<lparr>sbi_log := l1\<rparr>"] by fastforce
  have pd: "PADDR PHYSICAL_MEMORY_OFFSET (sym_end P) = Inr (sym_end P - PHYSICAL_MEMORY_OFFSET)"
    using ge by (simp add: PADDR_def not_less)
  have "page_init b P k = release_memory b P
      (ROUNDUP (sym_end P - PHYSICAL_MEMORY_OFFSET) PGSIZE) (all_pages_reserved b l2 k)"
    using end_addresses(4) [OF ge lt]
    by (simp add: page_init_def Let_def p1 p2 page_init_loop_result ok pd memend_facts
        release_memory_def all_pages_reserved_def)
  then show ?thesis by (rule that)
qed

lemma page_init_result:
  assumes mgr: "manager k = Default_pmm_manager" and ok: "mm_ok b (kmm k)"
    and zero: "nr_free (kmm k) = 0" and ge: "KERNBASE \<le> sym_end P" and lt: "sym_end P < KERNTOP b"
  shows "first_free P < unat (NPAGE b) \<Longrightarrow> \<exists>m l. page_init b P k =
      Inr (k\<lparr>va_pa_offset := PHYSICAL_MEMORY_OFFSET, nbase := NBASE, npage := NBASE + NPAGE b,
             kmm := m, sbi_log := l\<rparr>) \<and>
      pmm_inv b m \<and> pmm_run b m [] \<and>
      (\<forall>i < unat (NPAGE b). (reserved m i \<longleftrightarrow> i < first_free P) \<and> \<not> allocated m i)"
    and "\<not> first_free P < unat (NPAGE b) \<Longrightarrow>
      page_init b P k = Inl (Panic ''pa2page called with invalid pa'')"
proof -
  let ?mb = "ROUNDUP (sym_end P - PHYSICAL_MEMORY_OFFSET) PGSIZE"
  let ?n = "(KERNEL_MEMEND_PADDR b - ?mb) div PGSIZE"
  obtain l where run: "page_init b P k = release_memory b P ?mb (all_pages_reserved b l k)"
    by (rule page_init_steps [OF ok ge lt])
  note addr = end_addresses [OF ge lt]
  note pp = pa2page_of_address [OF addr(2) addr(3)]
  show "page_init b P k = Inl (Panic ''pa2page called with invalid pa'')"
    if "\<not> first_free P < unat (NPAGE b)" using that by (simp add: run pp release_memory_def)
  assume c: "first_free P < unat (NPAGE b)"
  have "?mb \<le> KERNEL_MEMEND_PADDR b" using addr(2) c by (simp add: word_le_nat_alt memend_facts)
  then have n: "unat ?n = unat (NPAGE b) - first_free P"
    using addr(2) c by (simp add: unat_div unat_u64_sub memend_facts PGSIZE_def flip: diff_mult_distrib)
  obtain m' where im: "default_init_memmap b (of_nat (first_free P)) ?n
        (upd_range (\<lambda>_. set_rsv 0) 0 (unat (NPAGE b)) (kmm k)) = Inr (0, m')"
    and m': "pmm_inv b m'" "pmm_run b m' []" "\<forall>i < unat (NPAGE b). (reserved m' i \<longleftrightarrow> i < first_free P) \<and> \<not> allocated m' i"
    using open_tail [OF ok zero c unat_page [OF c] n] by blast
  let ?k5 = "(all_pages_reserved b l k)\<lparr>kmm := m'\<rparr>"
  have mm: "init_memmap b (of_nat (first_free P)) ?n (all_pages_reserved b l k) = Inr (0, ?k5)"
    using mgr im by (simp add: init_memmap_def mgr_call_def on_mm_def all_pages_reserved_def)
  obtain n3 l3 where p3: "cprintf b P ''free memory :\<newline>'' [] ?k5 = Inr (n3, ?k5\<lparr>sbi_log := l3\<rparr>)"
    using cprintf_ok_log [OF pmm_messages_ok(2)] by blast
  obtain n4 l4 where p4: "cprintf b P ''  memory: 0x%016lx, [0x%016lx, 0x%016lx].\<newline>''
        [Num (KERNEL_MEMEND_PADDR b - ?mb), Num ?mb, Num (KERNEL_MEMEND_PADDR b - 1)]
        (?k5\<lparr>sbi_log := l3\<rparr>) = Inr (n4, ?k5\<lparr>sbi_log := l4\<rparr>)"
    using cprintf_ok_log [OF pmm_messages_ok(5), of b P _ _ _ "?k5\<lparr>sbi_log := l3\<rparr>"] by fastforce
  have "page_init b P k = Inr (?k5\<lparr>sbi_log := l4\<rparr>)"
    using c p3 p4 by (simp add: run pp mm release_memory_def)
  then have "page_init b P k = Inr (k\<lparr>va_pa_offset := PHYSICAL_MEMORY_OFFSET, nbase := NBASE,
      npage := NBASE + NPAGE b, kmm := m', sbi_log := l4\<rparr>)"
    by (simp add: all_pages_reserved_def)
  then show "\<exists>m l. page_init b P k =
      Inr (k\<lparr>va_pa_offset := PHYSICAL_MEMORY_OFFSET, nbase := NBASE, npage := NBASE + NPAGE b,
             kmm := m, sbi_log := l\<rparr>) \<and>
      pmm_inv b m \<and> pmm_run b m [] \<and>
      (\<forall>i < unat (NPAGE b). (reserved m i \<longleftrightarrow> i < first_free P) \<and> \<not> allocated m i)"
    using m' by blast
qed

text \<open>The first free page in terms of addresses.\<close>

lemma unat_KERNTOP: "unat (KERNTOP b) = unat KERNBASE + unat (NPAGE b) * 4096"
  by (cases b) (simp_all add: layout_defs)

lemma first_free_room:
  assumes "KERNBASE \<le> sym_end P" and "unat (sym_end P) + j * 4096 \<le> unat (KERNTOP b)"
  shows "first_free P + j \<le> unat (NPAGE b)"
proof -
  have "unat (sym_end P) - unat KERNBASE + j * 4096 \<le> unat (NPAGE b) * 4096"
    using assms by (simp add: unat_KERNTOP word_le_nat_alt)
  then show ?thesis unfolding first_free_def by linarith
qed

lemma first_free_full:
  assumes "KERNTOP b - PGSIZE < sym_end P"
  shows "\<not> first_free P < unat (NPAGE b)"
proof -
  have "unat (KERNTOP b - PGSIZE) = unat (KERNTOP b) - 4096"
    by (cases b) (simp_all add: layout_defs)
  then have "unat KERNBASE + unat (NPAGE b) * 4096 < unat (sym_end P) + 4096"
    using assms by (simp add: word_less_nat_alt unat_KERNTOP)
  then have "unat (NPAGE b) * 4096 \<le> unat (sym_end P) - unat KERNBASE + 4095" by linarith
  then show ?thesis unfolding first_free_def by linarith
qed

lemma below_first_free:
  assumes "KERNBASE \<le> sym_end P" and "sym_end P < KERNTOP b" and "p < NPAGE b"
  shows "unat p < first_free P \<longleftrightarrow> page2pa NBASE p < sym_end P - PHYSICAL_MEMORY_OFFSET"
proof -
  have "unat p \<le> 4096" using assms(3) NPAGE_bounds(2) [of b] by (simp add: word_less_nat_alt)
  then have "page2pa NBASE p < sym_end P - PHYSICAL_MEMORY_OFFSET \<longleftrightarrow>
      unat p * 4096 < unat (sym_end P) - unat KERNBASE"
    using end_addresses(1) [OF assms(1,2)] page2pa_unat [of p]
    by (simp add: word_less_nat_alt KERNEL_BEGIN_PADDR_def)
  then show ?thesis unfolding first_free_def by linarith
qed

text \<open>
  Initialisation: when the kernel image leaves five pages free, \<open>pmm_init\<close> installs the manager, sets up
  the page array, passes the self-test and records the boot page table.
\<close>

lemma pmm_init_result:
  assumes "mm_ok b (kmm k)" and "KERNBASE \<le> sym_end P" and "sym_end P \<le> KERNTOP b - 5 * PGSIZE"
    and "KERNBASE \<le> sym_boot_page_table_sv39 P"
  shows "\<exists>m l. pmm_init b P k = Inr (k\<lparr>manager := Default_pmm_manager, kmm := m, sbi_log := l,
      va_pa_offset := PHYSICAL_MEMORY_OFFSET, nbase := NBASE, npage := NBASE + NPAGE b,
      satp_virtual := sym_boot_page_table_sv39 P,
      satp_physical := sym_boot_page_table_sv39 P - PHYSICAL_MEMORY_OFFSET\<rparr>) \<and>
    pmm_inv b m \<and> pmm_run b m [] \<and>
    (\<forall>i < unat (NPAGE b). (reserved m i \<longleftrightarrow> i < first_free P) \<and> \<not> allocated m i)"
proof -
  let ?k1 = "k\<lparr>manager := Default_pmm_manager\<rparr>"
  obtain n0 l0 where p0: "cprintf b P ''memory management: %s\<newline>'' [Str (Some default_pmm_manager_name)] ?k1 =
      Inr (n0, ?k1\<lparr>sbi_log := l0\<rparr>)"
    using cprintf_ok_log [OF pmm_messages_ok(4)] by blast
  let ?k2 = "?k1\<lparr>sbi_log := l0, kmm := default_init (kmm k)\<rparr>"
  have i1: "init_pmm_manager b P k = Inr ?k2" by (simp add: init_pmm_manager_def p0 mgr_call_def)
  have sz: "unat (KERNTOP b - 5 * PGSIZE) + 5 * 4096 = unat (KERNTOP b)" "KERNTOP b - 5 * PGSIZE < KERNTOP b"
    by (cases b; simp add: layout_defs)+
  have lt: "sym_end P < KERNTOP b" using assms(3) sz(2) by (rule order.strict_trans1)
  have room: "first_free P + 5 \<le> unat (NPAGE b)"
    using assms(3) sz(1) first_free_room [OF assms(2), of 5 b] by (simp add: word_le_nat_alt)
  have "mm_ok b (kmm ?k2)" "nr_free (kmm ?k2) = 0" using assms(1) by (simp_all add: mm_ok_def default_init_def)
  then obtain m l where i2: "page_init b P ?k2 = Inr (?k2\<lparr>va_pa_offset := PHYSICAL_MEMORY_OFFSET, nbase := NBASE,
        npage := NBASE + NPAGE b, kmm := m, sbi_log := l\<rparr>)" (is "_ = Inr ?k3")
    and inv: "pmm_inv b m" and pr: "pmm_run b m []"
    and fl: "\<forall>i < unat (NPAGE b). (reserved m i \<longleftrightarrow> i < first_free P) \<and> \<not> allocated m i"
    using page_init_result(1) [OF _ _ _ assms(2) lt, of ?k2] room by auto
  have rdy: "pmm_ready b ?k3" using inv by (simp add: pmm_ready_def)
  have "free_run b (kmm ?k3) (first_free P) 5" using fl room by (auto simp: free_run_def available_def)
  then have chk: "default_check b ?k3 = Inr ?k3" by (rule default_check_passes [OF rdy])
  obtain n4 l4 where "cprintf b P ''check_alloc_page() succeeded!\<newline>'' [] ?k3 = Inr (n4, ?k3\<lparr>sbi_log := l4\<rparr>)"
    using cprintf_ok_log [OF pmm_messages_ok(3)] by blast
  then have i3: "check_alloc_page b P ?k3 = Inr (?k3\<lparr>sbi_log := l4\<rparr>)"
    using chk by (simp add: check_alloc_page_def mgr_call_def)
  let ?k5 = "?k3\<lparr>sbi_log := l4, satp_virtual := sym_boot_page_table_sv39 P,
    satp_physical := sym_boot_page_table_sv39 P - PHYSICAL_MEMORY_OFFSET\<rparr>"
  obtain n6 l6 where p6: "cprintf b P ''satp virtual address: 0x%016lx\<newline>satp physical address: 0x%016lx\<newline>''
      [Num (satp_virtual ?k5), Num (satp_physical ?k5)] ?k5 = Inr (n6, ?k5\<lparr>sbi_log := l6\<rparr>)"
    using cprintf_ok_log [OF pmm_messages_ok(6)] by blast
  have "pmm_init b P k = Inr (?k5\<lparr>sbi_log := l6\<rparr>)"
    using i1 i2 i3 p6 assms(4) by (simp add: pmm_init_def Let_def PADDR_def not_less)
  then show ?thesis using inv pr fl by (intro exI [of _ m] exI [of _ l6]) simp
qed

definition demo_kernel :: "build \<Rightarrow> kernel" where
  "demo_kernel b = \<lparr>csrs = (\<lambda>_. 0), sbi_log = [], time_reads = 0, line_buf = replicate 1024 0,
     kmm = \<lparr>pages = replicate (unat (NPAGE b)) \<lparr>flags = 0\<rparr>, nr_free = 0\<rparr>, npage = 0, nbase = 0,
     va_pa_offset = 0, satp_virtual = 0, satp_physical = 0, manager = No_manager, ticks = 0,
     is_panic = False\<rparr>"

section \<open>Properties\<close>



text \<open>
  C11. Set-up of the page array: \<open>page_init\<close> reserves exactly the pages that the kernel image reaches
  into and releases all others, with the counter right. When the image ends inside the last page no
  page is left to release, and the kernel panics instead of going on without free pages.
\<close>

theorem page_init_correct:
  assumes "manager k = Default_pmm_manager" and "mm_ok b (kmm k)" and "nr_free (kmm k) = 0"
    and "KERNBASE \<le> sym_end P"
  shows "(sym_end P \<le> KERNTOP b - PGSIZE \<longrightarrow>
      (\<exists>k'. page_init b P k = Inr k' \<and> pmm_ready b k' \<and>
        va_pa_offset k' = PHYSICAL_MEMORY_OFFSET \<and> csrs k' = csrs k \<and>
        (\<forall>p. p < NPAGE b \<longrightarrow>
          PageReserved p (kmm k') = Inr (page2pa NBASE p < sym_end P - PHYSICAL_MEMORY_OFFSET) \<and>
          PageAllocated p (kmm k') = Inr False))) \<and>
    (KERNTOP b - PGSIZE < sym_end P \<and> sym_end P < KERNTOP b \<longrightarrow>
      page_init b P k = Inl (Panic ''pa2page called with invalid pa''))"
proof (intro conjI impI)
  assume le: "sym_end P \<le> KERNTOP b - PGSIZE"
  have sz: "unat (KERNTOP b - PGSIZE) + 4096 = unat (KERNTOP b)" "KERNTOP b - PGSIZE < KERNTOP b"
    by (cases b; simp add: layout_defs)+
  have lt: "sym_end P < KERNTOP b" using le sz(2) by (rule order.strict_trans1)
  have "first_free P + 1 \<le> unat (NPAGE b)"
    using le sz(1) first_free_room [OF assms(4), of 1 b] by (simp add: word_le_nat_alt)
  then obtain m l where run: "page_init b P k =
      Inr (k\<lparr>va_pa_offset := PHYSICAL_MEMORY_OFFSET, nbase := NBASE, npage := NBASE + NPAGE b,
             kmm := m, sbi_log := l\<rparr>)"
    and inv: "pmm_inv b m"
    and fl: "\<forall>i < unat (NPAGE b). (reserved m i \<longleftrightarrow> i < first_free P) \<and> \<not> allocated m i"
    using page_init_result(1) [OF assms lt] by auto
  have "PageReserved p m = Inr (page2pa NBASE p < sym_end P - PHYSICAL_MEMORY_OFFSET) \<and>
      PageAllocated p m = Inr False" if p: "p < NPAGE b" for p
  proof -
    have "unat p < length (pages m)" "unat p < unat (NPAGE b)"
      using p pmm_inv_ok [OF inv] by (simp_all add: mm_ok_def word_less_nat_alt)
    then show ?thesis using fl below_first_free [OF assms(4) lt p] by (simp add: mm_simps)
  qed
  then show "\<exists>k'. page_init b P k = Inr k' \<and> pmm_ready b k' \<and>
      va_pa_offset k' = PHYSICAL_MEMORY_OFFSET \<and> csrs k' = csrs k \<and>
      (\<forall>p. p < NPAGE b \<longrightarrow>
        PageReserved p (kmm k') = Inr (page2pa NBASE p < sym_end P - PHYSICAL_MEMORY_OFFSET) \<and>
        PageAllocated p (kmm k') = Inr False)"
    using run inv assms(1) by (simp add: pmm_ready_def)
qed (use page_init_result(2) [OF assms] first_free_full in blast)

theorem page_init_correct_witness:
  "\<exists>k'. page_init Kernel (demo_platform []) ((demo_kernel Kernel)\<lparr>manager := Default_pmm_manager\<rparr>) = Inr k' \<and>
     PageReserved 9 (kmm k') = Inr True \<and> PageReserved 10 (kmm k') = Inr False"
proof -
  have h: "manager ((demo_kernel Kernel)\<lparr>manager := Default_pmm_manager\<rparr>) = Default_pmm_manager"
    "mm_ok Kernel (kmm ((demo_kernel Kernel)\<lparr>manager := Default_pmm_manager\<rparr>))"
    "nr_free (kmm ((demo_kernel Kernel)\<lparr>manager := Default_pmm_manager\<rparr>)) = 0"
    "KERNBASE \<le> sym_end (demo_platform [])"
    by (simp_all add: demo_kernel_def mm_ok_def demo_platform_def layout_defs)
  have "sym_end (demo_platform []) \<le> KERNTOP Kernel - PGSIZE" "(9 :: u64) < NPAGE Kernel" "(10 :: u64) < NPAGE Kernel"
    "page2pa NBASE 9 < sym_end (demo_platform []) - PHYSICAL_MEMORY_OFFSET"
    "\<not> page2pa NBASE 10 < sym_end (demo_platform []) - PHYSICAL_MEMORY_OFFSET"
    by (simp_all add: demo_platform_def layout_defs page2pa_def page2ppn_def drop_bit_eq_div push_bit_eq_mult)
  then show ?thesis using page_init_correct [OF h] by auto
qed

text \<open>
  C26. The start-up self-test \<open>default_check\<close> passes in every state in which the counter is right and a
  run of five pages is free, whatever else is allocated: none of its assertions fails and it leaves the
  kernel's state, every flag word included, as it found it.
\<close>

theorem default_check_correct:
  assumes "pmm_ready b k" and "free_run b (kmm k) j 5"
  shows "default_check b k = Inr k"
  using assms by (rule default_check_passes)

theorem default_check_correct_witness:
  "\<exists>k. manager k = Default_pmm_manager \<and> nr_free (kmm k) = 5 \<and> default_check Verif k = Inr k"
proof -
  let ?k = "(demo_kernel Verif)\<lparr>kmm := \<lparr>pages = replicate 5 \<lparr>flags = 0\<rparr>, nr_free = 5\<rparr>,
    manager := Default_pmm_manager, nbase := NBASE, npage := NBASE + NPAGE Verif\<rparr>"
  have av: "available (kmm ?k) i" if "i < 5" for i
    using that by (simp add: available_def reserved_def allocated_def)
  have "pmm_inv Verif (kmm ?k)" by code_simp
  then have "pmm_ready Verif ?k" by (simp add: pmm_ready_def)
  moreover have "free_run Verif (kmm ?k) 0 5" using av by (simp add: free_run_def)
  ultimately show ?thesis using default_check_correct [of Verif ?k 0] by (intro exI [of _ ?k]) simp
qed

end
