(* ===== verification/Trap.thy ===== *)
theory Trap
  imports Pmm
begin

unbundle bit_operations_syntax

text \<open>
  The clock (\<open>kern/driver/clock.c\<close>) and the handling of traps (\<open>kern/trap/trap.h\<close>, \<open>kern/trap/trap.c\<close>).
  The entry code in assembler saves the registers in a trap frame and calls \<open>trap\<close> with its address;
  here the frame is a record and its address a separate argument, which the handlers only print.
\<close>

section \<open>Clock\<close>

definition get_cycles :: "platform \<Rightarrow> 'a hw_scheme \<Rightarrow> u64 \<times> 'a hw_scheme" where
  "get_cycles P h = (clock_reading P (time_reads h), h\<lparr>time_reads := Suc (time_reads h)\<rparr>)"

definition timebase :: u64 where
  "timebase = 100000"

definition clock_set_next_event :: "platform \<Rightarrow> 'a hw_scheme \<Rightarrow> 'a hw_scheme" where
  "clock_set_next_event P h = (let (n, h1) = get_cycles P h in sbi_set_timer P (n + timebase) h1)"

definition clock_init :: "build \<Rightarrow> platform \<Rightarrow> kernel \<Rightarrow> kernel res" where
  "clock_init b P k =
     (let k1 = snd (set_csr Sie MIP_STIP k);
          k2 = clock_set_next_event P k1;
          k3 = k2\<lparr>ticks := 0\<rparr>
      in res_bind (cprintf b P ''++ setup timer interrupts\<newline>'' [] k3) (\<lambda>(_, k4). Inr k4))"

section \<open>Trap frames\<close>

record pushregs =
  r_zero :: uintptr_t
  r_ra :: uintptr_t
  r_sp :: uintptr_t
  r_gp :: uintptr_t
  r_tp :: uintptr_t
  r_t0 :: uintptr_t
  r_t1 :: uintptr_t
  r_t2 :: uintptr_t
  r_s0 :: uintptr_t
  r_s1 :: uintptr_t
  r_a0 :: uintptr_t
  r_a1 :: uintptr_t
  r_a2 :: uintptr_t
  r_a3 :: uintptr_t
  r_a4 :: uintptr_t
  r_a5 :: uintptr_t
  r_a6 :: uintptr_t
  r_a7 :: uintptr_t
  r_s2 :: uintptr_t
  r_s3 :: uintptr_t
  r_s4 :: uintptr_t
  r_s5 :: uintptr_t
  r_s6 :: uintptr_t
  r_s7 :: uintptr_t
  r_s8 :: uintptr_t
  r_s9 :: uintptr_t
  r_s10 :: uintptr_t
  r_s11 :: uintptr_t
  r_t3 :: uintptr_t
  r_t4 :: uintptr_t
  r_t5 :: uintptr_t
  r_t6 :: uintptr_t

record trapframe =
  gpr :: pushregs
  status :: uintptr_t
  epc :: uintptr_t
  badvaddr :: uintptr_t
  cause :: uintptr_t

definition CAUSE_MISALIGNED_FETCH :: u64 where "CAUSE_MISALIGNED_FETCH = 0x0"
definition CAUSE_FAULT_FETCH :: u64 where "CAUSE_FAULT_FETCH = 0x1"
definition CAUSE_ILLEGAL_INSTRUCTION :: u64 where "CAUSE_ILLEGAL_INSTRUCTION = 0x2"
definition CAUSE_BREAKPOINT :: u64 where "CAUSE_BREAKPOINT = 0x3"
definition CAUSE_MISALIGNED_LOAD :: u64 where "CAUSE_MISALIGNED_LOAD = 0x4"
definition CAUSE_FAULT_LOAD :: u64 where "CAUSE_FAULT_LOAD = 0x5"
definition CAUSE_MISALIGNED_STORE :: u64 where "CAUSE_MISALIGNED_STORE = 0x6"
definition CAUSE_FAULT_STORE :: u64 where "CAUSE_FAULT_STORE = 0x7"
definition CAUSE_USER_ECALL :: u64 where "CAUSE_USER_ECALL = 0x8"
definition CAUSE_SUPERVISOR_ECALL :: u64 where "CAUSE_SUPERVISOR_ECALL = 0x9"
definition CAUSE_HYPERVISOR_ECALL :: u64 where "CAUSE_HYPERVISOR_ECALL = 0xa"
definition CAUSE_MACHINE_ECALL :: u64 where "CAUSE_MACHINE_ECALL = 0xb"

lemmas cause_defs = CAUSE_MISALIGNED_FETCH_def CAUSE_FAULT_FETCH_def CAUSE_ILLEGAL_INSTRUCTION_def
  CAUSE_BREAKPOINT_def CAUSE_MISALIGNED_LOAD_def CAUSE_FAULT_LOAD_def CAUSE_MISALIGNED_STORE_def
  CAUSE_FAULT_STORE_def CAUSE_USER_ECALL_def CAUSE_SUPERVISOR_ECALL_def CAUSE_HYPERVISOR_ECALL_def
  CAUSE_MACHINE_ECALL_def

section \<open>Handlers\<close>

definition TICK_NUM :: size_t where
  "TICK_NUM = 100"

text \<open>
  \<open>print_ticks\<close> ends the run when \<open>DEBUG_GRADE\<close> is defined; the model is the normal configuration
  without it.
\<close>

definition print_ticks :: "build \<Rightarrow> platform \<Rightarrow> kernel \<Rightarrow> kernel res" where
  "print_ticks b P k = res_bind (cprintf b P ''%d ticks\<newline>'' [Num TICK_NUM] k) (\<lambda>(_, k'). Inr k')"

definition idt_init :: "platform \<Rightarrow> 'a hw_scheme \<Rightarrow> 'a hw_scheme" where
  "idt_init P h = write_csr Stvec (sym_alltraps P) (write_csr Sscratch 0 h)"

definition trap_in_kernel :: "trapframe \<Rightarrow> bool" where
  "trap_in_kernel tf \<longleftrightarrow> status tf AND SSTATUS_SPP \<noteq> 0"

text \<open>A sequence of calls \<open>cprintf(fmt, x)\<close> with one number each.\<close>

fun cprintf_all :: "build \<Rightarrow> platform \<Rightarrow> (string \<times> u64) list \<Rightarrow> kernel \<Rightarrow> kernel res" where
  "cprintf_all b P [] k = Inr k"
| "cprintf_all b P ((fmt, x) # rest) k =
     res_bind (cprintf b P fmt [Num x] k) (\<lambda>(_, k'). cprintf_all b P rest k')"

definition print_regs :: "build \<Rightarrow> platform \<Rightarrow> pushregs \<Rightarrow> kernel \<Rightarrow> kernel res" where
  "print_regs b P g =
     cprintf_all b P
       [(''  zero     0x%08x\<newline>'', r_zero g), (''  ra       0x%08x\<newline>'', r_ra g),
        (''  sp       0x%08x\<newline>'', r_sp g), (''  gp       0x%08x\<newline>'', r_gp g),
        (''  tp       0x%08x\<newline>'', r_tp g), (''  t0       0x%08x\<newline>'', r_t0 g),
        (''  t1       0x%08x\<newline>'', r_t1 g), (''  t2       0x%08x\<newline>'', r_t2 g),
        (''  s0       0x%08x\<newline>'', r_s0 g), (''  s1       0x%08x\<newline>'', r_s1 g),
        (''  a0       0x%08x\<newline>'', r_a0 g), (''  a1       0x%08x\<newline>'', r_a1 g),
        (''  a2       0x%08x\<newline>'', r_a2 g), (''  a3       0x%08x\<newline>'', r_a3 g),
        (''  a4       0x%08x\<newline>'', r_a4 g), (''  a5       0x%08x\<newline>'', r_a5 g),
        (''  a6       0x%08x\<newline>'', r_a6 g), (''  a7       0x%08x\<newline>'', r_a7 g),
        (''  s2       0x%08x\<newline>'', r_s2 g), (''  s3       0x%08x\<newline>'', r_s3 g),
        (''  s4       0x%08x\<newline>'', r_s4 g), (''  s5       0x%08x\<newline>'', r_s5 g),
        (''  s6       0x%08x\<newline>'', r_s6 g), (''  s7       0x%08x\<newline>'', r_s7 g),
        (''  s8       0x%08x\<newline>'', r_s8 g), (''  s9       0x%08x\<newline>'', r_s9 g),
        (''  s10      0x%08x\<newline>'', r_s10 g), (''  s11      0x%08x\<newline>'', r_s11 g),
        (''  t3       0x%08x\<newline>'', r_t3 g), (''  t4       0x%08x\<newline>'', r_t4 g),
        (''  t5       0x%08x\<newline>'', r_t5 g), (''  t6       0x%08x\<newline>'', r_t6 g)]"

definition print_trapframe :: "build \<Rightarrow> platform \<Rightarrow> uintptr_t \<Rightarrow> trapframe \<Rightarrow> kernel \<Rightarrow> kernel res" where
  "print_trapframe b P a tf k =
     res_bind (cprintf b P ''trapframe at %p\<newline>'' [Num a] k) (\<lambda>(_, k1).
     res_bind (print_regs b P (gpr tf) k1) (\<lambda>k2.
     cprintf_all b P
       [(''  status   0x%08x\<newline>'', status tf), (''  epc      0x%08x\<newline>'', epc tf),
        (''  badvaddr 0x%08x\<newline>'', badvaddr tf), (''  cause    0x%08x\<newline>'', cause tf)] k2))"

definition say :: "build \<Rightarrow> platform \<Rightarrow> string \<Rightarrow> kernel \<Rightarrow> kernel res" where
  "say b P msg k = res_bind (cprintf b P msg [] k) (\<lambda>(_, k'). Inr k')"

definition interrupt_handler :: "build \<Rightarrow> platform \<Rightarrow> uintptr_t \<Rightarrow> trapframe \<Rightarrow> kernel \<Rightarrow> kernel res" where
  "interrupt_handler b P a tf k =
     (let c = unat (drop_bit 1 (push_bit 1 (cause tf)))
      in if c = IRQ_U_SOFT then say b P ''User software interrupt\<newline>'' k
         else if c = IRQ_S_SOFT then say b P ''Supervisor software interrupt\<newline>'' k
         else if c = IRQ_H_SOFT then say b P ''Hypervisor software interrupt\<newline>'' k
         else if c = IRQ_M_SOFT then say b P ''Machine software interrupt\<newline>'' k
         else if c = IRQ_U_TIMER then say b P ''User Timer interrupt\<newline>'' k
         else if c = IRQ_S_TIMER then
           (let k1 = clock_set_next_event P k;
                k2 = k1\<lparr>ticks := ticks k1 + 1\<rparr>
            in if ticks k2 mod TICK_NUM = 0 then print_ticks b P k2 else Inr k2)
         else if c = IRQ_H_TIMER then say b P ''Hypervisor software interrupt\<newline>'' k
         else if c = IRQ_M_TIMER then say b P ''Machine software interrupt\<newline>'' k
         else if c = IRQ_U_EXT then say b P ''User software interrupt\<newline>'' k
         else if c = IRQ_S_EXT then say b P ''Supervisor external interrupt\<newline>'' k
         else if c = IRQ_H_EXT then say b P ''Hypervisor software interrupt\<newline>'' k
         else if c = IRQ_M_EXT then say b P ''Machine software interrupt\<newline>'' k
         else print_trapframe b P a tf k)"

definition exception_handler :: "build \<Rightarrow> platform \<Rightarrow> uintptr_t \<Rightarrow> trapframe \<Rightarrow> kernel \<Rightarrow> kernel res" where
  "exception_handler b P a tf k =
     (let c = cause tf
      in if c = CAUSE_MISALIGNED_FETCH then Inr k
         else if c = CAUSE_FAULT_FETCH then Inr k
         else if c = CAUSE_ILLEGAL_INSTRUCTION then Inr k
         else if c = CAUSE_BREAKPOINT then Inr k
         else if c = CAUSE_MISALIGNED_LOAD then Inr k
         else if c = CAUSE_FAULT_LOAD then Inr k
         else if c = CAUSE_MISALIGNED_STORE then Inr k
         else if c = CAUSE_FAULT_STORE then Inr k
         else if c = CAUSE_USER_ECALL then Inr k
         else if c = CAUSE_SUPERVISOR_ECALL then Inr k
         else if c = CAUSE_HYPERVISOR_ECALL then Inr k
         else if c = CAUSE_MACHINE_ECALL then Inr k
         else print_trapframe b P a tf k)"

definition trap_dispatch :: "build \<Rightarrow> platform \<Rightarrow> uintptr_t \<Rightarrow> trapframe \<Rightarrow> kernel \<Rightarrow> kernel res" where
  "trap_dispatch b P a tf k =
     (if sint (cause tf) < 0 then interrupt_handler b P a tf k else exception_handler b P a tf k)"

definition trap :: "build \<Rightarrow> platform \<Rightarrow> uintptr_t \<Rightarrow> trapframe \<Rightarrow> kernel \<Rightarrow> kernel res" where
  "trap b P a tf k = trap_dispatch b P a tf k"

section \<open>The specification of the clock (\<open>verif/riscv-spec.rkt\<close>)\<close>

text \<open>
  The repository specifies the effect of a timer interrupt on a state that is the tick counter alone.
\<close>

record tick_state =
  tick :: u64

definition intrp_timer :: "tick_state \<Rightarrow> tick_state" where
  "intrp_timer st = st\<lparr>tick := tick st + 1\<rparr>"

definition tick_state_of :: "kernel \<Rightarrow> tick_state" where
  "tick_state_of k = \<lparr>tick = ticks k\<rparr>"

section \<open>What a trap does\<close>

text \<open>Printing only: \<open>h'\<close> is \<open>h\<close> after some characters were put on the console.\<close>

definition prints :: "platform \<Rightarrow> 'a hw_scheme \<Rightarrow> 'a hw_scheme \<Rightarrow> bool" where
  "prints P h h' \<longleftrightarrow> (\<exists>out. h' = fold (cons_putc P) out h)"

lemma prints_refl [simp]: "prints P h h"
  by (auto simp: prints_def intro!: exI [of _ "[]"])

lemma prints_trans [trans]: "prints P h h' \<Longrightarrow> prints P h' h'' \<Longrightarrow> prints P h h''"
  unfolding prints_def by (metis fold_append comp_apply)

definition only_prints :: "platform \<Rightarrow> kernel \<Rightarrow> kernel res \<Rightarrow> bool" where
  "only_prints P k r \<longleftrightarrow> (\<exists>k'. r = Inr k' \<and> prints P k k')"

lemma only_printsI: "prints P k k' \<Longrightarrow> only_prints P k (Inr k')"
  by (simp add: only_prints_def)

lemma only_prints_if:
  "(c \<Longrightarrow> only_prints P k x) \<Longrightarrow> (\<not> c \<Longrightarrow> only_prints P k y) \<Longrightarrow> only_prints P k (if c then x else y)"
  by simp

lemma only_prints_after: "prints P k k1 \<Longrightarrow> only_prints P k1 r \<Longrightarrow> only_prints P k r"
  unfolding only_prints_def using prints_trans by blast

lemma only_prints_bind:
  "only_prints P k r \<Longrightarrow> (\<And>k'. only_prints P k' (f k')) \<Longrightarrow> only_prints P k (res_bind r f)"
  unfolding only_prints_def using prints_trans by fastforce

lemma cprintf_prints:
  assumes "format_ok fmt (map blank ap)"
  obtains n h' where "cprintf b P fmt ap h = Inr (n, h')" and "prints P h h'"
proof (cases b)
  case Verif
  then show ?thesis using that [of 0 h] by simp
next
  case Kernel
  obtain out where "format_text fmt ap = Inr out" using format_ok_text [OF assms] by blast
  then show ?thesis
    using that [of "int (length out)" "fold (cons_putc P) out h"] Kernel
    by (auto simp: vcprintf_text prints_def)
qed

lemma fold_putc_log:
  "fold (cons_putc P) out h = h\<lparr>sbi_log := sbi_log h @ map (\<lambda>c. \<lparr>sbi_type = SBI_CONSOLE_PUTCHAR,
     arg0 = ucast (of_int c :: u8), arg1 = 0, arg2 = 0\<rparr>) out\<rparr>"
  by (induction out arbitrary: h) (simp_all add: cons_putc_log)

text \<open>The deadlines handed to the firmware.\<close>

definition timer_requests :: "'a hw_scheme \<Rightarrow> u64 list" where
  "timer_requests h = map arg0 (filter (\<lambda>r. sbi_type r = SBI_SET_TIMER) (sbi_log h))"

lemma prints_frame:
  fixes k :: kernel
  assumes "prints P k k'"
  shows "\<exists>l. k' = k\<lparr>sbi_log := l\<rparr>" and "timer_requests k' = timer_requests k"
proof -
  obtain out where k': "k' = fold (cons_putc P) out k" using assms by (auto simp: prints_def)
  show "\<exists>l. k' = k\<lparr>sbi_log := l\<rparr>" unfolding k' fold_putc_log by blast
  show "timer_requests k' = timer_requests k"
    unfolding k' fold_putc_log
    by (simp add: timer_requests_def filter_map comp_def SBI_CONSOLE_PUTCHAR_def SBI_SET_TIMER_def)
qed

lemma say_prints:
  assumes "format_ok msg (map blank [])"
  shows "only_prints P k (say b P msg k)"
proof -
  obtain n k' where "cprintf b P msg [] k = Inr (n, k')" and "prints P k k'"
    by (rule cprintf_prints [OF assms])
  then show ?thesis by (simp add: say_def only_prints_def)
qed

lemma blank_one: "map blank [Num x] = [Num 0]"
  by simp

lemma cprintf_all_prints:
  assumes "\<forall>(fmt, x) \<in> set l. format_ok fmt [Num 0]"
  shows "only_prints P k (cprintf_all b P l k)"
  using assms
proof (induction l arbitrary: k)
  case (Cons p l)
  obtain fmt x where p: "p = (fmt, x)" by (cases p)
  with Cons.prems have "format_ok fmt (map blank [Num x])" by auto
  then obtain n k1 where "cprintf b P fmt [Num x] k = Inr (n, k1)" and "prints P k k1"
    by (rule cprintf_prints)
  moreover have "only_prints P k1 (cprintf_all b P l k1)" using Cons by auto
  ultimately show ?case using p prints_trans by (auto simp: only_prints_def)
qed (simp add: only_prints_def)

lemma frame_formats:
  "format_ok ''  zero     0x%08x\<newline>'' [Num 0]" "format_ok ''  ra       0x%08x\<newline>'' [Num 0]"
  "format_ok ''  sp       0x%08x\<newline>'' [Num 0]" "format_ok ''  gp       0x%08x\<newline>'' [Num 0]"
  "format_ok ''  tp       0x%08x\<newline>'' [Num 0]" "format_ok ''  t0       0x%08x\<newline>'' [Num 0]"
  "format_ok ''  t1       0x%08x\<newline>'' [Num 0]" "format_ok ''  t2       0x%08x\<newline>'' [Num 0]"
  "format_ok ''  s0       0x%08x\<newline>'' [Num 0]" "format_ok ''  s1       0x%08x\<newline>'' [Num 0]"
  "format_ok ''  a0       0x%08x\<newline>'' [Num 0]" "format_ok ''  a1       0x%08x\<newline>'' [Num 0]"
  "format_ok ''  a2       0x%08x\<newline>'' [Num 0]" "format_ok ''  a3       0x%08x\<newline>'' [Num 0]"
  "format_ok ''  a4       0x%08x\<newline>'' [Num 0]" "format_ok ''  a5       0x%08x\<newline>'' [Num 0]"
  "format_ok ''  a6       0x%08x\<newline>'' [Num 0]" "format_ok ''  a7       0x%08x\<newline>'' [Num 0]"
  "format_ok ''  s2       0x%08x\<newline>'' [Num 0]" "format_ok ''  s3       0x%08x\<newline>'' [Num 0]"
  "format_ok ''  s4       0x%08x\<newline>'' [Num 0]" "format_ok ''  s5       0x%08x\<newline>'' [Num 0]"
  "format_ok ''  s6       0x%08x\<newline>'' [Num 0]" "format_ok ''  s7       0x%08x\<newline>'' [Num 0]"
  "format_ok ''  s8       0x%08x\<newline>'' [Num 0]" "format_ok ''  s9       0x%08x\<newline>'' [Num 0]"
  "format_ok ''  s10      0x%08x\<newline>'' [Num 0]" "format_ok ''  s11      0x%08x\<newline>'' [Num 0]"
  "format_ok ''  t3       0x%08x\<newline>'' [Num 0]" "format_ok ''  t4       0x%08x\<newline>'' [Num 0]"
  "format_ok ''  t5       0x%08x\<newline>'' [Num 0]" "format_ok ''  t6       0x%08x\<newline>'' [Num 0]"
  "format_ok ''  status   0x%08x\<newline>'' [Num 0]" "format_ok ''  epc      0x%08x\<newline>'' [Num 0]"
  "format_ok ''  badvaddr 0x%08x\<newline>'' [Num 0]" "format_ok ''  cause    0x%08x\<newline>'' [Num 0]"
  "format_ok ''trapframe at %p\<newline>'' [Num 0]" "format_ok ''%d ticks\<newline>'' [Num 0]"
  by code_simp+

lemma message_formats:
  "format_ok ''User software interrupt\<newline>'' (map blank [])"
  "format_ok ''Supervisor software interrupt\<newline>'' (map blank [])"
  "format_ok ''Hypervisor software interrupt\<newline>'' (map blank [])"
  "format_ok ''Machine software interrupt\<newline>'' (map blank [])"
  "format_ok ''User Timer interrupt\<newline>'' (map blank [])"
  "format_ok ''Supervisor external interrupt\<newline>'' (map blank [])"
  "format_ok ''++ setup timer interrupts\<newline>'' (map blank [])"
  by code_simp+

lemma print_regs_prints: "only_prints P k (print_regs b P g k)"
  unfolding print_regs_def
  by (rule cprintf_all_prints) (simp only: list.set ball_simps prod.case frame_formats simp_thms)

lemma print_trapframe_prints: "only_prints P k (print_trapframe b P a tf k)"
proof -
  have "format_ok ''trapframe at %p\<newline>'' (map blank [Num a])" unfolding blank_one by (rule frame_formats)
  then obtain n k1 where p1: "cprintf b P ''trapframe at %p\<newline>'' [Num a] k = Inr (n, k1)" and k1: "prints P k k1"
    by (rule cprintf_prints)
  have "only_prints P k1 (res_bind (print_regs b P (gpr tf) k1) (\<lambda>k2.
     cprintf_all b P
       [(''  status   0x%08x\<newline>'', status tf), (''  epc      0x%08x\<newline>'', epc tf),
        (''  badvaddr 0x%08x\<newline>'', badvaddr tf), (''  cause    0x%08x\<newline>'', cause tf)] k2))"
    by (intro only_prints_bind print_regs_prints cprintf_all_prints)
       (simp only: list.set ball_simps prod.case frame_formats simp_thms)
  then show ?thesis
    unfolding print_trapframe_def p1 res_bind_Inr prod.case by (rule only_prints_after [OF k1])
qed

text \<open>The supervisor timer interrupt: the top bit of the cause and interrupt number 5.\<close>

definition is_timer :: "trapframe \<Rightarrow> bool" where
  "is_timer tf \<longleftrightarrow> cause tf = 0x8000000000000005"

lemma is_timer_iff:
  "is_timer tf \<longleftrightarrow> sint (cause tf) < 0 \<and> unat (drop_bit 1 (push_bit 1 (cause tf))) = IRQ_S_TIMER"
proof -
  let ?c = "cause tf"
  have neg: "sint ?c < 0 \<longleftrightarrow> bit ?c 63" by (simp add: sint_uint bit_uint_iff)
  have "drop_bit n (push_bit n ?c) = take_bit (64 - n) ?c" for n
    by (rule bit_eqI) (auto simp: bit_simps)
  from this [of 1] have low: "drop_bit 1 (push_bit 1 ?c) = take_bit 63 ?c" by simp
  have code: "bit (0x8000000000000005 :: u64) j \<longleftrightarrow> j = 63 \<or> bit (5 :: u64) j" if "j < 64" for j
  proof -
    have "(0x8000000000000005 :: u64) = push_bit 63 1 OR 5" by simp
    then show ?thesis
      using that by (simp only: bit_or_iff bit_push_bit_iff bit_1_iff possible_bit_word) auto
  qed
  have "?c = 0x8000000000000005" if "bit ?c 63" and five: "take_bit 63 ?c = 5"
  proof (rule bit_eqI)
    fix j assume "possible_bit TYPE(u64) j"
    then have j: "j < 64" by simp
    have "bit (take_bit 63 ?c) j \<longleftrightarrow> bit (5 :: u64) j" unfolding five ..
    moreover have "\<not> bit (5 :: u64) 63" by simp
    ultimately show "bit ?c j \<longleftrightarrow> bit (0x8000000000000005 :: u64) j"
      unfolding code [OF j] using that(1) j by (cases "j = 63") (auto simp: bit_take_bit_iff)
  qed
  moreover have "bit (0x8000000000000005 :: u64) 63" "take_bit 63 (0x8000000000000005 :: u64) = 5" by simp_all
  moreover have "unat w = 5 \<longleftrightarrow> w = 5" for w :: u64 by (simp add: word_unat_eq_iff)
  ultimately show ?thesis unfolding is_timer_def neg low IRQ_S_TIMER_def by metis
qed

definition timer_tick :: "platform \<Rightarrow> kernel \<Rightarrow> kernel" where
  "timer_tick P k = k\<lparr>time_reads := Suc (time_reads k), sbi_log := sbi_log k @
     [\<lparr>sbi_type = SBI_SET_TIMER, arg0 = clock_reading P (time_reads k) + timebase, arg1 = 0, arg2 = 0\<rparr>],
     ticks := ticks k + 1\<rparr>"

lemma clock_tick: "(clock_set_next_event P k)\<lparr>ticks := ticks k + 1\<rparr> = timer_tick P k"
  by (simp add: timer_tick_def clock_set_next_event_def get_cycles_def sbi_set_timer_def sbi_call_def Let_def)

lemma clock_ticks_same: "ticks (clock_set_next_event P k) = ticks k"
  by (simp add: clock_set_next_event_def get_cycles_def sbi_set_timer_def sbi_call_def Let_def)

lemma timer_requests_tick:
  "timer_requests (timer_tick P k) = timer_requests k @ [clock_reading P (time_reads k) + timebase]"
  by (simp add: timer_requests_def timer_tick_def)

lemma print_ticks_prints: "only_prints P k (print_ticks b P k)"
proof -
  have "format_ok ''%d ticks\<newline>'' (map blank [Num TICK_NUM])" unfolding blank_one by (rule frame_formats)
  then obtain n k' where "cprintf b P ''%d ticks\<newline>'' [Num TICK_NUM] k = Inr (n, k')" "prints P k k'"
    by (rule cprintf_prints)
  then show ?thesis by (simp add: print_ticks_def only_prints_def)
qed

lemmas trap_prints = message_formats [THEN say_prints] print_trapframe_prints print_ticks_prints
  only_printsI [OF prints_refl]

lemma interrupt_handler_effect:
  "only_prints P (if unat (drop_bit 1 (push_bit 1 (cause tf))) = IRQ_S_TIMER then timer_tick P k else k)
     (interrupt_handler b P a tf k)"
proof (cases "unat (drop_bit 1 (push_bit 1 (cause tf))) = IRQ_S_TIMER")
  case True
  then show ?thesis
    by (simp add: interrupt_handler_def Let_def irq_defs clock_ticks_same clock_tick trap_prints)
next
  case False
  then show ?thesis
    unfolding interrupt_handler_def Let_def if_not_P [OF False] by (intro only_prints_if trap_prints)
qed

lemma exception_handler_effect: "only_prints P k (exception_handler b P a tf k)"
  unfolding exception_handler_def Let_def by (intro only_prints_if trap_prints)

lemma trap_effect: "only_prints P (if is_timer tf then timer_tick P k else k) (trap b P a tf k)"
proof (cases "sint (cause tf) < 0")
  case True
  then show ?thesis
    using interrupt_handler_effect [of P tf k b a] by (simp add: trap_def trap_dispatch_def is_timer_iff)
next
  case False
  then show ?thesis
    using exception_handler_effect [of P k b a tf] by (simp add: trap_def trap_dispatch_def is_timer_iff)
qed

text \<open>Handling one trap after another.\<close>

fun run_traps :: "build \<Rightarrow> platform \<Rightarrow> (uintptr_t \<times> trapframe) list \<Rightarrow> kernel \<Rightarrow> kernel res" where
  "run_traps b P [] k = Inr k"
| "run_traps b P ((a, tf) # ts) k = res_bind (trap b P a tf k) (run_traps b P ts)"

lemma trap_fields:
  obtains k' l where "trap b P a tf k = Inr k'"
    and "k' = (if is_timer tf then timer_tick P k else k)\<lparr>sbi_log := l\<rparr>"
    and "timer_requests k' = timer_requests (if is_timer tf then timer_tick P k else k)"
  using trap_effect [of P tf k b a] prints_frame unfolding only_prints_def by metis

text \<open>The message of every hundredth tick.\<close>

definition tick_message :: "u8 list" where
  "tick_message = map of_char ''100 ticks\<newline>''"

lemma tick_text: "format_text ''%d ticks\<newline>'' [Num TICK_NUM] = Inr (map of_char ''100 ticks\<newline>'')"
  unfolding TICK_NUM_def by code_simp

lemma print_ticks_output:
  obtains k' where "print_ticks Kernel P k = Inr k'" and "prints P k k'"
    and "console_output k' = console_output k @ tick_message"
proof -
  define out :: "int list" where "out = map of_char ''100 ticks\<newline>''"
  have "print_ticks Kernel P k = Inr (fold (cons_putc P) out k)"
    by (simp add: print_ticks_def vcprintf_text tick_text out_def)
  moreover have "tick_message = map of_int out" by (simp add: tick_message_def out_def)
  ultimately show ?thesis
    using that [of "fold (cons_putc P) out k"] by (auto simp: prints_def fold_putc_output)
qed

lemma console_timer_tick: "console_output (timer_tick P k) = console_output k"
  by (simp add: console_output_def timer_tick_def SBI_SET_TIMER_def SBI_CONSOLE_PUTCHAR_def)

lemma timer_trap:
  assumes "is_timer tf"
  obtains k' where "trap Kernel P a tf k = Inr k'" and "prints P (timer_tick P k) k'"
    and "console_output k' = console_output k @ (if (ticks k + 1) mod TICK_NUM = 0 then tick_message else [])"
proof -
  have run: "trap Kernel P a tf k =
      (if (ticks k + 1) mod TICK_NUM = 0 then print_ticks Kernel P (timer_tick P k) else Inr (timer_tick P k))"
    using assms is_timer_iff [of tf]
    by (simp add: trap_def trap_dispatch_def interrupt_handler_def Let_def irq_defs clock_ticks_same clock_tick)
  show ?thesis
  proof (cases "(ticks k + 1) mod TICK_NUM = 0")
    case True
    obtain k' where "print_ticks Kernel P (timer_tick P k) = Inr k'" "prints P (timer_tick P k) k'"
      "console_output k' = console_output (timer_tick P k) @ tick_message"
      by (rule print_ticks_output)
    then show ?thesis using that [of k'] True run by (simp add: console_timer_tick)
  next
    case False
    then show ?thesis using that [of "timer_tick P k"] run by (simp add: console_timer_tick)
  qed
qed

lemma next_hundred:
  assumes "Suc n < 2 ^ 64"
  shows "((of_nat n :: u64) + 1) mod TICK_NUM = 0 \<longleftrightarrow> 100 dvd Suc n"
proof -
  have "unat ((of_nat n :: u64) + 1) = Suc n" using assms unat_of_nat_u64 [of "Suc n"] by (simp add: add.commute)
  then show ?thesis by (simp add: word_unat_eq_iff unat_mod TICK_NUM_def dvd_eq_mod_eq_0)
qed

lemma replicate_next_hundred:
  "concat (replicate (n div 100) m) @ (if 100 dvd Suc n then m else []) = concat (replicate (Suc n div 100) m)"
proof (cases "100 dvd Suc n")
  case True
  then have "Suc n div 100 = Suc (n div 100)" by (simp add: div_Suc dvd_eq_mod_eq_0)
  then show ?thesis using True by (simp flip: replicate_append_same)
qed (simp add: div_Suc dvd_eq_mod_eq_0)

lemma run_traps_append:
  "run_traps b P (ts @ us) k = res_bind (run_traps b P ts k) (run_traps b P us)"
proof (induction ts arbitrary: k)
  case (Cons x ts)
  then have "run_traps b P (ts @ us) = (\<lambda>k. res_bind (run_traps b P ts k) (run_traps b P us))"
    by (rule ext)
  then show ?case by (cases x) (simp add: res_bind_assoc)
qed simp

lemma heartbeat_run:
  assumes "ticks k = 0" and "\<forall>(a, tf) \<in> set ts. is_timer tf" and "length ts < 2 ^ 64"
  shows "\<exists>k'. run_traps Kernel P ts k = Inr k' \<and> ticks k' = of_nat (length ts) \<and>
    time_reads k' = time_reads k + length ts \<and>
    timer_requests k' = timer_requests k @
      map (\<lambda>i. clock_reading P (time_reads k + i) + timebase) [0..<length ts] \<and>
    console_output k' = console_output k @ concat (replicate (length ts div 100) tick_message)"
  using assms(2,3)
proof (induction ts rule: rev_induct)
  case Nil
  then show ?case using assms(1) by simp
next
  case (snoc x ts)
  obtain a tf where x: "x = (a, tf)" by (cases x)
  with snoc.prems have tm: "is_timer tf" and n: "Suc (length ts) < 2 ^ 64" by auto
  obtain k1 where k1: "run_traps Kernel P ts k = Inr k1" "ticks k1 = of_nat (length ts)"
    "time_reads k1 = time_reads k + length ts"
    "timer_requests k1 = timer_requests k @
      map (\<lambda>i. clock_reading P (time_reads k + i) + timebase) [0..<length ts]"
    "console_output k1 = console_output k @ concat (replicate (length ts div 100) tick_message)"
    using snoc by auto
  obtain k2 where k2: "trap Kernel P a tf k1 = Inr k2" "prints P (timer_tick P k1) k2"
    "console_output k2 = console_output k1 @ (if (ticks k1 + 1) mod TICK_NUM = 0 then tick_message else [])"
    by (rule timer_trap [OF tm])
  obtain l where l: "k2 = (timer_tick P k1)\<lparr>sbi_log := l\<rparr>" and "timer_requests k2 = timer_requests (timer_tick P k1)"
    using prints_frame [OF k2(2)] by blast
  then have "timer_requests k2 = timer_requests k @
      map (\<lambda>i. clock_reading P (time_reads k + i) + timebase) [0..<Suc (length ts)]"
    using k1(3,4) by (simp add: timer_requests_tick tick_state_of_def intrp_timer_def)
  moreover have "ticks k2 = of_nat (Suc (length ts))" "time_reads k2 = time_reads k + Suc (length ts)"
    using l k1(2,3) by (simp_all add: timer_tick_def)
  moreover have "console_output k2 = console_output k @ concat (replicate (Suc (length ts) div 100) tick_message)"
    unfolding k2(3) k1(2,5) next_hundred [OF n] append_assoc replicate_next_hundred ..
  moreover have "run_traps Kernel P (ts @ [x]) k = Inr k2" using k1(1) k2(1) x by (simp add: run_traps_append)
  ultimately show ?case by simp
qed

text \<open>A frame for concrete runs.\<close>

definition demo_frame :: "u64 \<Rightarrow> trapframe" where
  "demo_frame c = \<lparr>gpr = \<lparr>r_zero = 0, r_ra = 0, r_sp = 0, r_gp = 0, r_tp = 0, r_t0 = 0, r_t1 = 0, r_t2 = 0,
       r_s0 = 0, r_s1 = 0, r_a0 = 0, r_a1 = 0, r_a2 = 0, r_a3 = 0, r_a4 = 0, r_a5 = 0, r_a6 = 0, r_a7 = 0,
       r_s2 = 0, r_s3 = 0, r_s4 = 0, r_s5 = 0, r_s6 = 0, r_s7 = 0, r_s8 = 0, r_s9 = 0, r_s10 = 0, r_s11 = 0,
       r_t3 = 0, r_t4 = 0, r_t5 = 0, r_t6 = 0\<rparr>,
     status = 0x100, epc = 0, badvaddr = 0, cause = c\<rparr>"

section \<open>Properties\<close>

text \<open>
  C27. Every trap is handled: for every frame \<open>trap\<close> returns. The supervisor timer interrupt counts one
  tick (wrapping around at 64 bits) and asks the firmware for the next one, \<open>timebase\<close> after the clock
  reading it takes, as the specification of the timer asks; no other trap reads the clock or sets the
  timer. Apart from this and from console output, nothing changes: no register, no page, no other
  variable.
\<close>

theorem trap_correct:
  "\<exists>k' l. trap b P a tf k = Inr k' \<and>
     k' = k\<lparr>ticks := (if is_timer tf then ticks k + 1 else ticks k),
            time_reads := (if is_timer tf then Suc (time_reads k) else time_reads k), sbi_log := l\<rparr> \<and>
     timer_requests k' =
       (if is_timer tf then timer_requests k @ [clock_reading P (time_reads k) + timebase]
        else timer_requests k) \<and>
     tick_state_of k' = (if is_timer tf then intrp_timer (tick_state_of k) else tick_state_of k)"
proof -
  obtain k' l where "trap b P a tf k = Inr k'"
    and "k' = (if is_timer tf then timer_tick P k else k)\<lparr>sbi_log := l\<rparr>"
    and "timer_requests k' = timer_requests (if is_timer tf then timer_tick P k else k)"
    by (rule trap_fields)
  moreover have "(if is_timer tf then timer_tick P k else k)\<lparr>sbi_log := l\<rparr> =
      k\<lparr>ticks := (if is_timer tf then ticks k + 1 else ticks k),
        time_reads := (if is_timer tf then Suc (time_reads k) else time_reads k), sbi_log := l\<rparr>"
    by (simp add: timer_tick_def)
  ultimately show ?thesis by (intro exI [of _ k'] exI [of _ l]) (simp add: timer_requests_tick tick_state_of_def intrp_timer_def)
qed

text \<open>
  C12. The heartbeat: from \<open>ticks = 0\<close>, as \<open>clock_init\<close> leaves it, \<open>n\<close> timer interrupts are counted
  without loss, each sets the timer anew, and the console shows the tick message once for every full
  hundred of them and nothing else.
\<close>

theorem timer_heartbeat:
  assumes "ticks k = 0" and "\<forall>(a, tf) \<in> set ts. is_timer tf" and "length ts < 2 ^ 64"
  shows "\<exists>k'. run_traps Kernel P ts k = Inr k' \<and> ticks k' = of_nat (length ts) \<and>
    time_reads k' = time_reads k + length ts \<and>
    timer_requests k' = timer_requests k @
      map (\<lambda>i. clock_reading P (time_reads k + i) + timebase) [0..<length ts] \<and>
    console_output k' = console_output k @ concat (replicate (length ts div 100) tick_message)"
  using assms by (rule heartbeat_run)

theorem timer_heartbeat_witness:
  "\<exists>k'. run_traps Kernel (demo_platform []) (replicate 250 (0, demo_frame 0x8000000000000005)) (demo_kernel Kernel) =
     Inr k' \<and> ticks k' = 250 \<and> console_output k' = tick_message @ tick_message"
proof -
  let ?ts = "replicate 250 (0 :: u64, demo_frame 0x8000000000000005)"
  have h: "ticks (demo_kernel Kernel) = 0" "\<forall>(a, tf) \<in> set ?ts. is_timer tf" "length ?ts < 2 ^ 64"
    by (simp_all add: demo_kernel_def is_timer_def demo_frame_def)
  have "console_output (demo_kernel Kernel) = []" by (simp add: demo_kernel_def console_output_def)
  then show ?thesis
    using timer_heartbeat [OF h, of "demo_platform []"] by (auto simp: numeral_2_eq_2)
qed

end
