(* ===== verification/Monitor.thy ===== *)
theory Monitor
  imports Trap
begin

text \<open>
  The kernel monitor (\<open>kern/debug/kmonitor.c\<close>), panics (\<open>kern/debug/panic.c\<close>) and debugging output
  (\<open>kern/debug/kdebug.c\<close>). The monitor parses the line that \<open>readline\<close> left in its static buffer in
  place: words are positions in the buffer and blanks are overwritten by NUL. \<open>argv\<close> has room for
  \<open>MAXARGS\<close> words, storing more is a fault.
\<close>

section \<open>Debugging output (\<open>kern/debug/kdebug.c\<close>)\<close>

text \<open>Division of a signed number truncates towards zero.\<close>

definition div_trunc :: "int \<Rightarrow> int \<Rightarrow> int" where
  "div_trunc x y = sgn x * sgn y * (\<bar>x\<bar> div \<bar>y\<bar>)"

definition print_kerninfo :: "build \<Rightarrow> platform \<Rightarrow> kernel \<Rightarrow> kernel res" where
  "print_kerninfo b P k =
     res_bind (say b P ''Special kernel symbols:\<newline>'' k) (\<lambda>k1.
     cprintf_all b P
       [(''  entry  0x%016lx (virtual)\<newline>'', sym_kern_init P), (''  etext  0x%016lx (virtual)\<newline>'', sym_etext P),
        (''  edata  0x%016lx (virtual)\<newline>'', sym_edata P), (''  end    0x%016lx (virtual)\<newline>'', sym_end P),
        (''Kernel executable memory footprint: %dKB\<newline>'',
         of_int (div_trunc (sint (sym_end P - sym_kern_init P + 1023)) 1024))] k1)"

text \<open>
  A command either returns a number or ends in a call of \<open>panic\<close>, which does not come back; the panic
  carries the place of the call and the message.
\<close>

datatype cmd_result = Cmd_return int kernel | Cmd_panic string int string kernel

definition print_stackframe :: "kernel \<Rightarrow> cmd_result" where
  "print_stackframe k = Cmd_panic ''kern/debug/kdebug.c'' 91 ''Not Implemented!'' k"

definition print_debuginfo :: "uintptr_t \<Rightarrow> kernel \<Rightarrow> cmd_result" where
  "print_debuginfo eip k = Cmd_panic ''kern/debug/kdebug.c'' 25 ''Not Implemented!'' k"

section \<open>Commands (\<open>kern/debug/kmonitor.c\<close>)\<close>

datatype mon_func = Mon_help | Mon_kerninfo | Mon_backtrace

record command =
  cmd_name :: string
  cmd_desc :: string
  cmd_func :: mon_func

definition commands :: "command list" where
  "commands =
     [\<lparr>cmd_name = ''help'', cmd_desc = ''Display this list of commands.'', cmd_func = Mon_help\<rparr>,
      \<lparr>cmd_name = ''kerninfo'', cmd_desc = ''Display information about the kernel.'', cmd_func = Mon_kerninfo\<rparr>,
      \<lparr>cmd_name = ''backtrace'', cmd_desc = ''Print backtrace of stack frame.'', cmd_func = Mon_backtrace\<rparr>]"

definition NCOMMANDS :: nat where
  "NCOMMANDS = length commands"

definition MAXARGS :: nat where
  "MAXARGS = 16"

definition WHITESPACE :: "u8 list" where
  "WHITESPACE = map of_char '' \<newline>'' @ [9, 13]"

section \<open>Parsing\<close>

definition byte_at :: "nat \<Rightarrow> u8 list \<Rightarrow> u8 res" where
  "byte_at i bf = (if i < length bf then Inr (bf ! i) else Inl OutOfBounds)"

text \<open>\<open>while (*buf != '\0' && strchr(WHITESPACE, *buf) != NULL) *buf ++ = '\0';\<close>\<close>

function skip_space :: "nat \<Rightarrow> u8 list \<Rightarrow> (nat \<times> u8 list) res" where
  "skip_space i bf =
     (if i < length bf
      then if bf ! i \<noteq> 0 \<and> bf ! i \<in> set WHITESPACE then skip_space (Suc i) (bf[i := 0]) else Inr (i, bf)
      else Inl OutOfBounds)"
  by pat_completeness auto
termination by (relation "measure (\<lambda>(i, bf). length bf - i)") auto

text \<open>\<open>while (*buf != '\0' && strchr(WHITESPACE, *buf) == NULL) buf ++;\<close>\<close>

function skip_word :: "nat \<Rightarrow> u8 list \<Rightarrow> nat res" where
  "skip_word i bf =
     (if i < length bf
      then if bf ! i \<noteq> 0 \<and> bf ! i \<notin> set WHITESPACE then skip_word (Suc i) bf else Inr i
      else Inl OutOfBounds)"
  by pat_completeness auto
termination by (relation "measure (\<lambda>(i, bf). length bf - i)") auto

declare skip_space.simps [simp del] skip_word.simps [simp del]

text \<open>
  The loop of \<open>parse\<close> at position \<open>i\<close> of the buffer; it stores a word per iteration, so it ends or runs
  out of room in \<open>argv\<close>.
\<close>

function parse_loop ::
  "build \<Rightarrow> platform \<Rightarrow> nat \<Rightarrow> nat \<Rightarrow> nat list \<Rightarrow> kernel \<Rightarrow> (nat \<times> nat list \<times> kernel) res" where
  "parse_loop b P i argc argv k =
     res_bind (skip_space i (line_buf k)) (\<lambda>(i1, bf1).
     let k1 = k\<lparr>line_buf := bf1\<rparr> in
     res_bind (byte_at i1 bf1) (\<lambda>c.
     if c = 0 then Inr (argc, argv, k1)
     else
       res_bind (if argc = MAXARGS - 1
                 then cprintf b P ''Too many arguments (max %d).\<newline>'' [Num (of_nat MAXARGS)] k1
                 else Inr (0, k1)) (\<lambda>(_, k2).
       if argc < length argv
       then res_bind (skip_word i1 (line_buf k2)) (\<lambda>i2. parse_loop b P i2 (argc + 1) (argv[argc := i1]) k2)
       else Inl OutOfBounds)))"
  by pat_completeness auto
termination by (relation "measure (\<lambda>(b, P, i, argc, argv, k). length argv - argc)") auto

declare parse_loop.simps [simp del]

definition parse :: "build \<Rightarrow> platform \<Rightarrow> nat list \<Rightarrow> kernel \<Rightarrow> (nat \<times> nat list \<times> kernel) res" where
  "parse b P argv k = parse_loop b P 0 0 argv k"

text \<open>The C string at a position of the buffer.\<close>

definition string_at :: "nat \<Rightarrow> u8 list \<Rightarrow> u8 list" where
  "string_at i bf = takeWhile (\<lambda>c. c \<noteq> 0) (drop i bf)"

section \<open>Running commands\<close>

definition mon_help :: "build \<Rightarrow> platform \<Rightarrow> kernel \<Rightarrow> cmd_result res" where
  "mon_help b P k =
     res_bind (fold (\<lambda>c r. res_bind r (\<lambda>k.
         res_bind (cprintf b P ''%s - %s\<newline>'' [Str (Some (cmd_name c)), Str (Some (cmd_desc c))] k)
           (\<lambda>(_, k'). Inr k'))) commands (Inr k))
       (\<lambda>k'. Inr (Cmd_return 0 k'))"

definition mon_kerninfo :: "build \<Rightarrow> platform \<Rightarrow> kernel \<Rightarrow> cmd_result res" where
  "mon_kerninfo b P k = res_bind (print_kerninfo b P k) (\<lambda>k'. Inr (Cmd_return 0 k'))"

definition mon_backtrace :: "kernel \<Rightarrow> cmd_result res" where
  "mon_backtrace k =
     (case print_stackframe k of
        Cmd_return r k' \<Rightarrow> Inr (Cmd_return 0 k')
      | Cmd_panic file line fmt k' \<Rightarrow> Inr (Cmd_panic file line fmt k'))"

text \<open>None of the commands looks at its arguments.\<close>

fun call_mon :: "build \<Rightarrow> platform \<Rightarrow> mon_func \<Rightarrow> kernel \<Rightarrow> cmd_result res" where
  "call_mon b P Mon_help k = mon_help b P k"
| "call_mon b P Mon_kerninfo k = mon_kerninfo b P k"
| "call_mon b P Mon_backtrace k = mon_backtrace k"

text \<open>
  \<open>argv\<close> is an uninitialised array of the function; its first entry is written before it is read.
\<close>

definition runcmd :: "build \<Rightarrow> platform \<Rightarrow> kernel \<Rightarrow> cmd_result res" where
  "runcmd b P k =
     res_bind (parse b P (replicate MAXARGS 0) k) (\<lambda>(argc, argv, k1).
     if argc = 0 then Inr (Cmd_return 0 k1)
     else
       let w0 = string_at (argv ! 0) (line_buf k1) in
       case find (\<lambda>c. map of_char (cmd_name c) = w0) commands of
         Some c \<Rightarrow> call_mon b P (cmd_func c) k1
       | None \<Rightarrow>
           res_bind (cprintf b P ''Unknown command '%s'\<newline>'' [Str (Some (map (\<lambda>c. char_of (unat c)) w0))] k1)
             (\<lambda>(_, k2). Inr (Cmd_return 0 k2)))"

section \<open>Panics (\<open>kern/debug/panic.c\<close>)\<close>

text \<open>\<open>__panic\<close> up to its endless loop, and \<open>__warn\<close>.\<close>

definition panic_enter :: "build \<Rightarrow> platform \<Rightarrow> string \<Rightarrow> int \<Rightarrow> string \<Rightarrow> va_list \<Rightarrow> kernel \<Rightarrow> kernel res" where
  "panic_enter b P file line fmt ap k =
     res_bind
       (if is_panic k then Inr k
        else
          let k1 = k\<lparr>is_panic := True\<rparr> in
          res_bind (cprintf b P ''kernel panic at %s:%d:\<newline>    '' [Str (Some file), Num (of_int line)] k1) (\<lambda>(_, k2).
          res_bind (vcprintf P fmt ap k2) (\<lambda>(_, k3).
          res_bind (cprintf b P ''\<newline>'' [] k3) (\<lambda>(_, k4). Inr k4))))
       (\<lambda>k5. Inr (intr_disable k5))"

definition warn :: "build \<Rightarrow> platform \<Rightarrow> string \<Rightarrow> int \<Rightarrow> string \<Rightarrow> va_list \<Rightarrow> kernel \<Rightarrow> kernel res" where
  "warn b P file line fmt ap k =
     res_bind (cprintf b P ''kernel warning at %s:%d:\<newline>    '' [Str (Some file), Num (of_int line)] k) (\<lambda>(_, k1).
     res_bind (vcprintf P fmt ap k1) (\<lambda>(_, k2).
     res_bind (cprintf b P ''\<newline>'' [] k2) (\<lambda>(_, k3). Inr k3)))"

definition is_kernel_panic :: "kernel \<Rightarrow> bool" where
  "is_kernel_panic k = is_panic k"

section \<open>The monitor loop\<close>

text \<open>What \<open>kmonitor\<close> does before its loop; \<open>None\<close> is a null pointer to the trap frame.\<close>

definition kmonitor_enter ::
  "build \<Rightarrow> platform \<Rightarrow> (uintptr_t \<times> trapframe) option \<Rightarrow> kernel \<Rightarrow> kernel res" where
  "kmonitor_enter b P tfp k =
     res_bind (say b P ''Welcome to the kernel debug monitor!!\<newline>'' k) (\<lambda>k1.
     res_bind (say b P ''Type 'help' for a list of commands.\<newline>'' k1) (\<lambda>k2.
     case tfp of None \<Rightarrow> Inr k2 | Some (a, tf) \<Rightarrow> print_trapframe b P a tf k2))"

text \<open>
  The loop. A command that panics enters \<open>__panic\<close>, which calls \<open>kmonitor\<close> again and again and never
  returns, so what called it is never resumed: the recursion is a loop, and \<open>dead\<close> says whether the
  monitor that runs now was called by \<open>__panic\<close>, which starts another one if it ends.
\<close>

partial_function (option) kmonitor_loop ::
  "build \<Rightarrow> platform \<Rightarrow> bool \<Rightarrow> kernel \<Rightarrow> kernel res option" where
  "kmonitor_loop b P dead k =
     Option.bind (readline b P (Some ''K> '') k) (\<lambda>r.
       case r of
         Inl e \<Rightarrow> Some (Inl e)
       | Inr (None, k1) \<Rightarrow> kmonitor_loop b P dead k1
       | Inr (Some line, k1) \<Rightarrow>
           (case runcmd b P k1 of
              Inl e \<Rightarrow> Some (Inl e)
            | Inr (Cmd_return n k2) \<Rightarrow>
                if n < 0 then
                  if dead then
                    (case kmonitor_enter b P None k2 of Inl e \<Rightarrow> Some (Inl e) | Inr k3 \<Rightarrow> kmonitor_loop b P True k3)
                  else Some (Inr k2)
                else kmonitor_loop b P dead k2
            | Inr (Cmd_panic file ln fmt k2) \<Rightarrow>
                (case res_bind (panic_enter b P file ln fmt [] k2) (kmonitor_enter b P None) of
                   Inl e \<Rightarrow> Some (Inl e)
                 | Inr k3 \<Rightarrow> kmonitor_loop b P True k3)))"

definition kmonitor ::
  "build \<Rightarrow> platform \<Rightarrow> (uintptr_t \<times> trapframe) option \<Rightarrow> kernel \<Rightarrow> kernel res option" where
  "kmonitor b P tfp k =
     (case kmonitor_enter b P tfp k of Inl e \<Rightarrow> Some (Inl e) | Inr k1 \<Rightarrow> kmonitor_loop b P False k1)"

definition panic ::
  "build \<Rightarrow> platform \<Rightarrow> string \<Rightarrow> int \<Rightarrow> string \<Rightarrow> va_list \<Rightarrow> kernel \<Rightarrow> kernel res option" where
  "panic b P file line fmt ap k =
     (case res_bind (panic_enter b P file line fmt ap k) (kmonitor_enter b P None) of
        Inl e \<Rightarrow> Some (Inl e)
      | Inr k1 \<Rightarrow> kmonitor_loop b P True k1)"

section \<open>What parsing gives\<close>

abbreviation blank_char :: "u8 \<Rightarrow> bool" where
  "blank_char c \<equiv> c \<in> set WHITESPACE"

text \<open>The words of a line, separated by blanks.\<close>

function words_of :: "u8 list \<Rightarrow> u8 list list" where
  "words_of cs =
     (case dropWhile blank_char cs of
        [] \<Rightarrow> []
      | c # cs' \<Rightarrow> (c # takeWhile (\<lambda>c. \<not> blank_char c) cs') # words_of (dropWhile (\<lambda>c. \<not> blank_char c) cs'))"
  by pat_completeness auto
termination
proof (relation "measure length", goal_cases)
  case (2 cs c cs')
  then have "length (dropWhile blank_char cs) = Suc (length cs')" by simp
  moreover have "length (dropWhile blank_char cs) \<le> length cs" by (rule length_dropWhile_le)
  moreover have "length (dropWhile (\<lambda>c. \<not> blank_char c) cs') \<le> length cs'" by (rule length_dropWhile_le)
  ultimately show ?case by simp
qed simp

declare words_of.simps [simp del]

definition blank_out :: "u8 list \<Rightarrow> u8 list" where
  "blank_out = map (\<lambda>c. if blank_char c then 0 else c)"

lemma blank_out_append [simp]: "blank_out (xs @ ys) = blank_out xs @ blank_out ys"
  by (simp add: blank_out_def)

lemma blank_out_blanks: "\<forall>c \<in> set sp. blank_char c \<Longrightarrow> blank_out sp = replicate (length sp) 0"
  by (induction sp) (simp_all add: blank_out_def)

lemma blank_out_word: "\<forall>c \<in> set w. \<not> blank_char c \<Longrightarrow> blank_out w = w"
  by (induction w) (simp_all add: blank_out_def)

lemma zero_not_blank: "\<not> blank_char 0"
  by (simp add: WHITESPACE_def)

lemma skip_space_result:
  assumes "\<forall>c \<in> set sp. blank_char c" and "\<not> blank_char c"
  shows "skip_space (length pre) (pre @ sp @ c # rest) =
    Inr (length pre + length sp, pre @ replicate (length sp) 0 @ c # rest)"
  using assms(1)
proof (induction sp arbitrary: pre)
  case Nil
  then show ?case using assms(2) by (simp add: skip_space.simps)
next
  case (Cons s sp)
  then have "blank_char s" "s \<noteq> 0" using zero_not_blank by auto
  then have "skip_space (length pre) (pre @ (s # sp) @ c # rest) =
      skip_space (length (pre @ [0])) ((pre @ [0]) @ sp @ c # rest)"
    by (subst skip_space.simps) (simp add: list_update_append)
  also have "\<dots> = Inr (length (pre @ [0]) + length sp, (pre @ [0]) @ replicate (length sp) 0 @ c # rest)"
    using Cons by (intro Cons.IH) auto
  finally show ?case by simp
qed

lemma skip_word_result:
  assumes "\<forall>c \<in> set w. \<not> blank_char c \<and> c \<noteq> 0" and "c = 0 \<or> blank_char c"
  shows "skip_word (length pre) (pre @ w @ c # rest) = Inr (length pre + length w)"
  using assms(1)
proof (induction w arbitrary: pre)
  case Nil
  then show ?case using assms(2) by (subst skip_word.simps) auto
next
  case (Cons s w)
  then have "skip_word (length pre) (pre @ (s # w) @ c # rest) =
      skip_word (length (pre @ [s])) ((pre @ [s]) @ w @ c # rest)"
    by (subst skip_word.simps) simp
  also have "\<dots> = Inr (length (pre @ [s]) + length w)" using Cons by (intro Cons.IH) auto
  finally show ?case by simp
qed

lemma string_at_word:
  assumes "0 \<notin> set w" and "rest = [] \<or> blank_char (hd rest)"
  shows "string_at (length pre) (pre @ w @ blank_out rest @ 0 # post) = w"
proof -
  have "takeWhile (\<lambda>c. c \<noteq> 0) (blank_out rest @ 0 # post) = []"
    using assms(2) by (cases rest) (simp_all add: blank_out_def)
  moreover have "takeWhile (\<lambda>c. c \<noteq> 0) (w @ blank_out rest @ 0 # post) =
      w @ takeWhile (\<lambda>c. c \<noteq> 0) (blank_out rest @ 0 # post)"
    using assms(1) by (intro takeWhile_append2) auto
  ultimately show ?thesis by (simp add: string_at_def)
qed

text \<open>A line is blanks alone, or blanks, a word and the rest.\<close>

lemma words_cases:
  obtains (none) "\<forall>c \<in> set line. blank_char c" and "words_of line = []"
    | (word) sp w rest where "line = sp @ w @ rest" and "w \<noteq> []" and "\<forall>c \<in> set sp. blank_char c"
      and "\<forall>c \<in> set w. \<not> blank_char c" and "rest = [] \<or> blank_char (hd rest)"
      and "words_of line = w # words_of rest" and "length rest < length line"
proof (cases "dropWhile blank_char line")
  case Nil
  then have "words_of line = []" unfolding words_of.simps [of line] Nil by simp
  moreover have "\<forall>c \<in> set line. blank_char c" using Nil by (simp add: dropWhile_eq_Nil_conv)
  ultimately show ?thesis using none by blast
next
  case (Cons c cs)
  let ?w = "c # takeWhile (\<lambda>c. \<not> blank_char c) cs" and ?rest = "dropWhile (\<lambda>c. \<not> blank_char c) cs"
  have line: "line = takeWhile blank_char line @ ?w @ ?rest"
    using Cons takeWhile_dropWhile_id [of blank_char line] by simp
  have "\<not> blank_char c" using hd_dropWhile [of blank_char line] Cons by simp
  then have "\<forall>c \<in> set ?w. \<not> blank_char c" by (auto dest: set_takeWhileD)
  moreover have "?rest = [] \<or> blank_char (hd ?rest)"
    using hd_dropWhile [of "\<lambda>c. \<not> blank_char c" cs] by auto
  moreover have "length ?rest < length line" using arg_cong [OF line, of length] length_dropWhile_le [of "\<lambda>c. \<not> blank_char c" cs] by simp
  moreover have "words_of line = ?w # words_of ?rest" using Cons by (simp add: words_of.simps [of line])
  moreover have "\<forall>c \<in> set (takeWhile blank_char line). blank_char c" by (auto dest: set_takeWhileD)
  ultimately show ?thesis using word line by blast
qed

lemma too_many_format: "format_ok ''Too many arguments (max %d).\<newline>'' [Num 0]"
  by code_simp

text \<open>One iteration on a line that starts with a word.\<close>

lemma parse_loop_word:
  fixes k :: kernel
  assumes lb: "line_buf k = pre @ (sp @ w @ rest) @ 0 # post" and w: "w \<noteq> []"
    and sp: "\<forall>c \<in> set sp. blank_char c" and wc: "\<forall>c \<in> set w. \<not> blank_char c"
    and rest: "rest = [] \<or> blank_char (hd rest)" and nz: "0 \<notin> set w"
  obtains l where "parse_loop b P (length pre) argc argv k =
    (if argc < length argv
     then parse_loop b P (length (pre @ replicate (length sp) 0 @ w)) (argc + 1) (argv[argc := length pre + length sp])
       (k\<lparr>line_buf := (pre @ replicate (length sp) 0 @ w) @ rest @ 0 # post, sbi_log := l\<rparr>)
     else Inl OutOfBounds)"
proof -
  let ?pre = "pre @ replicate (length sp) (0 :: u8)"
  let ?k1 = "k\<lparr>line_buf := ?pre @ w @ rest @ 0 # post\<rparr>"
  obtain c cs where wcs: "w = c # cs" using w by (cases w) auto
  have ss: "skip_space (length pre) (line_buf k) = Inr (length ?pre, ?pre @ w @ rest @ 0 # post)"
    using skip_space_result [OF sp, of c pre "cs @ rest @ 0 # post"] wc lb wcs by simp
  have ba: "byte_at (length ?pre) (?pre @ w @ rest @ 0 # post) = Inr c" "c \<noteq> 0"
    using nz by (auto simp: byte_at_def nth_append wcs)
  have "\<exists>n l. (if argc = MAXARGS - 1
      then cprintf b P ''Too many arguments (max %d).\<newline>'' [Num (of_nat MAXARGS)] ?k1 else Inr (0, ?k1)) =
      Inr (n, ?k1\<lparr>sbi_log := l\<rparr>)"
  proof (cases "argc = MAXARGS - 1")
    case True
    have "format_ok ''Too many arguments (max %d).\<newline>'' (map blank [Num (of_nat MAXARGS)])"
      unfolding blank_one by (rule too_many_format)
    from cprintf_ok_log [OF this] show ?thesis using True by simp
  next
    case False
    have "?k1 = ?k1\<lparr>sbi_log := sbi_log k\<rparr>" by simp
    then show ?thesis using False by (intro exI [of _ 0] exI [of _ "sbi_log k"]) simp
  qed
  then obtain n l where pr: "(if argc = MAXARGS - 1
      then cprintf b P ''Too many arguments (max %d).\<newline>'' [Num (of_nat MAXARGS)] ?k1 else Inr (0, ?k1)) =
      Inr (n, ?k1\<lparr>sbi_log := l\<rparr>)" by blast
  obtain d ds where "rest @ 0 # post = d # ds" and "d = 0 \<or> blank_char d" using rest by (cases rest) auto
  then have sw: "skip_word (length ?pre) (?pre @ w @ rest @ 0 # post) = Inr (length ?pre + length w)"
    using skip_word_result [of w d ?pre ds] wc nz by metis
  have lb2: "line_buf (?k1\<lparr>sbi_log := l\<rparr>) = ?pre @ w @ rest @ 0 # post" by simp
  show ?thesis
    by (rule that [of l], subst parse_loop.simps,
        unfold ss res_bind_Inr prod.case Let_def ba(1) if_not_P [OF ba(2)] pr lb2 sw) (simp add: add.assoc)
qed

lemma parse_loop_end:
  fixes k :: kernel
  assumes lb: "line_buf k = pre @ line @ 0 # post" and "\<forall>c \<in> set line. blank_char c"
  shows "parse_loop b P (length pre) argc argv k = Inr (argc, argv, k\<lparr>line_buf := pre @ blank_out line @ 0 # post\<rparr>)"
proof -
  have ss: "skip_space (length pre) (line_buf k) = Inr (length pre + length line, pre @ blank_out line @ 0 # post)"
    using skip_space_result [OF assms(2) zero_not_blank] by (simp add: lb blank_out_blanks [OF assms(2)])
  have "byte_at (length pre + length line) (pre @ blank_out line @ 0 # post) = Inr 0"
    by (simp add: byte_at_def nth_append blank_out_def)
  then show ?thesis by (subst parse_loop.simps) (simp add: ss Let_def)
qed

lemma parse_loop_overflow:
  fixes k :: kernel
  assumes "line_buf k = pre @ line @ 0 # post" and "0 \<notin> set line"
    and "length argv < argc + length (words_of line)" and "argc \<le> length argv"
  shows "parse_loop b P (length pre) argc argv k = Inl OutOfBounds"
  using assms
proof (induction "length line" arbitrary: line pre argc argv k rule: less_induct)
  case less
  show ?case
  proof (cases rule: words_cases [of line])
    case none
    then show ?thesis using less.prems by simp
  next
    case (word sp w rest)
    let ?pre = "pre @ replicate (length sp) 0 @ w"
    have nz: "0 \<notin> set w" "0 \<notin> set rest" using less.prems(2) word(1) by auto
    obtain l where st: "parse_loop b P (length pre) argc argv k =
        (if argc < length argv
         then parse_loop b P (length ?pre) (argc + 1) (argv[argc := length pre + length sp])
           (k\<lparr>line_buf := ?pre @ rest @ 0 # post, sbi_log := l\<rparr>)
         else Inl OutOfBounds)"
      by (rule parse_loop_word [OF less.prems(1) [unfolded word(1)] word(2,3,4,5) nz(1)])
    show ?thesis
    proof (cases "argc < length argv")
      case True
      then have "parse_loop b P (length ?pre) (argc + 1) (argv[argc := length pre + length sp])
          (k\<lparr>line_buf := ?pre @ rest @ 0 # post, sbi_log := l\<rparr>) = Inl OutOfBounds"
        using word(6,7) less.prems(3) nz(2) by (intro less.hyps [of rest]) simp_all
      with True st show ?thesis by simp
    qed (simp add: st)
  qed
qed

lemma parse_loop_fits:
  fixes k :: kernel
  assumes "line_buf k = pre @ line @ 0 # post" and "0 \<notin> set line"
    and "argc + length (words_of line) \<le> length argv"
  shows "\<exists>argv' l. parse_loop b P (length pre) argc argv k =
      Inr (argc + length (words_of line), argv', k\<lparr>line_buf := pre @ blank_out line @ 0 # post, sbi_log := l\<rparr>) \<and>
      length argv' = length argv \<and> take argc argv' = take argc argv \<and>
      (\<forall>j < length (words_of line).
        string_at (argv' ! (argc + j)) (pre @ blank_out line @ 0 # post) = words_of line ! j)"
  using assms
proof (induction "length line" arbitrary: line pre argc argv k rule: less_induct)
  case less
  show ?case
  proof (cases rule: words_cases [of line])
    case none
    have "k\<lparr>line_buf := pre @ blank_out line @ 0 # post\<rparr> =
        k\<lparr>line_buf := pre @ blank_out line @ 0 # post, sbi_log := sbi_log k\<rparr>" by simp
    then show ?thesis
      using parse_loop_end [OF less.prems(1) none(1), of b P argc argv]
      by (intro exI [of _ argv] exI [of _ "sbi_log k"]) (simp add: none(2))
  next
    case (word sp w rest)
    let ?pre = "pre @ replicate (length sp) 0 @ w" and ?argv = "argv[argc := length pre + length sp]"
    have nz: "0 \<notin> set w" "0 \<notin> set rest" using less.prems(2) word(1) by auto
    have buf_eq: "?pre @ blank_out rest @ 0 # post = pre @ blank_out line @ 0 # post"
      using word(1) by (simp add: blank_out_blanks [OF word(3)] blank_out_word [OF word(4)])
    have argc: "argc < length argv" using less.prems(3) word(6) by simp
    obtain l where st: "parse_loop b P (length pre) argc argv k =
        (if argc < length argv
         then parse_loop b P (length ?pre) (argc + 1) ?argv
           (k\<lparr>line_buf := ?pre @ rest @ 0 # post, sbi_log := l\<rparr>)
         else Inl OutOfBounds)"
      by (rule parse_loop_word [OF less.prems(1) [unfolded word(1)] word(2,3,4,5) nz(1)])
    have "\<exists>argv' l'. parse_loop b P (length ?pre) (argc + 1) ?argv
        (k\<lparr>line_buf := ?pre @ rest @ 0 # post, sbi_log := l\<rparr>) =
        Inr (argc + 1 + length (words_of rest), argv',
          (k\<lparr>line_buf := ?pre @ rest @ 0 # post, sbi_log := l\<rparr>)
            \<lparr>line_buf := ?pre @ blank_out rest @ 0 # post, sbi_log := l'\<rparr>) \<and>
        length argv' = length ?argv \<and> take (argc + 1) argv' = take (argc + 1) ?argv \<and>
        (\<forall>j < length (words_of rest).
          string_at (argv' ! (argc + 1 + j)) (?pre @ blank_out rest @ 0 # post) = words_of rest ! j)"
      using word(6,7) less.prems(3) nz(2) by (intro less.hyps [of rest]) simp_all
    then obtain argv' l' where run: "parse_loop b P (length ?pre) (argc + 1) ?argv
        (k\<lparr>line_buf := ?pre @ rest @ 0 # post, sbi_log := l\<rparr>) =
        Inr (argc + length (words_of line), argv', k\<lparr>line_buf := pre @ blank_out line @ 0 # post, sbi_log := l'\<rparr>)"
      and len: "length argv' = length argv" and tk: "take (argc + 1) argv' = take (argc + 1) ?argv"
      and str: "\<forall>j < length (words_of rest).
        string_at (argv' ! (argc + 1 + j)) (pre @ blank_out line @ 0 # post) = words_of rest ! j"
      unfolding buf_eq by (auto simp: word(6))
    have first: "argv' ! argc = length pre + length sp" "take argc argv' = take argc argv"
      using tk argc len by (auto simp: take_Suc_conv_app_nth)
    have "string_at (argv' ! argc) (pre @ blank_out line @ 0 # post) = w"
      using string_at_word [OF nz(1) word(5), of "pre @ replicate (length sp) 0" post]
      by (simp add: first(1) flip: buf_eq)
    then have "\<forall>j < length (words_of line).
        string_at (argv' ! (argc + j)) (pre @ blank_out line @ 0 # post) = words_of line ! j"
      using str unfolding word(6) by (auto simp: less_Suc_eq_0_disj)
    then show ?thesis using st argc run len first(2) by auto
  qed
qed

section \<open>The monitor does not end\<close>

lemma call_mon_returns_0: "call_mon b P f k = Inr (Cmd_return n k') \<Longrightarrow> n = 0"
  by (cases f) (auto simp: mon_help_def mon_kerninfo_def mon_backtrace_def print_stackframe_def res_bind_Inr_conv)

lemma runcmd_returns_0: "runcmd b P k = Inr (Cmd_return n k') \<Longrightarrow> n = 0"
  unfolding runcmd_def
  by (auto simp: res_bind_Inr_conv Let_def split: if_splits option.splits prod.splits dest: call_mon_returns_0)

text \<open>The loop ends in a fault or not at all.\<close>

lemma kmonitor_loop_fails:
  assumes "kmonitor_loop b P dead k = Some r"
  shows "\<exists>e. r = Inl e"
proof (rule kmonitor_loop.raw_induct [where Pa = "\<lambda>_ r. \<exists>e. r = Inl e", OF _ assms])
  fix loop :: "build \<Rightarrow> platform \<Rightarrow> bool \<Rightarrow> kernel \<Rightarrow> kernel res option" and b P dead k r
  assume IH: "\<And>b P dead k r. loop b P dead k = Some r \<Longrightarrow> \<exists>e. r = Inl e"
    and body: "Option.bind (readline b P (Some ''K> '') k) (\<lambda>r.
       case r of
         Inl e \<Rightarrow> Some (Inl e)
       | Inr (None, k1) \<Rightarrow> loop b P dead k1
       | Inr (Some line, k1) \<Rightarrow>
           (case runcmd b P k1 of
              Inl e \<Rightarrow> Some (Inl e)
            | Inr (Cmd_return n k2) \<Rightarrow>
                if n < 0 then
                  if dead then
                    (case kmonitor_enter b P None k2 of Inl e \<Rightarrow> Some (Inl e) | Inr k3 \<Rightarrow> loop b P True k3)
                  else Some (Inr k2)
                else loop b P dead k2
            | Inr (Cmd_panic file ln fmt k2) \<Rightarrow>
                (case res_bind (panic_enter b P file ln fmt [] k2) (kmonitor_enter b P None) of
                   Inl e \<Rightarrow> Some (Inl e)
                 | Inr k3 \<Rightarrow> loop b P True k3))) = Some r"
  show "\<exists>e. r = Inl e"
  proof (cases "readline b P (Some ''K> '') k")
    case (Some rl)
    show ?thesis
    proof (cases rl)
      case (Inr p)
      obtain ln k1 where p: "p = (ln, k1)" by (cases p)
      show ?thesis
      proof (cases ln)
        case None
        then show ?thesis using body Some Inr p IH by simp
      next
        case ln: (Some l)
        show ?thesis
        proof (cases "runcmd b P k1")
          case res: (Inr c)
          show ?thesis
          proof (cases c)
            case (Cmd_return n k2)
            then have "n = 0" using res runcmd_returns_0 by blast
            then show ?thesis using body Some Inr p ln res Cmd_return IH by simp
          next
            case (Cmd_panic fl pl fmt k2)
            then show ?thesis
              using body Some Inr p ln res IH
              by (cases "res_bind (panic_enter b P fl pl fmt [] k2) (kmonitor_enter b P None)") auto
          qed
        qed (use body Some Inr p ln in auto)
      qed
    qed (use body Some in auto)
  qed (use body in simp)
qed

lemma kmonitor_fails: "kmonitor b P tfp k = Some r \<Longrightarrow> \<exists>e. r = Inl e"
  unfolding kmonitor_def
  by (cases "kmonitor_enter b P tfp k") (auto dest: kmonitor_loop_fails)

lemma panic_fails: "panic b P file ln fmt ap k = Some r \<Longrightarrow> \<exists>e. r = Inl e"
  unfolding panic_def
  by (cases "res_bind (panic_enter b P file ln fmt ap k) (kmonitor_enter b P None)")
     (auto dest: kmonitor_loop_fails)

text \<open>What \<open>__panic\<close> prints before.\<close>

lemma panic_formats:
  "format_ok ''\<newline>'' []" "format_ok ''kernel panic at %s:%d:\<newline>    '' [Str None, Num 0]"
  by code_simp+

lemma panic_enter_result:
  assumes "format_ok fmt (map blank ap)"
  obtains l where "panic_enter b P file ln fmt ap k = Inr (intr_disable (k\<lparr>is_panic := True, sbi_log := l\<rparr>))"
    and "is_panic k \<Longrightarrow> l = sbi_log k"
proof (cases "is_panic k")
  case True
  then have "k\<lparr>is_panic := True\<rparr> = k" by (intro kernel.equality) simp_all
  then have "intr_disable (k\<lparr>is_panic := True, sbi_log := sbi_log k\<rparr>) = intr_disable k" by simp
  then show ?thesis using True by (intro that [of "sbi_log k"]) (simp_all add: panic_enter_def)
next
  case False
  let ?k1 = "k\<lparr>is_panic := True\<rparr>"
  have "format_ok ''kernel panic at %s:%d:\<newline>    '' (map blank [Str (Some file), Num (of_int ln)])"
    using panic_formats(2) by simp
  then obtain n1 l1 where p1: "cprintf b P ''kernel panic at %s:%d:\<newline>    '' [Str (Some file), Num (of_int ln)] ?k1 =
      Inr (n1, ?k1\<lparr>sbi_log := l1\<rparr>)" using cprintf_ok_log by blast
  obtain n2 l2 where p2: "cprintf Kernel P fmt ap (?k1\<lparr>sbi_log := l1\<rparr>) = Inr (n2, ?k1\<lparr>sbi_log := l2\<rparr>)"
    using cprintf_ok_log [OF assms, of Kernel P "?k1\<lparr>sbi_log := l1\<rparr>"] by auto
  obtain n3 l3 where p3: "cprintf b P ''\<newline>'' [] (?k1\<lparr>sbi_log := l2\<rparr>) = Inr (n3, ?k1\<lparr>sbi_log := l3\<rparr>)"
    using cprintf_ok_log [of "''\<newline>''" "[]" b P "?k1\<lparr>sbi_log := l2\<rparr>"] panic_formats(1) by auto
  have "panic_enter b P file ln fmt ap k = Inr (intr_disable (?k1\<lparr>sbi_log := l3\<rparr>))"
    using False p1 p2 p3 by (simp add: panic_enter_def Let_def)
  then show ?thesis using that [of l3] False by simp
qed

section \<open>Properties\<close>

text \<open>
  C18. The command line: a line of at most \<open>MAXARGS\<close> words is split at the blanks, \<open>argv\<close> holds its
  words in order, and \<open>runcmd\<close> runs the command named by the first word, reports an unknown one, and does
  nothing for an empty line. The check for too many words prints a message and goes on: one word more
  than \<open>MAXARGS\<close> makes the parser write past the end of \<open>argv\<close>.
\<close>

theorem command_line_correct:
  assumes "line_buf k = line @ 0 # post" and "0 \<notin> set line"
  shows "(length (words_of line) \<le> MAXARGS \<longrightarrow>
      (\<exists>argv k'. parse b P (replicate MAXARGS 0) k = Inr (length (words_of line), argv, k') \<and>
        map (\<lambda>i. string_at i (line_buf k')) (take (length (words_of line)) argv) = words_of line \<and>
        runcmd b P k =
          (case words_of line of
             [] \<Rightarrow> Inr (Cmd_return 0 k')
           | w # ws \<Rightarrow>
               (case find (\<lambda>c. map of_char (cmd_name c) = w) commands of
                  Some c \<Rightarrow> call_mon b P (cmd_func c) k'
                | None \<Rightarrow> res_bind (cprintf b P ''Unknown command '%s'\<newline>''
                    [Str (Some (map (\<lambda>c. char_of (unat c)) w))] k') (\<lambda>(_, k2). Inr (Cmd_return 0 k2)))))) \<and>
    (MAXARGS < length (words_of line) \<longrightarrow> runcmd b P k = Inl OutOfBounds)"
proof (intro conjI impI)
  assume le: "length (words_of line) \<le> MAXARGS"
  obtain argv l where run: "parse b P (replicate MAXARGS 0) k =
      Inr (length (words_of line), argv, k\<lparr>line_buf := blank_out line @ 0 # post, sbi_log := l\<rparr>)"
    and len: "length argv = MAXARGS"
    and str: "\<forall>j < length (words_of line). string_at (argv ! j) (blank_out line @ 0 # post) = words_of line ! j"
    using parse_loop_fits [of k "[]" line post 0 "replicate MAXARGS 0" b P] assms le by (auto simp: parse_def)
  let ?k = "k\<lparr>line_buf := blank_out line @ 0 # post, sbi_log := l\<rparr>"
  have "map (\<lambda>i. string_at i (line_buf ?k)) (take (length (words_of line)) argv) = words_of line"
    using str len le by (intro nth_equalityI) auto
  moreover have "words_of line = w # ws \<Longrightarrow> string_at (argv ! 0) (line_buf ?k) = w" for w ws
    using str by auto
  ultimately show "\<exists>argv k'. parse b P (replicate MAXARGS 0) k = Inr (length (words_of line), argv, k') \<and>
        map (\<lambda>i. string_at i (line_buf k')) (take (length (words_of line)) argv) = words_of line \<and>
        runcmd b P k =
          (case words_of line of
             [] \<Rightarrow> Inr (Cmd_return 0 k')
           | w # ws \<Rightarrow>
               (case find (\<lambda>c. map of_char (cmd_name c) = w) commands of
                  Some c \<Rightarrow> call_mon b P (cmd_func c) k'
                | None \<Rightarrow> res_bind (cprintf b P ''Unknown command '%s'\<newline>''
                    [Str (Some (map (\<lambda>c. char_of (unat c)) w))] k') (\<lambda>(_, k2). Inr (Cmd_return 0 k2))))"
    by (intro exI [of _ argv] exI [of _ ?k]) (auto simp: run runcmd_def Let_def split: list.split)
next
  assume "MAXARGS < length (words_of line)"
  then show "runcmd b P k = Inl OutOfBounds"
    using parse_loop_overflow [of k "[]" line post "replicate MAXARGS 0" 0 b P] assms
    by (simp add: runcmd_def parse_def)
qed

definition demo_line :: "string \<Rightarrow> kernel" where
  "demo_line str = (demo_kernel Kernel)\<lparr>line_buf := map of_char str @ 0 # replicate 1000 0\<rparr>"

theorem command_line_correct_witness:
  "(\<exists>k'. runcmd Kernel (demo_platform []) (demo_line ''  backtrace now'') =
     Inr (Cmd_panic ''kern/debug/kdebug.c'' 91 ''Not Implemented!'' k')) \<and>
   runcmd Kernel (demo_platform []) (demo_line ''a b c d e f g h i j k l m n o p q'') = Inl OutOfBounds"
proof -
  have w: "words_of (map of_char ''  backtrace now'') = [map of_char ''backtrace'', map of_char ''now'']"
    "length (words_of (map of_char ''a b c d e f g h i j k l m n o p q'')) = 17"
    by code_simp+
  have nz: "0 \<notin> set (map of_char ''  backtrace now'' :: u8 list)"
    "0 \<notin> set (map of_char ''a b c d e f g h i j k l m n o p q'' :: u8 list)" by code_simp+
  have f: "find (\<lambda>c. map of_char (cmd_name c) = (map of_char ''backtrace'' :: u8 list)) commands = Some (commands ! 2)"
    by code_simp
  have lb: "line_buf (demo_line str) = map of_char str @ 0 # replicate 1000 0" for str
    by (simp add: demo_line_def)
  show ?thesis
    using command_line_correct [OF lb nz(1), of Kernel "demo_platform []"]
      command_line_correct [OF lb nz(2), of Kernel "demo_platform []"]
    unfolding w f by (auto simp: MAXARGS_def commands_def mon_backtrace_def print_stackframe_def)
qed



end
