(* ===== verification/Kern_Init.thy ===== *)
theory Kern_Init
  imports Monitor
begin

unbundle bit_operations_syntax

text \<open>
  The start of the kernel (\<open>kern/init/init.c\<close>) and what follows: once \<open>kern_init\<close> has reached its idle
  loop, the kernel is a state machine whose steps are traps and calls of the page allocator.
\<close>

section \<open>Start\<close>

text \<open>
  \<open>memset(edata, 0, end - edata)\<close>: the linker script puts the uninitialised variables, all fields of
  \<open>kernel\<close> that are not hardware, between the two symbols.
\<close>

definition clear_bss :: "build \<Rightarrow> kernel \<Rightarrow> kernel" where
  "clear_bss b k = k\<lparr>line_buf := replicate BUFSIZE 0,
     kmm := \<lparr>pages = replicate (unat (NPAGE b)) \<lparr>flags = 0\<rparr>, nr_free = 0\<rparr>, npage := 0, nbase := 0,
     va_pa_offset := 0, satp_virtual := 0, satp_physical := 0, manager := No_manager, ticks := 0,
     is_panic := False\<rparr>"

text \<open>The result is the state in which the idle loop \<open>while (1)\<close> runs.\<close>

definition kern_init :: "build \<Rightarrow> platform \<Rightarrow> kernel \<Rightarrow> kernel res" where
  "kern_init b P k =
     (let k1 = cons_init (clear_bss b k);
          message = ''(THU.CST) os is loading ...'' @ [CHR 0x00];
          k2 = snd (cputs b P message k1)
      in res_bind (print_kerninfo b P k2) (\<lambda>k3.
         res_bind (pmm_init b P (idt_init P k3)) (\<lambda>k4.
         res_bind (clock_init b P (idt_init P k4)) (\<lambda>k5.
         Inr (intr_enable k5)))))"

text \<open>
  Two debugging hooks of the file, both out of use. The calls of \<open>grade_backtrace\<close> pass numbers and the
  addresses of their own parameters, which the callee ignores; \<open>round\<close> is a static variable of
  \<open>lab1_print_cur_status\<close>.
\<close>

definition grade_backtrace2 :: "u32 \<Rightarrow> u32 \<Rightarrow> u32 \<Rightarrow> u32 \<Rightarrow> kernel \<Rightarrow> cmd_result res" where
  "grade_backtrace2 x0 x1 x2 x3 k = mon_backtrace k"

definition grade_backtrace1 :: "u32 \<Rightarrow> u32 \<Rightarrow> uintptr_t \<Rightarrow> uintptr_t \<Rightarrow> kernel \<Rightarrow> cmd_result res" where
  "grade_backtrace1 x0 x1 addr0 addr1 k = grade_backtrace2 x0 (ucast addr0) x1 (ucast addr1) k"

definition grade_backtrace0 ::
  "u32 \<Rightarrow> u32 \<Rightarrow> u32 \<Rightarrow> uintptr_t \<Rightarrow> uintptr_t \<Rightarrow> kernel \<Rightarrow> cmd_result res" where
  "grade_backtrace0 x0 x1 x2 addr0 addr1 k = grade_backtrace1 x0 x2 addr0 addr1 k"

definition grade_backtrace :: "platform \<Rightarrow> uintptr_t \<Rightarrow> uintptr_t \<Rightarrow> kernel \<Rightarrow> cmd_result res" where
  "grade_backtrace P addr0 addr1 k = grade_backtrace0 0 (ucast (sym_kern_init P)) 0xffff0000 addr0 addr1 k"

definition lab1_print_cur_status :: "u32 \<Rightarrow> u32" where
  "lab1_print_cur_status round = round + 1"

definition lab1_switch_to_user :: "kernel \<Rightarrow> kernel" where
  "lab1_switch_to_user k = k"

definition lab1_switch_to_kernel :: "kernel \<Rightarrow> kernel" where
  "lab1_switch_to_kernel k = k"

definition lab1_switch_test :: "build \<Rightarrow> platform \<Rightarrow> u32 \<Rightarrow> kernel \<Rightarrow> (u32 \<times> kernel) res" where
  "lab1_switch_test b P round k =
     (let round1 = lab1_print_cur_status round in
      res_bind (say b P ''+++ switch to  user  mode +++\<newline>'' k) (\<lambda>k1.
      let k2 = lab1_switch_to_user k1;
          round2 = lab1_print_cur_status round1
      in res_bind (say b P ''+++ switch to kernel mode +++\<newline>'' k2) (\<lambda>k3.
         Inr (lab1_print_cur_status round2, lab1_switch_to_kernel k3))))"

section \<open>Running\<close>

datatype kevent = Trap_event uintptr_t trapframe | Alloc_event size_t | Free_event size_t size_t

text \<open>
  A trap is taken while interrupts are on; the rest of the kernel allocates pages and frees blocks that
  it holds.
\<close>

inductive kstep :: "build \<Rightarrow> platform \<Rightarrow> kernel \<times> block list \<Rightarrow> kevent \<Rightarrow> kernel \<times> block list \<Rightarrow> bool"
  for b P where
  trap_step: "intr_on k \<Longrightarrow> trap b P a tf k = Inr k' \<Longrightarrow> kstep b P (k, L) (Trap_event a tf) (k', L)"
| alloc_step: "alloc_pages b n k = Inr (p, k') \<Longrightarrow>
    kstep b P (k, L) (Alloc_event n) (k', if p = NULLPAGE then L else (unat p, unat n) # L)"
| free_step: "(unat base, unat n) \<in> set L \<Longrightarrow> free_pages b base n k = Inr k' \<Longrightarrow>
    kstep b P (k, L) (Free_event base n) (k', remove1 (unat base, unat n) L)"

inductive_cases kstepE [consumes 1, case_names trap_step alloc_step free_step]: "kstep b P s e s'"

inductive_simps kstep_simps:
  "kstep b P (k, L) (Trap_event a tf) s'"
  "kstep b P (k, L) (Alloc_event n) s'"
  "kstep b P (k, L) (Free_event base n) s'"

section \<open>Systems and their invariants\<close>

text \<open>Runs of a labelled transition system from an initial state, with the events in order.\<close>

inductive runs :: "('s \<Rightarrow> bool) \<Rightarrow> ('s \<Rightarrow> 'e \<Rightarrow> 's \<Rightarrow> bool) \<Rightarrow> 'e list \<Rightarrow> 's \<Rightarrow> bool"
  for start and step where
  runs_start: "start s \<Longrightarrow> runs start step [] s"
| runs_step: "runs start step es s \<Longrightarrow> step s e s' \<Longrightarrow> runs start step (es @ [e]) s'"

locale invariant_system =
  fixes start :: "'s \<Rightarrow> bool"
    and step :: "'s \<Rightarrow> 'e \<Rightarrow> 's \<Rightarrow> bool"
    and inv :: "'e list \<Rightarrow> 's \<Rightarrow> bool"
  assumes inv_start: "start s \<Longrightarrow> inv [] s"
    and inv_step: "inv es s \<Longrightarrow> step s e s' \<Longrightarrow> inv (es @ [e]) s'"
begin

lemma runs_inv: "runs start step es s \<Longrightarrow> inv es s"
  by (induction rule: runs.induct) (auto intro: inv_start inv_step)

end

locale progressing_system = invariant_system +
  fixes possible :: "'s \<Rightarrow> 'e \<Rightarrow> bool"
  assumes progress: "inv es s \<Longrightarrow> possible s e \<Longrightarrow> \<exists>s'. step s e s'"
begin

lemma runs_go_on: "runs start step es s \<Longrightarrow> possible s e \<Longrightarrow> \<exists>s'. runs start step (es @ [e]) s'"
  using progress runs_inv runs_step by metis

end

section \<open>The start succeeds\<close>

definition image_fits :: "build \<Rightarrow> platform \<Rightarrow> bool" where
  "image_fits b P \<longleftrightarrow> KERNBASE \<le> sym_end P \<and> sym_end P \<le> KERNTOP b - 5 * PGSIZE \<and>
     KERNBASE \<le> sym_boot_page_table_sv39 P"

definition machine_ready :: "platform \<Rightarrow> kernel \<Rightarrow> bool" where
  "machine_ready P k \<longleftrightarrow> csrs k Stvec = sym_alltraps P \<and> csrs k Sscratch = 0 \<and>
     bit (csrs k Sie) IRQ_S_TIMER \<and> intr_on k"

lemma kerninfo_formats:
  "format_ok ''Special kernel symbols:\<newline>'' (map blank [])"
  "format_ok ''  entry  0x%016lx (virtual)\<newline>'' [Num 0]" "format_ok ''  etext  0x%016lx (virtual)\<newline>'' [Num 0]"
  "format_ok ''  edata  0x%016lx (virtual)\<newline>'' [Num 0]" "format_ok ''  end    0x%016lx (virtual)\<newline>'' [Num 0]"
  "format_ok ''Kernel executable memory footprint: %dKB\<newline>'' [Num 0]"
  by code_simp+

lemma print_kerninfo_prints: "only_prints P k (print_kerninfo b P k)"
  unfolding print_kerninfo_def
  by (intro only_prints_bind say_prints kerninfo_formats(1) cprintf_all_prints)
     (simp only: list.set ball_simps prod.case kerninfo_formats simp_thms)

lemma cputs_loop_prints: "\<exists>n. cputs_loop P str (m, h) = (n, fold (cons_putc P) (map of_char (cstring str)) h)"
  by (induction str arbitrary: m h) (auto simp: cputch_def cstring_def)

lemma cputs_prints: "prints P h (snd (cputs b P str h))"
proof (cases b)
  case Kernel
  obtain n where "cputs_loop P str (0, h) = (n, fold (cons_putc P) (map of_char (cstring str)) h)"
    using cputs_loop_prints by blast
  then have "snd (cputs b P str h) = fold (cons_putc P) (map of_char (cstring str) @ [10]) h"
    using Kernel by (simp add: cputch_def)
  then show ?thesis unfolding prints_def by blast
qed simp

lemma clock_init_result:
  obtains l where "clock_init b P k = Inr (k\<lparr>csrs := (csrs k)(Sie := csrs k Sie OR MIP_STIP),
    time_reads := Suc (time_reads k), sbi_log := l, ticks := 0\<rparr>)"
proof -
  let ?k = "(clock_set_next_event P (snd (set_csr Sie MIP_STIP k)))\<lparr>ticks := 0\<rparr>"
  obtain n k' where "cprintf b P ''++ setup timer interrupts\<newline>'' [] ?k = Inr (n, k')" and "prints P ?k k'"
    by (rule cprintf_prints [OF message_formats(7)])
  moreover obtain l where "k' = ?k\<lparr>sbi_log := l\<rparr>" using prints_frame(1) [OF calculation(2)] by blast
  ultimately show ?thesis
    using that [of l]
    by (simp add: clock_init_def Let_def clock_set_next_event_def get_cycles_def sbi_set_timer_def
        sbi_call_def set_csr_def)
qed

lemma kern_init_result:
  assumes fit: "image_fits b P"
  shows "\<exists>k'. kern_init b P k = Inr k' \<and> pmm_ready b k' \<and> pmm_run b (kmm k') [] \<and>
    machine_ready P k' \<and> ticks k' = 0 \<and> \<not> is_panic k' \<and>
    (\<forall>i < unat (NPAGE b). (reserved (kmm k') i \<longleftrightarrow> i < first_free P) \<and> \<not> allocated (kmm k') i)"
proof -
  let ?k1 = "cons_init (clear_bss b k)"
  let ?k2 = "snd (cputs b P (''(THU.CST) os is loading ...'' @ [CHR 0x00]) ?k1)"
  obtain k3 where pk: "print_kerninfo b P ?k2 = Inr k3" and "prints P ?k2 k3"
    using print_kerninfo_prints [of P ?k2 b] by (auto simp: only_prints_def)
  then have "prints P ?k1 k3" using prints_trans [OF cputs_prints] by blast
  then obtain l where k3: "k3 = (clear_bss b k)\<lparr>sbi_log := l\<rparr>"
    using prints_frame(1) [of P ?k1 k3] by (auto simp: cons_init_def)
  let ?i = "idt_init P k3"
  have "mm_ok b (kmm ?i)" by (simp add: k3 idt_init_def write_csr_def clear_bss_def mm_ok_def)
  then obtain m l4 where p4: "pmm_init b P ?i = Inr (?i\<lparr>manager := Default_pmm_manager, kmm := m, sbi_log := l4,
      va_pa_offset := PHYSICAL_MEMORY_OFFSET, nbase := NBASE, npage := NBASE + NPAGE b,
      satp_virtual := sym_boot_page_table_sv39 P,
      satp_physical := sym_boot_page_table_sv39 P - PHYSICAL_MEMORY_OFFSET\<rparr>)" (is "_ = Inr ?k4")
    and m: "pmm_inv b m" "pmm_run b m []"
      "\<forall>i < unat (NPAGE b). (reserved m i \<longleftrightarrow> i < first_free P) \<and> \<not> allocated m i"
    using pmm_init_result [of b ?i P] fit unfolding image_fits_def by blast
  obtain l5 where p5: "clock_init b P (idt_init P ?k4) = Inr ((idt_init P ?k4)
      \<lparr>csrs := (csrs (idt_init P ?k4))(Sie := csrs (idt_init P ?k4) Sie OR MIP_STIP),
       time_reads := Suc (time_reads (idt_init P ?k4)), sbi_log := l5, ticks := 0\<rparr>)" (is "_ = Inr ?k5")
    by (rule clock_init_result)
  have run: "kern_init b P k = Inr (intr_enable ?k5)"
    unfolding kern_init_def Let_def pk res_bind_Inr p4 p5 ..
  have mgr: "manager (intr_enable ?k5) = Default_pmm_manager" "kmm (intr_enable ?k5) = m"
    "nbase (intr_enable ?k5) = NBASE" "npage (intr_enable ?k5) = NBASE + NPAGE b"
    "ticks (intr_enable ?k5) = 0" "\<not> is_panic (intr_enable ?k5)"
    by (simp_all add: intr_enable_def set_csr_def idt_init_def write_csr_def k3 clear_bss_def)
  have "bit (w OR MIP_STIP) IRQ_S_TIMER" for w
    by (simp add: MIP_STIP_def IRQ_S_TIMER_def bit_or_iff bit_push_bit_iff)
  moreover have "intr_on (intr_enable ?k5)" by (rule intr_on_simps)
  ultimately have "machine_ready P (intr_enable ?k5)"
    unfolding machine_ready_def by (simp add: intr_enable_def set_csr_def idt_init_def write_csr_def)
  then show ?thesis using run mgr m by (auto simp: pmm_ready_def)
qed

section \<open>The running kernel\<close>

definition booted :: "build \<Rightarrow> platform \<Rightarrow> kernel \<times> block list \<Rightarrow> bool" where
  "booted b P s \<longleftrightarrow> image_fits b P \<and> snd s = [] \<and> (\<exists>k. kern_init b P k = Inr (fst s))"

fun timer_event :: "kevent \<Rightarrow> bool" where
  "timer_event (Trap_event a tf) = is_timer tf"
| "timer_event e = False"

definition timer_count :: "kevent list \<Rightarrow> nat" where
  "timer_count es = length (filter timer_event es)"

definition kernel_inv :: "build \<Rightarrow> platform \<Rightarrow> kevent list \<Rightarrow> kernel \<times> block list \<Rightarrow> bool" where
  "kernel_inv b P es s \<longleftrightarrow> pmm_ready b (fst s) \<and> pmm_run b (kmm (fst s)) (snd s) \<and>
     machine_ready P (fst s) \<and> ticks (fst s) = of_nat (timer_count es)"

fun possible :: "kernel \<times> block list \<Rightarrow> kevent \<Rightarrow> bool" where
  "possible s (Free_event base n) \<longleftrightarrow> (unat base, unat n) \<in> set (snd s)"
| "possible s e \<longleftrightarrow> True"

lemma pmm_ready_kmm:
  "pmm_ready b k \<Longrightarrow> pmm_run b m L \<Longrightarrow> pmm_ready b (k\<lparr>kmm := m\<rparr>)"
  using run_inv_step [of b m L] by (simp add: pmm_ready_def run_inv_def)

lemma kernel_inv_kmm:
  assumes "kernel_inv b P es (k, L)" and "pmm_run b m L'" and "\<not> timer_event e"
  shows "kernel_inv b P (es @ [e]) (k\<lparr>kmm := m\<rparr>, L')"
  using assms pmm_ready_kmm [of b k m L']
  by (simp add: kernel_inv_def timer_count_def machine_ready_def intr_on_def)

lemma kernel_inv_step:
  assumes inv: "kernel_inv b P es s" and st: "kstep b P s e s'"
  shows "kernel_inv b P (es @ [e]) s'"
  using st
proof (cases rule: kstepE)
  case (trap_step k a tf k' L)
  obtain k2 l where "trap b P a tf k = Inr k2"
    and k2: "k2 = (if is_timer tf then timer_tick P k else k)\<lparr>sbi_log := l\<rparr>"
    by (rule trap_fields)
  then have "k' = k2" using trap_step by simp
  then show ?thesis
    using inv trap_step k2
    by (auto simp: kernel_inv_def timer_count_def timer_tick_def pmm_ready_def machine_ready_def intr_on_def)
next
  case (alloc_step n k p k' L)
  have mgr: "manager k = Default_pmm_manager" and run: "pmm_run b (kmm k) L"
    using inv alloc_step by (simp_all add: kernel_inv_def pmm_ready_def)
  obtain m where m: "default_alloc_pages b n (kmm k) = Inr (p, m)" and k': "k' = k\<lparr>kmm := m\<rparr>"
    using alloc_step(4) by (auto simp: wrappers_result(1) [OF mgr] res_bind_Inr_conv)
  have "pmm_run b m (if p = NULLPAGE then L else (unat p, unat n) # L)"
    using pmm_run.alloc [OF run m] pmm_run.fail [OF run] m by auto
  then show ?thesis
    using inv unfolding alloc_step(1,2,3) k' by (intro kernel_inv_kmm) auto
next
  case (free_step base n L k k')
  have mgr: "manager k = Default_pmm_manager" and run: "pmm_run b (kmm k) L"
    using inv free_step by (simp_all add: kernel_inv_def pmm_ready_def)
  obtain m where m: "default_free_pages b base n (kmm k) = Inr m" and k': "k' = k\<lparr>kmm := m\<rparr>"
    using free_step(5) by (auto simp: wrappers_result(2) [OF mgr] res_bind_Inr_conv)
  have "pmm_run b m (remove1 (unat base, unat n) L)" by (rule pmm_run.free [OF run free_step(4) m])
  then show ?thesis
    using inv unfolding free_step(1,2,3) k' by (intro kernel_inv_kmm) auto
qed

lemma kernel_progress:
  assumes inv: "kernel_inv b P es s" and pos: "possible s e"
  shows "\<exists>s'. kstep b P s e s'"
proof -
  obtain k L where s: "s = (k, L)" by (cases s)
  have mgr: "manager k = Default_pmm_manager" and pinv: "pmm_inv b (kmm k)" and on: "intr_on k"
    using inv s by (simp_all add: kernel_inv_def pmm_ready_def machine_ready_def)
  show ?thesis
  proof (cases e)
    case (Trap_event a tf)
    then show ?thesis
      using trap_effect [of P tf k b a] on s by (auto simp: only_prints_def kstep_simps)
  next
    case (Alloc_event n)
    then show ?thesis
      using default_alloc_law [OF pinv, of n] s by (auto simp: kstep_simps wrappers_result(1) [OF mgr])
  next
    case (Free_event base n)
    then show ?thesis
      using pos s default_free_pages_result [OF pmm_inv_ok [OF pinv]]
      by (auto simp: kstep_simps wrappers_result(2) [OF mgr])
  qed
qed

lemma kernel_inv_boot: "booted b P s \<Longrightarrow> kernel_inv b P [] s"
proof -
  assume "booted b P s"
  then obtain k where fit: "image_fits b P" and L: "snd s = []" and k: "kern_init b P k = Inr (fst s)"
    by (auto simp: booted_def)
  then show ?thesis
    using kern_init_result [OF fit, of k] by (auto simp: kernel_inv_def timer_count_def)
qed

interpretation kernel_system: invariant_system "booted b P" "kstep b P" "kernel_inv b P" for b P
  by unfold_locales (blast intro: kernel_inv_boot kernel_inv_step)+

interpretation running_kernel: progressing_system "booted b P" "kstep b P" "kernel_inv b P" possible for b P
  by unfold_locales (blast intro: kernel_progress)

section \<open>Properties\<close>

text \<open>
  C7. The kernel starts: when the image and the boot page table lie where the linker puts them and the
  image leaves five pages free, \<open>kern_init\<close> reaches its idle loop. Then the page array is set up with
  exactly the image's pages reserved, the trap vector is set, the timer interrupt and interrupts are on,
  the tick counter is zero and no panic happened.
\<close>

theorem kern_init_succeeds:
  assumes "KERNBASE \<le> sym_end P" and "sym_end P \<le> KERNTOP b - 5 * PGSIZE"
    and "KERNBASE \<le> sym_boot_page_table_sv39 P"
  shows "\<exists>k'. kern_init b P k = Inr k' \<and> pmm_ready b k' \<and> pmm_run b (kmm k') [] \<and>
    (\<forall>i < unat (NPAGE b). (reserved (kmm k') i \<longleftrightarrow> i < first_free P) \<and> \<not> allocated (kmm k') i) \<and>
    csrs k' Stvec = sym_alltraps P \<and> bit (csrs k' Sie) IRQ_S_TIMER \<and> intr_on k' \<and> ticks k' = 0 \<and>
    \<not> is_kernel_panic k'"
  using kern_init_result [of b P k] assms
  unfolding image_fits_def machine_ready_def is_kernel_panic_def by blast

theorem kern_init_succeeds_witness:
  "\<exists>k'. kern_init Kernel (demo_platform []) (demo_kernel Kernel) = Inr k' \<and>
     csrs k' Stvec = 0xFFFFFFFFC0200100 \<and> intr_on k'"
proof -
  have h: "KERNBASE \<le> sym_end (demo_platform [])"
    "sym_end (demo_platform []) \<le> KERNTOP Kernel - 5 * PGSIZE"
    "KERNBASE \<le> sym_boot_page_table_sv39 (demo_platform [])"
    by (simp_all add: demo_platform_def layout_defs)
  have "sym_alltraps (demo_platform []) = 0xFFFFFFFFC0200100" by (simp add: demo_platform_def)
  then show ?thesis using kern_init_succeeds [OF h, of "demo_kernel Kernel"] by auto
qed

text \<open>
  C2. The running kernel: after a successful start, however traps and calls of the page allocator
  interleave, the blocks held are pairwise disjoint, their pages are allocated and not reserved, the
  counter accounts for every page, the tick counter is the number of timer interrupts modulo
  \<open>2\<^sup>64\<close>, interrupts are on between the steps, and the kernel can always take the next step: no
  trap and no call faults.
\<close>

theorem kernel_runs_safely:
  assumes "runs (booted b P) (kstep b P) es (k, L)"
  shows "disjoint_blocks L \<and>
    (\<forall>blk \<in> set L. \<forall>i \<in> block_frames blk. i < unat (NPAGE b) \<and> allocated (kmm k) i \<and> \<not> reserved (kmm k) i) \<and>
    unat (nr_free (kmm k)) + sum_list (map snd L) + card (rsv (frames_of b (kmm k))) = unat (NPAGE b) \<and>
    ticks k = of_nat (timer_count es) \<and> intr_on k \<and> csrs k Stvec = sym_alltraps P \<and>
    (\<forall>e. possible (k, L) e \<longrightarrow> (\<exists>s'. runs (booted b P) (kstep b P) (es @ [e]) s'))"
proof -
  have inv: "kernel_inv b P es (k, L)" using assms by (rule kernel_system.runs_inv)
  then have ri: "run_inv b (kmm k) L" by (simp add: kernel_inv_def run_inv_step)
  then have "\<forall>blk \<in> set L. \<forall>i \<in> block_frames blk. i \<in> alc (frames_of b (kmm k)) \<and> i \<notin> rsv (frames_of b (kmm k))"
    unfolding run_inv_def by blast
  then have "\<forall>blk \<in> set L. \<forall>i \<in> block_frames blk. i < unat (NPAGE b) \<and> allocated (kmm k) i \<and> \<not> reserved (kmm k) i"
    by (fastforce simp: frames_of_def)
  moreover have "\<forall>e. possible (k, L) e \<longrightarrow> (\<exists>s'. runs (booted b P) (kstep b P) (es @ [e]) s')"
    using running_kernel.runs_go_on [OF assms] by blast
  ultimately show ?thesis
    using inv ri run_inv_accounts [OF ri] by (simp add: kernel_inv_def machine_ready_def run_inv_def)
qed

theorem kernel_runs_safely_witness:
  "\<exists>k L. runs (booted Kernel (demo_platform [])) (kstep Kernel (demo_platform []))
       [Alloc_event 3, Trap_event 0 (demo_frame 0x8000000000000005)] (k, L) \<and> ticks k = 1 \<and> disjoint_blocks L"
proof -
  let ?P = "demo_platform []" and ?b = Kernel
  have fit: "image_fits ?b ?P" by (simp add: image_fits_def demo_platform_def layout_defs)
  then obtain k where "kern_init ?b ?P (demo_kernel ?b) = Inr k" using kern_init_result by blast
  then have "booted ?b ?P (k, [])" using fit by (auto simp: booted_def)
  then have r0: "runs (booted ?b ?P) (kstep ?b ?P) [] (k, [])" by (rule runs_start)
  obtain s1 where r1: "runs (booted ?b ?P) (kstep ?b ?P) ([] @ [Alloc_event 3]) s1"
    using running_kernel.runs_go_on [OF r0, of "Alloc_event 3"] by auto
  obtain k2 L2 where r2: "runs (booted ?b ?P) (kstep ?b ?P)
      (([] @ [Alloc_event 3]) @ [Trap_event 0 (demo_frame 0x8000000000000005)]) (k2, L2)"
    using running_kernel.runs_go_on [OF r1, of "Trap_event 0 (demo_frame 0x8000000000000005)"] by auto
  then show ?thesis
    using kernel_runs_safely [OF r2] by (auto simp: timer_count_def is_timer_def demo_frame_def)
qed

end
