(* ===== verification/Riscv_Asm.thy ===== *)
theory Riscv_Asm
  imports Trap
begin

unbundle bit_operations_syntax

text \<open>
  The machine that the two assembler files of the kernel run on: the instructions they use, each with
  its effect, traps and the return from them. The state of the C code is the record \<open>kernel\<close> with its
  control and status registers; here it gets the general registers, the program counter, the privilege
  mode and the memory of the stack, which C code has no access to by name. Memory is a map from the
  addresses of aligned 64-bit words; an access to an address that is not mapped is a fault.
\<close>

section \<open>State\<close>

datatype privilege = User | Supervisor

record cpu =
  gprs :: "nat \<Rightarrow> u64"
  pc :: uintptr_t
  priv :: privilege
  stack_mem :: "u64 \<rightharpoonup> u64"
  kern :: kernel

text \<open>The registers by the names the sources use; \<open>x0\<close> reads as zero and ignores writes.\<close>

abbreviation (input) x0 :: nat where "x0 \<equiv> 0"
abbreviation (input) sp :: nat where "sp \<equiv> 2"
abbreviation (input) t0 :: nat where "t0 \<equiv> 5"
abbreviation (input) t1 :: nat where "t1 \<equiv> 6"
abbreviation (input) s0 :: nat where "s0 \<equiv> 8"
abbreviation (input) s1 :: nat where "s1 \<equiv> 9"
abbreviation (input) a0 :: nat where "a0 \<equiv> 10"
abbreviation (input) s2 :: nat where "s2 \<equiv> 18"
abbreviation (input) s3 :: nat where "s3 \<equiv> 19"
abbreviation (input) s4 :: nat where "s4 \<equiv> 20"

definition gpr_ref :: "cpu \<Rightarrow> nat \<Rightarrow> u64" where
  "gpr_ref c r = (if r = 0 then 0 else gprs c r)"

definition gpr_set :: "nat \<Rightarrow> u64 \<Rightarrow> cpu \<Rightarrow> cpu" where
  "gpr_set r v c = (if r = 0 then c else c\<lparr>gprs := (gprs c)(r := v)\<rparr>)"

definition csr_ref :: "cpu \<Rightarrow> csr \<Rightarrow> u64" where
  "csr_ref c reg = csrs (kern c) reg"

definition csr_set :: "csr \<Rightarrow> u64 \<Rightarrow> cpu \<Rightarrow> cpu" where
  "csr_set reg v c = c\<lparr>kern := write_csr reg v (kern c)\<rparr>"

section \<open>Instructions\<close>

text \<open>
  \<open>STORE\<close> and \<open>LOAD\<close> are \<open>sd\<close> and \<open>ld\<close> in the 64-bit configuration (\<open>libs/riscv.h\<close>). The operand of
  \<open>LUI\<close> is the 20-bit immediate.
\<close>

datatype insn =
    CSRW csr nat
  | CSRR nat csr
  | CSRRW nat csr nat
  | ADDI nat nat u64
  | STORE nat u64 nat
  | LOAD nat u64 nat
  | MOVE nat nat
  | LUI nat u64
  | LI nat u64
  | SUB nat nat nat
  | SRLI nat nat nat
  | ORR nat nat nat
  | SFENCE_VMA

definition LOG_REGBYTES :: nat where "LOG_REGBYTES = 3"

definition REGBYTES :: u64 where "REGBYTES = push_bit LOG_REGBYTES 1"

definition aligned :: "u64 \<Rightarrow> bool" where
  "aligned a \<longleftrightarrow> take_bit LOG_REGBYTES a = 0"

definition mem_load :: "u64 \<Rightarrow> cpu \<Rightarrow> u64 res" where
  "mem_load a c =
     (if aligned a then case stack_mem c a of None \<Rightarrow> Inl OutOfBounds | Some v \<Rightarrow> Inr v
      else Inl OutOfBounds)"

definition mem_store :: "u64 \<Rightarrow> u64 \<Rightarrow> cpu \<Rightarrow> cpu res" where
  "mem_store a v c =
     (if aligned a \<and> stack_mem c a \<noteq> None then Inr (c\<lparr>stack_mem := (stack_mem c)(a \<mapsto> v)\<rparr>)
      else Inl OutOfBounds)"

fun exec :: "insn \<Rightarrow> cpu \<Rightarrow> cpu res" where
  "exec (CSRW reg rs) c = Inr (csr_set reg (gpr_ref c rs) c)"
| "exec (CSRR rd reg) c = Inr (gpr_set rd (csr_ref c reg) c)"
| "exec (CSRRW rd reg rs) c = Inr (gpr_set rd (csr_ref c reg) (csr_set reg (gpr_ref c rs) c))"
| "exec (ADDI rd rs i) c = Inr (gpr_set rd (gpr_ref c rs + i) c)"
| "exec (STORE rs off rb) c = mem_store (gpr_ref c rb + off) (gpr_ref c rs) c"
| "exec (LOAD rd off rb) c = res_bind (mem_load (gpr_ref c rb + off) c) (\<lambda>v. Inr (gpr_set rd v c))"
| "exec (MOVE rd rs) c = Inr (gpr_set rd (gpr_ref c rs) c)"
| "exec (LUI rd i) c = Inr (gpr_set rd (signed_take_bit 31 (push_bit 12 i)) c)"
| "exec (LI rd i) c = Inr (gpr_set rd i c)"
| "exec (SUB rd x y) c = Inr (gpr_set rd (gpr_ref c x - gpr_ref c y) c)"
| "exec (SRLI rd x n) c = Inr (gpr_set rd (drop_bit n (gpr_ref c x)) c)"
| "exec (ORR rd x y) c = Inr (gpr_set rd (gpr_ref c x OR gpr_ref c y) c)"
| "exec SFENCE_VMA c = Inr c"

fun exec_all :: "insn list \<Rightarrow> cpu \<Rightarrow> cpu res" where
  "exec_all [] c = Inr c"
| "exec_all (i # is) c = res_bind (exec i c) (exec_all is)"

section \<open>Traps and the return from them\<close>

text \<open>
  Taking a trap to supervisor mode saves the program counter, the cause and the address at fault, keeps
  the interrupt flag and the mode in \<open>sstatus\<close>, switches interrupts off and goes to the trap vector;
  \<open>sret\<close> undoes it.
\<close>

definition take_trap :: "u64 \<Rightarrow> u64 \<Rightarrow> cpu \<Rightarrow> cpu" where
  "take_trap code tval c =
     (let st = csr_ref c Sstatus;
          spie = (if bit st 1 then st OR SSTATUS_SPIE else st AND NOT SSTATUS_SPIE);
          spp = (if priv c = Supervisor then spie OR SSTATUS_SPP else spie AND NOT SSTATUS_SPP);
          c1 = csr_set Sstatus (spp AND NOT SSTATUS_SIE)
                 (csr_set Sbadaddr tval (csr_set Scause code (csr_set Sepc (pc c) c)))
      in c1\<lparr>pc := csr_ref c Stvec, priv := Supervisor\<rparr>)"

definition sret :: "cpu \<Rightarrow> cpu" where
  "sret c =
     (let st = csr_ref c Sstatus;
          sie = (if bit st 5 then st OR SSTATUS_SIE else st AND NOT SSTATUS_SIE)
      in (csr_set Sstatus ((sie OR SSTATUS_SPIE) AND NOT SSTATUS_SPP) c)
           \<lparr>pc := csr_ref c Sepc, priv := if bit st 8 then Supervisor else User\<rparr>)"

section \<open>Execution of code sequences\<close>

lemma gpr_ref_set: "gpr_ref (gpr_set r v c) q = (if q = r \<and> r \<noteq> 0 then v else gpr_ref c q)"
  by (simp add: gpr_ref_def gpr_set_def)

lemma gpr_set_frame [simp]:
  "stack_mem (gpr_set r v c) = stack_mem c" "kern (gpr_set r v c) = kern c"
  "pc (gpr_set r v c) = pc c" "priv (gpr_set r v c) = priv c"
  "csr_ref (gpr_set r v c) = csr_ref c"
  by (simp_all add: gpr_set_def csr_ref_def fun_eq_iff)

lemma csr_ref_set: "csr_ref (csr_set reg v c) q = (if q = reg then v else csr_ref c q)"
  by (simp add: csr_ref_def csr_set_def write_csr_def)

lemma csr_set_frame [simp]:
  "stack_mem (csr_set r v c) = stack_mem c" "gpr_ref (csr_set r v c) = gpr_ref c"
  "pc (csr_set r v c) = pc c" "priv (csr_set r v c) = priv c"
  by (simp_all add: csr_set_def gpr_ref_def fun_eq_iff)

lemma stack_mem_upd_frame [simp]:
  "gpr_ref (c\<lparr>stack_mem := m\<rparr>) = gpr_ref c" "csr_ref (c\<lparr>stack_mem := m\<rparr>) = csr_ref c"
  by (simp_all add: gpr_ref_def csr_ref_def fun_eq_iff)

lemma pc_upd_frame [simp]:
  "gpr_ref (c\<lparr>pc := x\<rparr>) = gpr_ref c" "csr_ref (c\<lparr>pc := x\<rparr>) = csr_ref c"
  by (simp_all add: gpr_ref_def csr_ref_def fun_eq_iff)

lemma exec_all_append: "exec_all (is @ js) c = res_bind (exec_all is c) (exec_all js)"
  by (induction "is" arbitrary: c) (simp_all add: res_bind_assoc cong: res_bind_cong)

text \<open>The word number \<open>i\<close> of a block of words at address \<open>a\<close>.\<close>

definition slot :: "u64 \<Rightarrow> nat \<Rightarrow> u64" where
  "slot a i = a + of_nat i * REGBYTES"

lemma REGBYTES_8: "REGBYTES = 8"
  by (simp add: REGBYTES_def LOG_REGBYTES_def push_bit_eq_mult)

lemma slot_0 [simp]: "slot a 0 = a"
  by (simp add: slot_def)

lemma slot_eq_iff:
  assumes "i < 2 ^ 60" and "j < 2 ^ 60"
  shows "slot a i = slot a j \<longleftrightarrow> i = j"
proof
  assume "slot a i = slot a j"
  then have "(of_nat (i * 8) :: u64) = of_nat (j * 8)" by (simp add: slot_def REGBYTES_8)
  then have "unat (of_nat (i * 8) :: u64) = unat (of_nat (j * 8) :: u64)" by (rule arg_cong)
  moreover have "i * 8 < 2 ^ 64" "j * 8 < 2 ^ 64" using assms by simp_all
  ultimately have "i * 8 = j * 8" by (metis unat_of_nat_u64)
  then show "i = j" by simp
qed simp

lemma aligned_iff: "aligned a \<longleftrightarrow> 8 dvd unat a"
proof -
  have "aligned a \<longleftrightarrow> unat (take_bit 3 a) = 0" by (simp add: aligned_def LOG_REGBYTES_def unat_eq_zero)
  also have "\<dots> \<longleftrightarrow> unat a mod 2 ^ 3 = 0" by (subst unsigned_take_bit_eq) (simp only: take_bit_eq_mod)
  finally show ?thesis by (simp add: mod_eq_0_iff_dvd)
qed

lemma slot_aligned [simp]: "aligned (slot a i) \<longleftrightarrow> aligned a"
proof -
  have "unat (slot a i) = (unat a + 8 * i) mod 2 ^ 64"
    by (simp add: slot_def REGBYTES_8 unat_word_ariths unat_of_nat mod_simps mult.commute)
  then have "8 dvd unat (slot a i) \<longleftrightarrow> 8 dvd unat a + 8 * i" by (simp add: dvd_mod_iff)
  then show ?thesis by (simp add: aligned_iff dvd_add_left_iff)
qed

lemma unat_slot: "unat a + 8 * i < 2 ^ 64 \<Longrightarrow> unat (slot a i) = unat a + 8 * i"
  by (simp add: slot_def REGBYTES_8 unat_word_ariths unat_of_nat mult.commute)

lemma slot_add: "slot (slot a i) j = slot a (i + j)"
  by (simp add: slot_def algebra_simps)

text \<open>A machine for the witnesses: the stack is mapped, the trap vector is set and interrupts are on.\<close>

definition demo_cpu :: cpu where
  "demo_cpu = \<lparr>gprs = (\<lambda>r. if r = sp then 0xFFFFFFFFC0209000 else of_nat r), pc = 0xFFFFFFFFC0201234,
     priv = Supervisor, stack_mem = (\<lambda>_. Some 0),
     kern = write_csr Sstatus SSTATUS_SIE (write_csr Stvec 0xFFFFFFFFC0200100 (demo_kernel Kernel))\<rparr>"

end
