(* ===== verification/Trap_Entry.thy ===== *)
theory Trap_Entry
  imports Riscv_Asm
begin

unbundle bit_operations_syntax

text \<open>
  The trap vector in assembler (\<open>kern/trap/trapentry.S\<close>), its composition with the C function \<open>trap\<close>,
  and the refinement that \<open>verif/riscv.rkt\<close> asks of the compiled kernel: the timer interrupt, from the
  trap vector to \<open>sret\<close>, implements \<open>intrp_timer\<close>. What the compiled code of \<open>trap\<close> leaves in the
  registers and on the stack is decided by the compiler: it is a parameter, of which the code relies on
  one rule of the calling convention, that the stack pointer and the caller's part of the stack are kept.
\<close>

section \<open>Saving and restoring the registers\<close>

text \<open>The registers that both macros treat in turn: all but the stack pointer, and zero only when saving.\<close>

definition other_regs :: "nat list" where
  "other_regs = 1 # [3..<32]"

definition save_status :: "insn list" where
  "save_status =
     [CSRRW s0 Sscratch x0, CSRR s1 Sstatus, CSRR s2 Sepc, CSRR s3 Sbadaddr, CSRR s4 Scause,
      STORE s0 (2 * REGBYTES) sp, STORE s1 (32 * REGBYTES) sp, STORE s2 (33 * REGBYTES) sp,
      STORE s3 (34 * REGBYTES) sp, STORE s4 (35 * REGBYTES) sp]"

definition SAVE_ALL :: "insn list" where
  "SAVE_ALL =
     [CSRW Sscratch sp, ADDI sp sp (- (36 * REGBYTES))] @
     map (\<lambda>i. STORE i (of_nat i * REGBYTES) sp) (x0 # other_regs) @ save_status"

definition RESTORE_ALL :: "insn list" where
  "RESTORE_ALL =
     [LOAD s1 (32 * REGBYTES) sp, LOAD s2 (33 * REGBYTES) sp, CSRW Sstatus s1, CSRW Sepc s2] @
     map (\<lambda>i. LOAD i (of_nat i * REGBYTES) sp) other_regs @
     [LOAD sp (2 * REGBYTES) sp]"

section \<open>The frame as C sees it\<close>

text \<open>The words of \<open>struct trapframe\<close> (\<open>kern/trap/trap.h\<close>) in the order of its members.\<close>

definition frame_of :: "(nat \<Rightarrow> u64) \<Rightarrow> trapframe" where
  "frame_of w =
     \<lparr>gpr = \<lparr>r_zero = w 0, r_ra = w 1, r_sp = w 2, r_gp = w 3, r_tp = w 4, r_t0 = w 5, r_t1 = w 6,
        r_t2 = w 7, r_s0 = w 8, r_s1 = w 9, r_a0 = w 10, r_a1 = w 11, r_a2 = w 12, r_a3 = w 13,
        r_a4 = w 14, r_a5 = w 15, r_a6 = w 16, r_a7 = w 17, r_s2 = w 18, r_s3 = w 19, r_s4 = w 20,
        r_s5 = w 21, r_s6 = w 22, r_s7 = w 23, r_s8 = w 24, r_s9 = w 25, r_s10 = w 26, r_s11 = w 27,
        r_t3 = w 28, r_t4 = w 29, r_t5 = w 30, r_t6 = w 31\<rparr>,
      status = w 32, epc = w 33, badvaddr = w 34, cause = w 35\<rparr>"

definition read_frame :: "(u64 \<rightharpoonup> u64) \<Rightarrow> u64 \<Rightarrow> trapframe option" where
  "read_frame m a =
     (if list_all (\<lambda>i. m (slot a i) \<noteq> None) [0..<36] then Some (frame_of (\<lambda>i. the (m (slot a i)))) else None)"

section \<open>The trap vector\<close>

record compiled =
  leaves_regs :: "cpu \<Rightarrow> nat \<Rightarrow> u64"
  leaves_mem :: "cpu \<Rightarrow> u64 \<rightharpoonup> u64"

definition call_trap :: "build \<Rightarrow> platform \<Rightarrow> compiled \<Rightarrow> cpu \<Rightarrow> cpu res" where
  "call_trap b P C c =
     (case read_frame (stack_mem c) (gpr_ref c a0) of
        None \<Rightarrow> Inl OutOfBounds
      | Some tf \<Rightarrow>
          res_bind (trap b P (gpr_ref c a0) tf (kern c)) (\<lambda>k.
            Inr (c\<lparr>gprs := leaves_regs C c, stack_mem := leaves_mem C c, kern := k\<rparr>)))"

definition trapret :: "cpu \<Rightarrow> cpu res" where
  "trapret c = res_bind (exec_all RESTORE_ALL c) (\<lambda>c'. Inr (sret c'))"

definition alltraps :: "build \<Rightarrow> platform \<Rightarrow> compiled \<Rightarrow> cpu \<Rightarrow> cpu res" where
  "alltraps b P C c =
     res_bind (exec_all SAVE_ALL c) (\<lambda>c1.
     res_bind (exec_all [MOVE a0 sp] c1) (\<lambda>c2.
     res_bind (call_trap b P C c2) trapret))"

text \<open>The code at the program counter, where only the trap vector is modelled.\<close>

definition run_vector :: "build \<Rightarrow> platform \<Rightarrow> compiled \<Rightarrow> cpu \<Rightarrow> cpu res" where
  "run_vector b P C c = (if pc c = sym_alltraps P then alltraps b P C c else Inl OutOfBounds)"

definition interrupted :: "build \<Rightarrow> platform \<Rightarrow> compiled \<Rightarrow> u64 \<Rightarrow> u64 \<Rightarrow> cpu \<Rightarrow> cpu res" where
  "interrupted b P C code tval c = run_vector b P C (take_trap code tval c)"

text \<open>The calling convention: a called function keeps the stack pointer and what lies above it.\<close>

definition keeps_stack :: "compiled \<Rightarrow> bool" where
  "keeps_stack C \<longleftrightarrow>
     (\<forall>c. leaves_regs C c sp = gpr_ref c sp \<and>
          (\<forall>a. gpr_ref c sp \<le> a \<longrightarrow> leaves_mem C c a = stack_mem c a))"

section \<open>The refinement asked by \<open>verif/riscv.rkt\<close>\<close>

text \<open>The constants \<open>verif/asm-offsets.c\<close> hands to the verifier.\<close>

definition asm_offsets :: "build \<Rightarrow> (string \<times> u64) list" where
  "asm_offsets b =
     [(''KSTACKSIZE'', KSTACKSIZE), (''IRQ_S_TIMER'', of_nat IRQ_S_TIMER), (''NPAGE'', NPAGE b),
      (''PG_RESERVED'', of_int PG_reserved), (''PG_ALLOCATED'', of_int PG_allocated), (''NULLPAGE'', NULLPAGE)]"

definition asm_constant :: "build \<Rightarrow> string \<Rightarrow> u64" where
  "asm_constant b s = (case map_of (asm_offsets b) s of None \<Rightarrow> 0 | Some v \<Rightarrow> v)"

definition rep_invariant :: "build \<Rightarrow> platform \<Rightarrow> cpu \<Rightarrow> bool" where
  "rep_invariant b P c \<longleftrightarrow>
     csr_ref c Stvec = sym_alltraps P \<and> gpr_ref c sp = sym_bootstack P + asm_constant b ''KSTACKSIZE''"

definition abs_function :: "cpu \<Rightarrow> tick_state" where
  "abs_function c = \<lparr>tick = ticks (kern c)\<rparr>"

definition cpu_interrupt :: "build \<Rightarrow> platform \<Rightarrow> compiled \<Rightarrow> u64 \<Rightarrow> cpu \<Rightarrow> cpu res" where
  "cpu_interrupt b P C code c =
     (let c1 = c\<lparr>pc := csr_ref c Stvec\<rparr>; c2 = csr_set Scause code c1 in run_vector b P C c2)"

definition interrupt_cause :: "u64 \<Rightarrow> u64" where
  "interrupt_cause code = code OR push_bit 63 1"

text \<open>The array \<open>bootstack\<close> of \<open>kern/init/stack.c\<close>, by the addresses of its elements.\<close>

definition bootstack :: "platform \<Rightarrow> u64 list" where
  "bootstack P = map (slot (sym_bootstack P)) [0..<unat (KSTACKSIZE div 8)]"


section \<open>What the assembler code does\<close>

lemma exec_stores:
  assumes "aligned (gpr_ref c sp)" and "\<forall>i \<in> set rs. stack_mem c (slot (gpr_ref c sp) i) \<noteq> None"
  shows "exec_all (map (\<lambda>i. STORE i (of_nat i * REGBYTES) sp) rs) c =
    Inr (c\<lparr>stack_mem := fold (\<lambda>i m. m(slot (gpr_ref c sp) i \<mapsto> gpr_ref c i)) rs (stack_mem c)\<rparr>)"
  using assms
proof (induction rs arbitrary: c)
  case (Cons r rs)
  let ?c = "c\<lparr>stack_mem := (stack_mem c)(slot (gpr_ref c sp) r \<mapsto> gpr_ref c r)\<rparr>"
  have "exec (STORE r (of_nat r * REGBYTES) sp) c = Inr ?c"
    using Cons.prems by (simp add: mem_store_def slot_def [symmetric])
  moreover have "\<forall>i \<in> set rs. stack_mem ?c (slot (gpr_ref ?c sp) i) \<noteq> None"
    using Cons.prems by simp
  ultimately show ?case using Cons.IH [of ?c] Cons.prems(1) by simp
qed simp

lemma fold_slots:
  assumes "\<forall>i \<in> set rs. i < 2 ^ 60" and "j < 2 ^ 60"
  shows "fold (\<lambda>i m. m(slot a i \<mapsto> f i)) rs m (slot a j) = (if j \<in> set rs then Some (f j) else m (slot a j))"
  using assms(1) by (induction rs arbitrary: m) (auto simp: slot_eq_iff [OF assms(2)])

lemma fold_slots_other:
  "x \<notin> slot a ` set rs \<Longrightarrow> fold (\<lambda>i m. m(slot a i \<mapsto> f i)) rs m x = m x"
  by (induction rs arbitrary: m) auto

lemma exec_loads:
  assumes "aligned a" and "gpr_ref c sp = a" and "0 \<notin> set rs" and "sp \<notin> set rs"
    and "\<forall>i \<in> set rs. stack_mem c (slot a i) = Some (f i)"
  shows "exec_all (map (\<lambda>i. LOAD i (of_nat i * REGBYTES) sp) rs) c =
    Inr (c\<lparr>gprs := \<lambda>r. if r \<in> set rs then f r else gprs c r\<rparr>)"
  using assms(2-)
proof (induction rs arbitrary: c)
  case (Cons r rs)
  let ?c = "c\<lparr>gprs := (gprs c)(r := f r)\<rparr>"
  have "exec (LOAD r (of_nat r * REGBYTES) sp) c = Inr ?c"
    using Cons.prems assms(1) by (simp add: mem_load_def slot_def [symmetric] gpr_set_def)
  moreover have "gpr_ref ?c sp = a" using Cons.prems by (simp add: gpr_ref_def split: if_splits)
  ultimately show ?case using Cons.IH [of ?c] Cons.prems
    by (auto simp: fun_eq_iff intro!: arg_cong2 [where f = gprs_update] split: if_splits)
qed simp

text \<open>What a trap saves: the word of the frame for each of its members.\<close>

definition saved :: "cpu \<Rightarrow> nat \<Rightarrow> u64" where
  "saved c i =
     (if i < 32 then gpr_ref c i
      else if i = 32 then csr_ref c Sstatus
      else if i = 33 then csr_ref c Sepc
      else if i = 34 then csr_ref c Sbadaddr
      else csr_ref c Scause)"

text \<open>The stack has room for a frame, which starts at \<open>frame_base\<close>.\<close>

definition frame_base :: "cpu \<Rightarrow> u64" where
  "frame_base c = gpr_ref c sp - 36 * REGBYTES"

definition frame_room :: "cpu \<Rightarrow> bool" where
  "frame_room c \<longleftrightarrow> aligned (gpr_ref c sp) \<and> 36 * REGBYTES \<le> gpr_ref c sp \<and>
     list_all (\<lambda>i. stack_mem c (slot (frame_base c) i) \<noteq> None) [0..<36]"

lemma frame_top: "slot (frame_base c) 36 = gpr_ref c sp"
  by (simp add: slot_def frame_base_def)

lemma frame_slot_below:
  assumes "frame_room c" and "i < 36"
  shows "slot (frame_base c) i < gpr_ref c sp" and "frame_base c \<le> slot (frame_base c) i"
proof -
  have le: "36 * REGBYTES \<le> gpr_ref c sp" using assms(1) by (simp add: frame_room_def)
  have "unat (frame_base c) = unat (gpr_ref c sp) - 288"
    using unat_u64_sub [OF le] by (simp add: frame_base_def REGBYTES_8)
  moreover have "288 \<le> unat (gpr_ref c sp)" using le by (simp add: REGBYTES_8 word_le_nat_alt)
  moreover have "unat (slot (frame_base c) i) = unat (frame_base c) + 8 * i"
    using calculation assms(2) unat_u64_less [of "gpr_ref c sp"] by (intro unat_slot) simp
  ultimately show "slot (frame_base c) i < gpr_ref c sp" "frame_base c \<le> slot (frame_base c) i"
    using assms(2) by (simp_all add: word_less_nat_alt word_le_nat_alt)
qed


lemma set_other_regs: "set other_regs = {i. 0 < i \<and> i < 32 \<and> i \<noteq> sp}"
  by (force simp: other_regs_def simp del: upt_rec_numeral)

lemma slot_numeral: "a + numeral k * REGBYTES = slot a (numeral k)"
  by (simp add: slot_def)

text \<open>The second half of \<open>SAVE_ALL\<close>: the status registers and the stack pointer, by way of \<open>sscratch\<close>.\<close>

lemma save_csrs:
  assumes a: "gpr_ref c sp = a" "aligned a" and m: "\<forall>i < 36. stack_mem c (slot a i) \<noteq> None"
  obtains c' where
    "exec_all save_status c = Inr c'"
    and "stack_mem c' = (stack_mem c)(slot a 2 \<mapsto> csr_ref c Sscratch, slot a 32 \<mapsto> csr_ref c Sstatus,
       slot a 33 \<mapsto> csr_ref c Sepc, slot a 34 \<mapsto> csr_ref c Sbadaddr, slot a 35 \<mapsto> csr_ref c Scause)"
    and "gpr_ref c' sp = a" and "kern c' = write_csr Sscratch 0 (kern c)" and "pc c' = pc c" "priv c' = priv c"
proof -
  let ?w = "\<lambda>i. stack_mem c (slot a i)"
  have w: "?w 2 \<noteq> None" "?w 32 \<noteq> None" "?w 33 \<noteq> None" "?w 34 \<noteq> None" "?w 35 \<noteq> None"
    using m by simp_all
  have x0: "gpr_ref c 0 = 0" by (simp add: gpr_ref_def)
  have k: "kern (csr_set Sscratch 0 c) = write_csr Sscratch 0 (kern c)" by (simp add: csr_set_def)
  let ?r = "gpr_set s4 (csr_ref c Scause) (gpr_set s3 (csr_ref c Sbadaddr) (gpr_set s2 (csr_ref c Sepc)
    (gpr_set s1 (csr_ref c Sstatus) (gpr_set s0 (csr_ref c Sscratch) (csr_set Sscratch 0 c)))))"
  let ?m = "(stack_mem c)(slot a 2 \<mapsto> csr_ref c Sscratch, slot a 32 \<mapsto> csr_ref c Sstatus,
       slot a 33 \<mapsto> csr_ref c Sepc, slot a 34 \<mapsto> csr_ref c Sbadaddr, slot a 35 \<mapsto> csr_ref c Scause)"
  show ?thesis
    using w by (intro that [of "?r\<lparr>stack_mem := ?m\<rparr>"])
      (simp_all add: save_status_def mem_store_def gpr_ref_set csr_ref_set a slot_numeral x0 k slot_eq_iff)
qed

lemma save_all:
  assumes room: "frame_room c"
  obtains c' where "exec_all SAVE_ALL c = Inr c'" and "gpr_ref c' sp = frame_base c"
    and "\<forall>i < 36. stack_mem c' (slot (frame_base c) i) = Some (saved c i)"
    and "\<forall>x. gpr_ref c sp \<le> x \<longrightarrow> stack_mem c' x = stack_mem c x"
    and "kern c' = write_csr Sscratch 0 (kern c)" and "pc c' = pc c" and "priv c' = priv c"
proof -
  let ?a = "frame_base c" and ?rs = "x0 # other_regs"
  let ?c1 = "gpr_set sp ?a (csr_set Sscratch (gpr_ref c sp) c)"
  define m where "m = fold (\<lambda>i m. m(slot ?a i \<mapsto> gpr_ref ?c1 i)) ?rs (stack_mem c)"
  let ?c2 = "?c1\<lparr>stack_mem := m\<rparr>"
  have al: "aligned ?a" using room slot_aligned [of ?a 36] by (simp add: frame_room_def frame_top)
  have mp: "stack_mem c (slot ?a i) \<noteq> None" if "i < 36" for i
    using room that by (auto simp: frame_room_def list_all_iff)
  have sp1: "gpr_ref ?c1 sp = ?a" by (simp add: gpr_ref_set)
  have rs: "i < 32" if "i \<in> set ?rs" for i using that by (auto simp: set_other_regs)
  have head: "exec_all [CSRW Sscratch sp, ADDI sp sp (- (36 * REGBYTES))] c = Inr ?c1"
    by (simp add: frame_base_def)
  have mid: "exec_all (map (\<lambda>i. STORE i (of_nat i * REGBYTES) sp) ?rs) ?c1 = Inr ?c2"
    using exec_stores [of ?c1 ?rs] al mp rs unfolding sp1 m_def by fastforce
  have m: "m (slot ?a j) = (if j \<in> set ?rs then Some (gpr_ref ?c1 j) else stack_mem c (slot ?a j))" if "j < 36" for j
    using that rs unfolding m_def by (intro fold_slots) fastforce+
  have m_top: "m x = stack_mem c x" if "gpr_ref c sp \<le> x" for x
    using that frame_slot_below(1) [OF room] rs unfolding m_def by (intro fold_slots_other) fastforce
  have "\<forall>i < 36. stack_mem ?c2 (slot ?a i) \<noteq> None" using m mp by simp
  then obtain c' where tail: "exec_all save_status ?c2 = Inr c'"
    and mem: "stack_mem c' = m(slot ?a 2 \<mapsto> gpr_ref c sp, slot ?a 32 \<mapsto> csr_ref c Sstatus,
       slot ?a 33 \<mapsto> csr_ref c Sepc, slot ?a 34 \<mapsto> csr_ref c Sbadaddr, slot ?a 35 \<mapsto> csr_ref c Scause)"
    and rest: "gpr_ref c' sp = ?a" "kern c' = write_csr Sscratch 0 (kern ?c2)" "pc c' = pc c" "priv c' = priv c"
    using save_csrs [of ?c2 ?a thesis] sp1 al by (simp add: csr_ref_set)
  show ?thesis
  proof (rule that [OF _ rest(1) _ _ _ rest(3,4)])
    show "exec_all SAVE_ALL c = Inr c'"
      using head mid tail by (simp only: SAVE_ALL_def exec_all_append res_bind_Inr)
    show "kern c' = write_csr Sscratch 0 (kern c)" using rest(2) by (simp add: csr_set_def write_csr_def)
    show "\<forall>i < 36. stack_mem c' (slot ?a i) = Some (saved c i)"
      by (simp add: mem m slot_eq_iff set_other_regs saved_def gpr_ref_set)
    show "\<forall>x. gpr_ref c sp \<le> x \<longrightarrow> stack_mem c' x = stack_mem c x"
    proof (intro allI impI)
      fix x assume x: "gpr_ref c sp \<le> x"
      then have "x \<noteq> slot ?a i" if "i < 36" for i using frame_slot_below(1) [OF room that] by auto
      then show "stack_mem c' x = stack_mem c x" using m_top [OF x] by (simp add: mem)
    qed
  qed
qed


lemma restore_all:
  assumes a: "gpr_ref c sp = a" "aligned a" and m: "\<forall>i < 36. stack_mem c (slot a i) = Some (f i)"
  obtains c' where "exec_all RESTORE_ALL c = Inr c'" and "\<forall>i. 0 < i \<and> i < 32 \<longrightarrow> gpr_ref c' i = f i"
    and "kern c' = write_csr Sepc (f 33) (write_csr Sstatus (f 32) (kern c))"
    and "stack_mem c' = stack_mem c" and "pc c' = pc c" and "priv c' = priv c"
proof -
  let ?head = "[LOAD s1 (32 * REGBYTES) sp, LOAD s2 (33 * REGBYTES) sp, CSRW Sstatus s1, CSRW Sepc s2]"
  let ?c1 = "csr_set Sepc (f 33) (csr_set Sstatus (f 32) (gpr_set s2 (f 33) (gpr_set s1 (f 32) c)))"
  let ?c2 = "?c1\<lparr>gprs := \<lambda>r. if r \<in> set other_regs then f r else gprs ?c1 r\<rparr>"
  have head: "exec_all ?head c = Inr ?c1"
    using m by (simp add: mem_load_def slot_numeral a gpr_ref_set)
  have mid: "exec_all (map (\<lambda>i. LOAD i (of_nat i * REGBYTES) sp) other_regs) ?c1 = Inr ?c2"
    by (rule exec_loads [OF a(2)]) (use m in \<open>auto simp: a gpr_ref_set set_other_regs\<close>)
  have sp2: "gpr_ref ?c2 sp = a" using a by (simp add: gpr_ref_def gpr_set_def csr_set_def set_other_regs)
  have tail: "exec_all [LOAD sp (2 * REGBYTES) sp] ?c2 = Inr (gpr_set sp (f 2) ?c2)"
    using m a(2) by (simp add: mem_load_def sp2 slot_numeral)
  show ?thesis
  proof (rule that)
    show "exec_all RESTORE_ALL c = Inr (gpr_set sp (f 2) ?c2)"
      using head mid tail by (simp only: RESTORE_ALL_def exec_all_append res_bind_Inr)
    show "\<forall>i. 0 < i \<and> i < 32 \<longrightarrow> gpr_ref (gpr_set sp (f 2) ?c2) i = f i"
      by (simp add: gpr_ref_def gpr_set_def set_other_regs)
  qed (simp_all add: csr_set_def)
qed

text \<open>The kernel's state after \<open>__trapret\<close>: \<open>sepc\<close> and \<open>sstatus\<close> from the frame, the latter as \<open>sret\<close> leaves it.\<close>

definition status_after_sret :: "u64 \<Rightarrow> u64" where
  "status_after_sret st =
     ((if bit st 5 then st OR SSTATUS_SIE else st AND NOT SSTATUS_SIE) OR SSTATUS_SPIE) AND NOT SSTATUS_SPP"

lemma read_frame_saved:
  "\<forall>i < 36. m (slot a i) = Some (w i) \<Longrightarrow> read_frame m a = Some (frame_of w)"
  using slot_0 [of a] by (force simp: read_frame_def frame_of_def list_all_iff)

lemma alltraps_result:
  assumes room: "frame_room c" and abi: "keeps_stack C"
  obtains c' k' where "alltraps b P C c = Inr c'"
    and "trap b P (frame_base c) (frame_of (saved c)) (write_csr Sscratch 0 (kern c)) = Inr k'"
    and "\<forall>i < 32. gpr_ref c' i = gpr_ref c i" and "\<forall>x. gpr_ref c sp \<le> x \<longrightarrow> stack_mem c' x = stack_mem c x"
    and "pc c' = csr_ref c Sepc" and "priv c' = (if bit (csr_ref c Sstatus) 8 then Supervisor else User)"
    and "kern c' = write_csr Sstatus (status_after_sret (csr_ref c Sstatus)) (write_csr Sepc (csr_ref c Sepc) k')"
proof -
  let ?a = "frame_base c"
  have al: "aligned ?a" using room slot_aligned [of ?a 36] by (simp add: frame_room_def frame_top)
  obtain c1 where c1: "exec_all SAVE_ALL c = Inr c1" "gpr_ref c1 sp = ?a"
    and m1: "\<forall>i < 36. stack_mem c1 (slot ?a i) = Some (saved c i)"
    and up1: "\<forall>x. gpr_ref c sp \<le> x \<longrightarrow> stack_mem c1 x = stack_mem c x"
    and k1: "kern c1 = write_csr Sscratch 0 (kern c)"
    by (rule save_all [OF room])
  let ?c2 = "gpr_set a0 ?a c1"
  obtain k' where k': "trap b P ?a (frame_of (saved c)) (write_csr Sscratch 0 (kern c)) = Inr k'"
    using trap_fields by metis
  let ?c3 = "?c2\<lparr>gprs := leaves_regs C ?c2, stack_mem := leaves_mem C ?c2, kern := k'\<rparr>"
  have call: "call_trap b P C ?c2 = Inr ?c3"
    using read_frame_saved [OF m1] k' by (simp add: call_trap_def gpr_ref_set k1)
  have sp2: "gpr_ref ?c2 sp = ?a" using c1 by (simp add: gpr_ref_set)
  have sp3: "gpr_ref ?c3 sp = ?a" using abi sp2 by (simp add: keeps_stack_def gpr_ref_def)
  have up3: "stack_mem ?c3 x = stack_mem c1 x" if "?a \<le> x" for x
    using abi sp2 that by (simp add: keeps_stack_def)
  have m3: "\<forall>i < 36. stack_mem ?c3 (slot ?a i) = Some (saved c i)"
    using m1 up3 frame_slot_below(2) [OF room] by metis
  obtain c4 where c4: "exec_all RESTORE_ALL ?c3 = Inr c4" "\<forall>i. 0 < i \<and> i < 32 \<longrightarrow> gpr_ref c4 i = saved c i"
    "kern c4 = write_csr Sepc (saved c 33) (write_csr Sstatus (saved c 32) (kern ?c3))"
    "stack_mem c4 = stack_mem ?c3"
    by (rule restore_all [OF sp3 al m3])
  have st4: "csr_ref c4 Sstatus = csr_ref c Sstatus" "csr_ref c4 Sepc = csr_ref c Sepc"
    using c4(3) by (simp_all add: csr_ref_def write_csr_def saved_def)
  show ?thesis
  proof (rule that [OF _ k'])
    show "alltraps b P C c = Inr (sret c4)"
      using c1 call c4(1) by (simp add: alltraps_def trapret_def)
    show "\<forall>i < 32. gpr_ref (sret c4) i = gpr_ref c i"
      using c4(2) by (auto simp: sret_def Let_def saved_def gpr_ref_def csr_set_def)
    have "?a \<le> x" if "gpr_ref c sp \<le> x" for x
      using frame_slot_below [OF room, of 0] that by simp
    then show "\<forall>x. gpr_ref c sp \<le> x \<longrightarrow> stack_mem (sret c4) x = stack_mem c x"
      using up1 up3 c4(4) by (simp add: sret_def Let_def)
  qed (simp_all add: sret_def Let_def st4 status_after_sret_def csr_set_def write_csr_def c4(3) saved_def csr_ref_def)
qed


lemmas status_bits = SSTATUS_SIE_def SSTATUS_SPIE_def SSTATUS_SPP_def

lemma status_masks [bit_simps]:
  "bit SSTATUS_SIE n \<longleftrightarrow> n = 1" "bit SSTATUS_SPIE n \<longleftrightarrow> n = 5" "bit SSTATUS_SPP n \<longleftrightarrow> n = 8"
proof -
  have "bit (2 ^ m :: u64) n \<longleftrightarrow> n = m" if "m < 64" for m using that by (auto simp: bit_exp_iff)
  from this [of 1] this [of 5] this [of 8]
  show "bit SSTATUS_SIE n \<longleftrightarrow> n = 1" "bit SSTATUS_SPIE n \<longleftrightarrow> n = 5" "bit SSTATUS_SPP n \<longleftrightarrow> n = 8"
    by (simp_all add: status_bits)
qed

lemma take_trap_fields:
  "gpr_ref (take_trap code tval c) = gpr_ref c" "stack_mem (take_trap code tval c) = stack_mem c"
  "pc (take_trap code tval c) = csr_ref c Stvec" "csr_ref (take_trap code tval c) Sepc = pc c"
  "csr_ref (take_trap code tval c) Scause = code" "csr_ref (take_trap code tval c) Sbadaddr = tval"
  "\<exists>st. kern (take_trap code tval c) =
     write_csr Sstatus st (write_csr Sbadaddr tval (write_csr Scause code (write_csr Sepc (pc c) (kern c))))"
  by (auto simp: take_trap_def Let_def gpr_ref_def csr_set_def csr_ref_def write_csr_def fun_eq_iff)

lemma take_trap_status:
  assumes "n < 64"
  shows "bit (csr_ref (take_trap code tval c) Sstatus) n \<longleftrightarrow>
    (if n = 1 then False else if n = 5 then bit (csr_ref c Sstatus) 1
     else if n = 8 then priv c = Supervisor else bit (csr_ref c Sstatus) n)"
  using assms
  by (auto simp: take_trap_def Let_def csr_ref_def csr_set_def write_csr_def bit_simps)

lemma status_after_sret_bits:
  assumes "n < 64"
  shows "bit (status_after_sret st) n \<longleftrightarrow>
    (if n = 1 then bit st 5 else if n = 5 then True else if n = 8 then False else bit st n)"
  using assms by (auto simp: status_after_sret_def bit_simps)

lemma trap_timer:
  assumes "trap b P a tf k = Inr k'"
  shows "\<exists>l. k' = (if is_timer tf then timer_tick P k else k)\<lparr>sbi_log := l\<rparr>"
proof -
  obtain k2 l where "trap b P a tf k = Inr k2" "k2 = (if is_timer tf then timer_tick P k else k)\<lparr>sbi_log := l\<rparr>"
    by (rule trap_fields)
  then show ?thesis using assms by auto
qed

lemma trap_frame_of:
  assumes "trap b P a tf k = Inr k'"
  obtains l where "k' = k\<lparr>ticks := ticks k', time_reads := time_reads k', sbi_log := l\<rparr>"
proof -
  obtain l where "k' = (if is_timer tf then timer_tick P k else k)\<lparr>sbi_log := l\<rparr>"
    using trap_timer [OF assms] by blast
  then show ?thesis by (intro that [of l]) (simp add: timer_tick_def)
qed

lemma kernel_fields:
  "(x :: kernel) = y\<lparr>ticks := t, time_reads := r, sbi_log := l, csrs := g\<rparr> \<Longrightarrow>
   x = y\<lparr>csrs := csrs x, ticks := ticks x, time_reads := time_reads x, sbi_log := l\<rparr>"
  by simp

lemma frame_room_take_trap: "frame_room (take_trap code tval c) \<longleftrightarrow> frame_room c"
  and frame_base_take_trap: "frame_base (take_trap code tval c) = frame_base c"
  by (simp_all add: frame_room_def frame_base_def take_trap_fields)

text \<open>The top of \<open>bootstack\<close> has room for a frame below it.\<close>

lemma room_on_bootstack:
  assumes top: "gpr_ref c sp = slot (sym_bootstack P) 1024"
    and m: "\<forall>a \<in> set (bootstack P). stack_mem c a \<noteq> None"
    and al: "unat (sym_bootstack P) mod unat PGSIZE = 0" and fit: "unat (sym_bootstack P) + unat KSTACKSIZE < 2 ^ 64"
  shows "frame_room c"
proof -
  have base: "frame_base c = slot (sym_bootstack P) 988"
    by (simp add: frame_base_def top slot_def REGBYTES_8)
  have "4096 dvd unat (sym_bootstack P)" using al by (simp add: layout_defs mod_eq_0_iff_dvd)
  then have "aligned (sym_bootstack P)" using dvd_trans [of "8 :: nat" 4096] by (simp add: aligned_iff)
  moreover have "unat (gpr_ref c sp) = unat (sym_bootstack P) + 8192"
    using unat_slot [of "sym_bootstack P" 1024] fit by (simp add: top layout_defs)
  moreover have "stack_mem c (slot (frame_base c) i) \<noteq> None" if "i < 36" for i
    using m that by (simp add: base slot_add bootstack_def layout_defs)
  ultimately show ?thesis
    by (simp add: frame_room_def top list_all_iff word_le_nat_alt REGBYTES_8)
qed

section \<open>Properties\<close>

text \<open>
  C3. Traps are transparent: whatever trap is taken while the trap vector is set and the stack has room
  for a frame, \<open>__alltraps\<close> hands \<open>trap\<close> a frame with the interrupted program's registers, its program
  counter and the cause, and after \<open>sret\<close> every general register, the program counter, the mode, the
  interrupt flag and the stack above the stack pointer are what they were before the trap. Of
  \<open>sstatus\<close> only the bits that a trap overwrites have changed, and of the kernel's variables only
  those that \<open>trap\<close> changed.
\<close>

theorem trap_transparent:
  assumes "frame_room c" and "keeps_stack C" and "csr_ref c Stvec = sym_alltraps P"
  shows "\<exists>c' w k l. interrupted b P C code tval c = Inr c' \<and>
    trap b P (frame_base c) (frame_of w) k = Inr ((kern c')\<lparr>csrs := csrs k\<rparr>) \<and>
    (\<forall>i < 32. w i = gpr_ref c i) \<and> w 33 = pc c \<and> w 34 = tval \<and> w 35 = code \<and>
    (\<forall>i < 32. gpr_ref c' i = gpr_ref c i) \<and> pc c' = pc c \<and> priv c' = priv c \<and>
    (\<forall>n. n \<noteq> 5 \<and> n \<noteq> 8 \<longrightarrow> bit (csr_ref c' Sstatus) n = bit (csr_ref c Sstatus) n) \<and>
    (\<forall>x. gpr_ref c sp \<le> x \<longrightarrow> stack_mem c' x = stack_mem c x) \<and>
    kern c' = (kern c)\<lparr>csrs := csrs (kern c'), ticks := ticks (kern c'),
      time_reads := time_reads (kern c'), sbi_log := l\<rparr> \<and>
    csr_ref c' Sie = csr_ref c Sie \<and> csr_ref c' Stvec = csr_ref c Stvec \<and> csr_ref c' Satp = csr_ref c Satp"
proof -
  let ?t = "take_trap code tval c"
  have room: "frame_room ?t" using assms(1) by (simp add: frame_room_take_trap)
  obtain c' k' where run: "alltraps b P C ?t = Inr c'"
    and k': "trap b P (frame_base ?t) (frame_of (saved ?t)) (write_csr Sscratch 0 (kern ?t)) = Inr k'"
    and regs: "\<forall>i < 32. gpr_ref c' i = gpr_ref ?t i"
    and mem: "\<forall>x. gpr_ref ?t sp \<le> x \<longrightarrow> stack_mem c' x = stack_mem ?t x"
    and pc': "pc c' = csr_ref ?t Sepc" and pr: "priv c' = (if bit (csr_ref ?t Sstatus) 8 then Supervisor else User)"
    and kc': "kern c' = write_csr Sstatus (status_after_sret (csr_ref ?t Sstatus)) (write_csr Sepc (csr_ref ?t Sepc) k')"
    by (rule alltraps_result [OF room assms(2)])
  obtain st where kt: "kern ?t = write_csr Sstatus st (write_csr Sbadaddr tval (write_csr Scause code
      (write_csr Sepc (pc c) (kern c))))" using take_trap_fields(7) by blast
  obtain l where k'l: "k' = (write_csr Sscratch 0 (kern ?t))\<lparr>ticks := ticks k', time_reads := time_reads k', sbi_log := l\<rparr>"
    by (rule trap_frame_of [OF k'])
  have "\<forall>i < 32. saved ?t i = gpr_ref c i" by (simp add: saved_def take_trap_fields)
  moreover have "saved ?t 33 = pc c" "saved ?t 34 = tval" "saved ?t 35 = code"
    by (simp_all add: saved_def take_trap_fields)
  moreover have "interrupted b P C code tval c = Inr c'"
    using run assms(3) by (simp add: interrupted_def run_vector_def take_trap_fields)
  moreover have "trap b P (frame_base c) (frame_of (saved ?t)) (write_csr Sscratch 0 (kern ?t)) =
      Inr ((kern c')\<lparr>csrs := csrs (write_csr Sscratch 0 (kern ?t))\<rparr>)"
    using k' arg_cong [OF k'l, of csrs] by (simp add: frame_base_take_trap kc' write_csr_def)
  moreover have "bit (csr_ref c' Sstatus) n = bit (csr_ref c Sstatus) n" if "n \<noteq> 5" "n \<noteq> 8" for n
  proof (cases "n < 64")
    case True
    then show ?thesis
      using that by (simp add: csr_ref_def [of c'] kc' write_csr_def status_after_sret_bits take_trap_status)
  qed (auto dest: bit_imp_le_length)
  moreover have "kern c' = (kern c)\<lparr>csrs := csrs (kern c'), ticks := ticks (kern c'),
      time_reads := time_reads (kern c'), sbi_log := l\<rparr>"
    by (rule kernel_fields, subst (1) kc', subst k'l) (simp add: kt write_csr_def)
  moreover have "csr_ref c' r = csr_ref c r" if "r \<in> {Sie, Stvec, Satp}" for r
    using that arg_cong [OF k'l, of csrs] by (auto simp: csr_ref_def kc' kt write_csr_def)
  moreover have "pc c' = pc c" "priv c' = priv c"
    using pc' pr by (simp_all add: take_trap_fields take_trap_status) (metis privilege.exhaust)
  ultimately show ?thesis
    using regs mem unfolding take_trap_fields
    by (intro exI [of _ c'] exI [of _ "saved ?t"] exI [of _ "write_csr Sscratch 0 (kern ?t)"] exI [of _ l]) blast
qed


text \<open>Compiled code that leaves everything as it was.\<close>

definition demo_compiled :: compiled where
  "demo_compiled = \<lparr>leaves_regs = gpr_ref, leaves_mem = stack_mem\<rparr>"

lemma demo_cpu_ok:
  "frame_room demo_cpu" "keeps_stack demo_compiled" "csr_ref demo_cpu Stvec = sym_alltraps (demo_platform [])"
  "rep_invariant Kernel (demo_platform []) demo_cpu"
  by (simp_all add: demo_cpu_def demo_compiled_def frame_room_def aligned_def LOG_REGBYTES_def REGBYTES_8
      gpr_ref_def keeps_stack_def csr_ref_def write_csr_def demo_platform_def list_all_iff rep_invariant_def
      asm_constant_def asm_offsets_def layout_defs)

theorem trap_transparent_witness:
  "\<exists>c'. interrupted Kernel (demo_platform []) demo_compiled 0x8000000000000005 0 demo_cpu = Inr c' \<and>
     pc c' = 0xFFFFFFFFC0201234 \<and> gpr_ref c' sp = 0xFFFFFFFFC0209000 \<and> gpr_ref c' 31 = 31 \<and>
     bit (csr_ref c' Sstatus) 1"
proof -
  have c: "pc demo_cpu = 0xFFFFFFFFC0201234" "gpr_ref demo_cpu sp = 0xFFFFFFFFC0209000" "gpr_ref demo_cpu 31 = 31"
    "bit (csr_ref demo_cpu Sstatus) 1"
    by (simp_all add: demo_cpu_def gpr_ref_def csr_ref_def write_csr_def bit_simps)
  obtain c' where "interrupted Kernel (demo_platform []) demo_compiled 0x8000000000000005 0 demo_cpu = Inr c'"
    and "\<forall>i < 32. gpr_ref c' i = gpr_ref demo_cpu i" "pc c' = pc demo_cpu"
    and "\<forall>n. n \<noteq> 5 \<and> n \<noteq> 8 \<longrightarrow> bit (csr_ref c' Sstatus) n = bit (csr_ref demo_cpu Sstatus) n"
    using trap_transparent [OF demo_cpu_ok(1-3), of Kernel "0x8000000000000005" 0] by blast
  then show ?thesis using c by auto
qed

text \<open>
  C5. The refinement that \<open>verif/riscv.rkt\<close> asks of the binary: from a state with the trap vector set and
  the stack pointer at the top of \<open>bootstack\<close>, the timer interrupt, run from the trap vector through
  \<open>SAVE_ALL\<close>, \<open>trap\<close> and \<open>RESTORE_ALL\<close> to \<open>sret\<close>, keeps that invariant and does to the tick
  counter what the specification \<open>intrp_timer\<close> does.
\<close>

theorem timer_refinement:
  assumes "rep_invariant b P c" and "keeps_stack C"
    and "\<forall>a \<in> set (bootstack P). stack_mem c a \<noteq> None"
    and "unat (sym_bootstack P) mod unat PGSIZE = 0" and "unat (sym_bootstack P) + unat KSTACKSIZE < 2 ^ 64"
  shows "\<exists>c'. cpu_interrupt b P C (interrupt_cause (asm_constant b ''IRQ_S_TIMER'')) c = Inr c' \<and>
    rep_invariant b P c' \<and> abs_function c' = intrp_timer (abs_function c)"
proof -
  let ?c = "csr_set Scause (interrupt_cause (asm_constant b ''IRQ_S_TIMER'')) (c\<lparr>pc := csr_ref c Stvec\<rparr>)"
  have stvec: "csr_ref ?c Stvec = sym_alltraps P" and top: "gpr_ref ?c sp = slot (sym_bootstack P) 1024"
    using assms(1) by (simp_all add: rep_invariant_def csr_ref_set csr_ref_def gpr_ref_def csr_set_def
        asm_constant_def asm_offsets_def layout_defs slot_def REGBYTES_8 write_csr_def)
  have pc: "pc ?c = sym_alltraps P" using assms(1) by (simp add: rep_invariant_def)
  have room: "frame_room ?c"
    using assms(3-5) by (intro room_on_bootstack [OF top]) (simp_all add: csr_set_def)
  obtain c' k' where run: "alltraps b P C ?c = Inr c'"
    and k': "trap b P (frame_base ?c) (frame_of (saved ?c)) (write_csr Sscratch 0 (kern ?c)) = Inr k'"
    and regs: "\<forall>i < 32. gpr_ref c' i = gpr_ref ?c i"
    and kc': "kern c' = write_csr Sstatus (status_after_sret (csr_ref ?c Sstatus)) (write_csr Sepc (csr_ref ?c Sepc) k')"
    by (rule alltraps_result [OF room assms(2)])
  have "is_timer (frame_of (saved ?c))"
    by (simp add: is_timer_def frame_of_def saved_def csr_ref_set interrupt_cause_def asm_constant_def
        asm_offsets_def irq_defs)
  then obtain l where "k' = (timer_tick P (write_csr Sscratch 0 (kern ?c)))\<lparr>sbi_log := l\<rparr>"
    using trap_timer [OF k'] by auto
  moreover have "gpr_ref c' sp = gpr_ref c sp" using regs [rule_format, of sp] by (simp add: gpr_ref_def csr_set_def)
  ultimately have "gpr_ref c' sp = gpr_ref c sp" "ticks (kern c') = ticks (kern c) + 1" and "csr_ref c' Stvec = csr_ref c Stvec"
    by (simp_all add: kc' timer_tick_def write_csr_def csr_ref_def csr_set_def)
  then show ?thesis
    using run pc assms(1)
    by (simp add: cpu_interrupt_def run_vector_def rep_invariant_def abs_function_def intrp_timer_def)
qed

theorem timer_refinement_witness:
  "\<exists>c'. cpu_interrupt Kernel (demo_platform []) demo_compiled (interrupt_cause (asm_constant Kernel ''IRQ_S_TIMER''))
       demo_cpu = Inr c' \<and> rep_invariant Kernel (demo_platform []) c' \<and> tick (abs_function c') = 1"
proof -
  have h: "\<forall>a \<in> set (bootstack (demo_platform [])). stack_mem demo_cpu a \<noteq> None"
    "unat (sym_bootstack (demo_platform [])) mod unat PGSIZE = 0"
    "unat (sym_bootstack (demo_platform [])) + unat KSTACKSIZE < 2 ^ 64"
    by (simp_all add: demo_cpu_def demo_platform_def layout_defs)
  have "tick (abs_function demo_cpu) = 0" by (simp add: abs_function_def demo_cpu_def demo_kernel_def write_csr_def)
  then show ?thesis
    using timer_refinement [OF demo_cpu_ok(4,2) h] by (auto simp: intrp_timer_def)
qed

end
