(* ===== verification/Boot.thy ===== *)
theory Boot
  imports Riscv_Asm Mmu
begin

unbundle bit_operations_syntax

text \<open>
  The entry of the kernel in assembler (\<open>kern/init/entry.S\<close>): the boot page table, and the code that
  switches to it, sets the stack (\<open>kern/init/stack.c\<close>) and jumps to \<open>kern_init\<close>. Address translation is
  that of Sv39, as the hardware does it for supervisor mode; physical memory is a function from the
  addresses of page table entries.
\<close>

section \<open>Address translation\<close>

datatype access = Fetch | Load_access | Store_access

text \<open>
  A leaf lets an access through when its permission is set, the page is not a user page, the accessed
  flag is set, and for a store the dirty flag.
\<close>

definition permits :: "access \<Rightarrow> u64 \<Rightarrow> bool" where
  "permits acc pte \<longleftrightarrow>
     pte AND PTE_U = 0 \<and> pte AND PTE_A \<noteq> 0 \<and>
     (case acc of Fetch \<Rightarrow> pte AND PTE_X \<noteq> 0
      | Load_access \<Rightarrow> pte AND PTE_R \<noteq> 0
      | Store_access \<Rightarrow> pte AND PTE_W \<noteq> 0 \<and> pte AND PTE_D \<noteq> 0)"

definition pte_ppn :: "u64 \<Rightarrow> u64" where
  "pte_ppn pte = take_bit 44 (drop_bit SV39_PTE_PPN_SHIFT pte)"

text \<open>One entry at a level of the tree: a fault, a page of that level's size, or the next table.\<close>

datatype walk = Page_fault | Mapped u64 | Table u64

definition walk_entry :: "access \<Rightarrow> u64 \<Rightarrow> nat \<Rightarrow> u64 \<Rightarrow> walk" where
  "walk_entry acc va level pte =
     (if pte AND PTE_V = 0 \<or> (pte AND PTE_R = 0 \<and> pte AND PTE_W \<noteq> 0) then Page_fault
      else if pte AND PTE_R \<noteq> 0 \<or> pte AND PTE_X \<noteq> 0 then
        (if permits acc pte \<and> take_bit (9 * level) (pte_ppn pte) = 0
         then Mapped (push_bit PGSHIFT (pte_ppn pte) OR take_bit (9 * level + PGSHIFT) va)
         else Page_fault)
      else Table (push_bit PGSHIFT (pte_ppn pte)))"

fun sv39_walk :: "(u64 \<Rightarrow> u64) \<Rightarrow> access \<Rightarrow> u64 \<Rightarrow> nat \<Rightarrow> u64 \<Rightarrow> u64 option" where
  "sv39_walk pm acc va level a =
     (case walk_entry acc va level (pm (a + SV39_VPN va level * 8)) of
        Page_fault \<Rightarrow> None
      | Mapped pa \<Rightarrow> Some pa
      | Table a' \<Rightarrow> (case level of 0 \<Rightarrow> None | Suc l \<Rightarrow> sv39_walk pm acc va l a'))"

definition translate :: "u64 \<Rightarrow> (u64 \<Rightarrow> u64) \<Rightarrow> access \<Rightarrow> u64 \<Rightarrow> u64 option" where
  "translate satp pm acc va =
     (if drop_bit 60 satp = 0 then Some va
      else if drop_bit 60 satp = 8 \<and> signed_take_bit 38 va = va
           then sv39_walk pm acc va 2 (push_bit PGSHIFT (take_bit 44 satp))
           else None)"

section \<open>The entry code\<close>

text \<open>
  The relocations \<open>%hi\<close> and \<open>%lo\<close>: the linker splits an address so that \<open>lui\<close> of the first plus the
  signed 12-bit second gives it back.
\<close>

definition hi20 :: "u64 \<Rightarrow> u64" where
  "hi20 s = take_bit 20 (drop_bit 12 (s + 0x800))"

definition lo12 :: "u64 \<Rightarrow> u64" where
  "lo12 s = take_bit 12 (s + 0x800) - 0x800"

definition kern_entry_code :: "platform \<Rightarrow> insn list" where
  "kern_entry_code P =
     [LUI t0 (hi20 (sym_boot_page_table_sv39 P)),
      LI t1 (0xffffffffc0000000 - 0x80000000),
      SUB t0 t0 t1,
      SRLI t0 t0 12,
      LI t1 (push_bit 60 8),
      ORR t0 t0 t1,
      CSRW Satp t0,
      SFENCE_VMA,
      LUI sp (hi20 (sym_bootstack P + KSTACKSIZE)),
      LUI t0 (hi20 (sym_kern_init P)),
      ADDI t0 t0 (lo12 (sym_kern_init P))]"

definition kern_entry :: "platform \<Rightarrow> cpu \<Rightarrow> cpu res" where
  "kern_entry P c = res_bind (exec_all (kern_entry_code P) c) (\<lambda>c'. Inr (c'\<lparr>pc := gpr_ref c' t0\<rparr>))"

definition boot_page_table_sv39 :: "u64 list" where
  "boot_page_table_sv39 = replicate 511 0 @ [push_bit 10 0x80000 OR 0xcf]"

text \<open>The page table lies in physical memory where the image is loaded.\<close>

definition table_loaded :: "platform \<Rightarrow> (u64 \<Rightarrow> u64) \<Rightarrow> bool" where
  "table_loaded P pm \<longleftrightarrow>
     (\<forall>i < 512. pm (sym_boot_page_table_sv39 P - PHYSICAL_MEMORY_OFFSET + of_nat i * 8) = boot_page_table_sv39 ! i)"

section \<open>Relocations\<close>

lemma unat_u64_power: "k < 64 \<Longrightarrow> unat (2 ^ k :: u64) = 2 ^ k"
  using unat_of_nat_u64 [of "2 ^ k"] power_strict_increasing [of k 64 "2 :: nat"] by simp

lemma high_bits:
  assumes le: "2 ^ 64 - 2 ^ k \<le> unat u" and k: "k \<le> n" "n < 64"
  shows "bit (u :: u64) n"
proof (rule ccontr)
  assume "\<not> bit u n"
  then have "bit (NOT u) n" using k by (simp add: bit_simps)
  moreover have "unat (NOT u) = 2 ^ 64 - 1 - unat u"
  proof -
    have "NOT u = - 1 - u" by (simp add: not_eq_complement)
    moreover have "unat (- 1 :: u64) = 2 ^ 64 - 1" by (simp add: unsigned_minus_1_eq_mask mask_eq_exp_minus_1)
    ultimately show ?thesis using unat_u64_sub [of u "- 1"] by simp
  qed
  moreover have "(2 :: nat) ^ k < 2 ^ 64" using k by (intro power_strict_increasing) simp_all
  moreover have "unat (NOT u) < 2 ^ k" using calculation(2,3) le unat_u64_less [of u] by linarith
  ultimately show False
    using k bit_small [of "NOT u" k n] unat_u64_power [of k] by (simp add: word_less_nat_alt)
qed

lemma lui_hi:
  assumes "0xFFFFFFFF80000000 \<le> s + 0x800"
  shows "signed_take_bit 31 (push_bit 12 (hi20 s)) = s + 0x800 - take_bit 12 (s + 0x800 :: u64)"
proof -
  let ?u = "s + 0x800"
  have high: "bit ?u n" if "31 \<le> n" "n < 64" for n
    using assms that by (intro high_bits [of 31]) (simp_all add: word_le_nat_alt)
  have "signed_take_bit 31 (push_bit 12 (hi20 s)) = ?u AND NOT (mask 12)"
    by (rule bit_eqI) (auto simp: hi20_def bit_simps min_def high)
  also have "\<dots> = ?u - take_bit 12 ?u"
    by (subst disjunctive_diff_eq_and_not) (auto simp: bit_simps bit_eq_iff)
  finally show ?thesis .
qed

lemma lui_addi: "0xFFFFFFFF80000000 \<le> s + 0x800 \<Longrightarrow> signed_take_bit 31 (push_bit 12 (hi20 s)) + lo12 s = s"
  by (simp add: lui_hi lo12_def)


section \<open>The mapping of the boot page table\<close>

definition KERNEL_SPACE :: u64 where
  "KERNEL_SPACE = 0xFFFFFFFFC0000000"

lemma kernel_space_iff: "KERNEL_SPACE \<le> va \<longleftrightarrow> 2 ^ 64 - 2 ^ 30 \<le> unat va"
  by (simp add: KERNEL_SPACE_def word_le_nat_alt)

text \<open>The last entry of the root table serves exactly the top gigabyte of canonical addresses.\<close>

lemma top_entry_iff: "signed_take_bit 38 va = va \<and> SV39_VPN va 2 = 511 \<longleftrightarrow> KERNEL_SPACE \<le> va"
proof
  assume "KERNEL_SPACE \<le> va"
  then have high: "bit va n" if "30 \<le> n" "n < 64" for n
    using high_bits [of 30 va n] that by (simp add: kernel_space_iff)
  have "signed_take_bit 38 va = va"
    by (rule bit_eqI) (auto simp: bit_simps min_def high)
  moreover have "SV39_VPN va 2 = mask 9"
    by (rule bit_eqI) (auto simp: vpn_take_bit bit_simps high)
  ultimately show "signed_take_bit 38 va = va \<and> SV39_VPN va 2 = 511"
    by (simp add: mask_eq_exp_minus_1)
next
  assume a: "signed_take_bit 38 va = va \<and> SV39_VPN va 2 = 511"
  have m: "(511 :: u64) = mask 9" by (simp add: mask_eq_exp_minus_1)
  have "bit (SV39_VPN va 2) n" if "n < 9" for n using a that unfolding m by (simp add: bit_simps)
  then have low: "bit va (30 + n)" if "n < 9" for n using that by (auto simp: vpn_take_bit bit_simps)
  have ext: "bit va n = bit va (min 38 n)" if "n < 64" for n
  proof -
    have "bit (signed_take_bit 38 va) n = bit va (min 38 n)" using that by (simp add: bit_signed_take_bit_iff)
    then show ?thesis using a by simp
  qed
  have "bit va n" if "30 \<le> n" "n < 64" for n
  proof -
    have "bit va (min 38 n)" using low [of "min 38 n - 30"] that by simp
    then show ?thesis by (simp only: ext [OF that(2)])
  qed
  then have "drop_bit 30 va = mask 34" by (intro bit_eqI) (auto simp: bit_simps dest: bit_imp_le_length)
  then have "unat (drop_bit 30 va) = unat (mask 34 :: u64)" by simp
  moreover have "unat (drop_bit 30 va) = unat va div 2 ^ 30"
    by (simp only: unat_drop_bit_eq) (simp add: drop_bit_eq_div)
  ultimately have "unat va div 2 ^ 30 = 2 ^ 34 - 1" by (simp add: mask_eq_exp_minus_1)
  then have "(2 ^ 34 - 1) * 2 ^ 30 \<le> unat va" using div_times_less_eq_dividend [of "unat va" "2 ^ 30"] by simp
  then show "KERNEL_SPACE \<le> va" by (simp add: kernel_space_iff)
qed

lemma boot_entry:
  "boot_page_table_sv39 ! unat (SV39_VPN va 2) = (if SV39_VPN va 2 = 511 then 0x200000CF else 0)"
proof -
  have "unat (SV39_VPN va 2) < 2 ^ 9"
    unfolding vpn_take_bit unsigned_take_bit_eq by (rule take_bit_nat_less_exp)
  moreover have "unat (SV39_VPN va 2) = 511 \<longleftrightarrow> SV39_VPN va 2 = 511"
    using word_unat_eq_iff [of "SV39_VPN va 2" 511] by simp
  ultimately show ?thesis by (auto simp: boot_page_table_sv39_def nth_append nth_Cons')
qed

lemmas pte_flags = PTE_V_def PTE_R_def PTE_W_def PTE_X_def PTE_U_def PTE_A_def PTE_D_def

lemma walk_boot:
  "walk_entry acc va 2 0x200000CF = Mapped (0x80000000 OR take_bit 30 va)"
  "walk_entry acc va 2 0 = Page_fault"
  by (simp_all add: walk_entry_def permits_def pte_ppn_def pte_flags SV39_PTE_PPN_SHIFT_def PGSHIFT_def
      take_bit_eq_mod drop_bit_eq_div split: access.split)

lemma kernel_space_pa:
  assumes "KERNEL_SPACE \<le> va"
  shows "0x80000000 OR take_bit 30 va = va - PHYSICAL_MEMORY_OFFSET"
proof -
  have high: "bit va n" if "30 \<le> n" "n < 64" for n
    using high_bits [of 30 va n] that assms by (simp add: kernel_space_iff)
  have disj: "push_bit k 1 AND take_bit j va = 0" if "j \<le> k" for j k
    using that by (intro bit_eqI) (auto simp: bit_simps)
  have "push_bit 31 1 AND take_bit 30 va = 0" by (rule disj) simp
  then have "push_bit 31 1 OR take_bit 30 va = push_bit 31 1 + take_bit 30 va"
    by (rule disjunctive_add_eq_or [symmetric])
  moreover have ks: "KERNEL_SPACE = NOT (mask 30)" by (simp add: KERNEL_SPACE_def mask_eq_exp_minus_1)
  have "KERNEL_SPACE AND take_bit 30 va = 0" unfolding ks by (rule bit_eqI) (auto simp: bit_simps)
  then have "KERNEL_SPACE + take_bit 30 va = KERNEL_SPACE OR take_bit 30 va"
    by (rule disjunctive_add_eq_or)
  moreover have "KERNEL_SPACE OR take_bit 30 va = va"
    unfolding ks by (rule bit_eqI) (auto simp: bit_simps high)
  ultimately show ?thesis by (simp add: KERNEL_SPACE_def layout_defs push_bit_eq_mult)
qed

lemma translate_boot:
  assumes pt: "table_loaded P pm" and satp: "drop_bit 60 satp = 8"
    "push_bit PGSHIFT (take_bit 44 satp) = sym_boot_page_table_sv39 P - PHYSICAL_MEMORY_OFFSET"
  shows "translate satp pm acc va = (if KERNEL_SPACE \<le> va then Some (va - PHYSICAL_MEMORY_OFFSET) else None)"
proof -
  let ?i = "SV39_VPN va 2"
  have "unat ?i < 2 ^ 9" unfolding vpn_take_bit unsigned_take_bit_eq by (rule take_bit_nat_less_exp)
  then have "pm (sym_boot_page_table_sv39 P - PHYSICAL_MEMORY_OFFSET + ?i * 8) = boot_page_table_sv39 ! unat ?i"
    using pt [unfolded table_loaded_def, rule_format, of "unat ?i"] by simp
  then have pte: "pm (sym_boot_page_table_sv39 P - PHYSICAL_MEMORY_OFFSET + ?i * 8) =
      (if ?i = 511 then 0x200000CF else 0)" by (simp only: boot_entry)
  show ?thesis
  proof (cases "KERNEL_SPACE \<le> va")
    case True
    then have "signed_take_bit 38 va = va \<and> ?i = 511" by (simp only: top_entry_iff)
    then show ?thesis
      using True pte satp kernel_space_pa by (simp add: translate_def walk_boot)
  next
    case False
    then have "signed_take_bit 38 va \<noteq> va \<or> ?i \<noteq> 511" by (simp only: top_entry_iff [symmetric]) blast
    then show ?thesis
      using False pte satp by (auto simp: translate_def walk_boot)
  qed
qed


text \<open>A platform's symbols lie where \<open>tools/kernel.ld\<close> puts the image: in the kernel's address space.\<close>

definition linked_high :: "platform \<Rightarrow> bool" where
  "linked_high P \<longleftrightarrow>
     (\<forall>s \<in> {sym_boot_page_table_sv39 P, sym_bootstack P + KSTACKSIZE, sym_kern_init P}.
        KERNEL_SPACE \<le> s \<and> s < 0xFFFFFFFFFFFFF000) \<and>
     take_bit 12 (sym_boot_page_table_sv39 P) = 0 \<and> take_bit 12 (sym_bootstack P) = 0"

lemma take_bit_12_plus:
  assumes "take_bit 12 s = 0"
  shows "take_bit 12 (s + x :: u64) = take_bit 12 x"
proof -
  have u: "unat (take_bit 12 w) = unat w mod 2 ^ 12" for w :: u64
    by (subst unsigned_take_bit_eq) (simp only: take_bit_eq_mod)
  have s: "unat s mod 2 ^ 12 = 0" using u [of s] assms by simp
  have "unat (s + x) mod 2 ^ 12 = (unat s + unat x) mod 2 ^ 12"
    by (simp add: unat_word_ariths mod_mod_cancel)
  also have "\<dots> = unat x mod 2 ^ 12" using mod_add_left_eq [of "unat s" "2 ^ 12" "unat x"] s by simp
  finally have "unat (take_bit 12 (s + x)) = unat (take_bit 12 x)" unfolding u .
  then show ?thesis by (simp only: word_unat_eq_iff)
qed

lemma lui_high:
  assumes "KERNEL_SPACE \<le> s" and "s < 0xFFFFFFFFFFFFF000"
  shows "signed_take_bit 31 (push_bit 12 (hi20 s)) + lo12 s = s"
    and "take_bit 12 s = 0 \<Longrightarrow> signed_take_bit 31 (push_bit 12 (hi20 s)) = s"
proof -
  have "unat (s + 0x800) = unat s + 0x800"
    using assms(2) by (intro unat_u64_add [where y = "0x800", simplified]) (simp add: word_less_nat_alt)
  then have "0xFFFFFFFF80000000 \<le> s + 0x800"
    using assms(1) by (simp add: KERNEL_SPACE_def word_le_nat_alt)
  then show "signed_take_bit 31 (push_bit 12 (hi20 s)) + lo12 s = s"
    and "take_bit 12 s = 0 \<Longrightarrow> signed_take_bit 31 (push_bit 12 (hi20 s)) = s"
    using lui_hi [of s] by (simp_all add: lo12_def take_bit_12_plus)
qed

lemma kern_entry_result:
  assumes "linked_high P"
  shows "\<exists>c'. kern_entry P c = Inr c' \<and> pc c' = sym_kern_init P \<and>
    gpr_ref c' sp = sym_bootstack P + KSTACKSIZE \<and>
    csr_ref c' Satp = drop_bit 12 (sym_boot_page_table_sv39 P - PHYSICAL_MEMORY_OFFSET) OR push_bit 60 8"
proof -
  have "take_bit 12 (sym_bootstack P + KSTACKSIZE) = 0"
    using assms take_bit_12_plus [of "sym_bootstack P" KSTACKSIZE] by (simp add: linked_high_def layout_defs)
  then show ?thesis
    using assms lui_high
    by (simp add: kern_entry_def kern_entry_code_def linked_high_def gpr_ref_set csr_ref_set layout_defs)
qed


lemma boot_satp:
  assumes pt: "KERNEL_SPACE \<le> t" "take_bit 12 t = 0" and satp: "satp = drop_bit 12 (t - PHYSICAL_MEMORY_OFFSET) OR push_bit 60 8"
  shows "drop_bit 60 satp = 8" and "push_bit PGSHIFT (take_bit 44 satp) = t - PHYSICAL_MEMORY_OFFSET"
proof -
  let ?pa = "t - PHYSICAL_MEMORY_OFFSET"
  have "0x80000000 OR take_bit 30 t = ?pa" by (rule kernel_space_pa [OF pt(1)])
  then have "(push_bit 31 1 :: u64) OR take_bit 30 t = ?pa" by (simp add: push_bit_eq_mult)
  moreover have bits: "bit (push_bit k 1 OR take_bit j t) n \<longleftrightarrow> n = k \<or> n < j \<and> bit t n" if "k < 64" for j k n
    using that by (auto simp: bit_simps dest: bit_imp_le_length)
  ultimately have pa: "bit ?pa n \<longleftrightarrow> n = 31 \<or> n < 30 \<and> bit t n" for n
    using bits [of 31 30 n] by simp
  have low: "12 \<le> n" if "bit t n" for n
  proof (rule ccontr)
    assume "\<not> 12 \<le> n"
    then have "bit (take_bit 12 t) n" using that by (simp add: bit_simps)
    then show False using pt(2) by simp
  qed
  have "drop_bit 60 (drop_bit 12 ?pa) = 0" by (rule bit_eqI) (auto simp: bit_simps pa)
  then show "drop_bit 60 satp = 8" by (simp add: satp drop_bit_or)
  have "take_bit 44 satp = take_bit 44 (drop_bit 12 ?pa)" by (simp add: satp take_bit_or)
  also have "\<dots> = drop_bit 12 ?pa" by (rule bit_eqI) (auto simp: bit_simps pa)
  finally have "take_bit 44 satp = drop_bit 12 ?pa" .
  moreover have "push_bit 12 (drop_bit 12 ?pa) = ?pa"
    by (rule bit_eqI) (auto simp: bit_simps pa low)
  ultimately show "push_bit PGSHIFT (take_bit 44 satp) = ?pa" by (simp add: PGSHIFT_def)
qed



definition demo_memory :: "u64 \<Rightarrow> u64" where
  "demo_memory a = (if a = 0x80205000 + 511 * 8 then 0x200000CF else 0)"


end
