(* ===== verification/Riscv_Encoding.thy ===== *)
theory Riscv_Encoding
  imports Riscv_Asm
begin

unbundle bit_operations_syntax

text \<open>
  The tables of \<open>libs/riscv.h\<close>: the encodings of the instructions with the masks that select their fixed
  bits, the numbers of the control and status registers, and the fields of some of them. A declaration
  \<open>DECLARE_INSN(beq, MATCH_BEQ, MASK_BEQ)\<close> names the macros it expands to; here it is the pair of the two
  names and is expanded by looking the macros up.
\<close>

section \<open>Instructions\<close>

text \<open>The base integer instructions, 32 and 64 bits.\<close>

definition MATCH_MASK_I :: "(string \<times> u32 \<times> u32) list" where
  "MATCH_MASK_I =
    [(''BEQ'', 0x63, 0x707f), (''BNE'', 0x1063, 0x707f), (''BLT'', 0x4063, 0x707f), (''BGE'', 0x5063, 0x707f),
     (''BLTU'', 0x6063, 0x707f), (''BGEU'', 0x7063, 0x707f), (''JALR'', 0x67, 0x707f), (''JAL'', 0x6f, 0x7f),
     (''LUI'', 0x37, 0x7f), (''AUIPC'', 0x17, 0x7f), (''ADDI'', 0x13, 0x707f), (''SLLI'', 0x1013, 0xfc00707f),
     (''SLTI'', 0x2013, 0x707f), (''SLTIU'', 0x3013, 0x707f), (''XORI'', 0x4013, 0x707f),
     (''SRLI'', 0x5013, 0xfc00707f), (''SRAI'', 0x40005013, 0xfc00707f), (''ORI'', 0x6013, 0x707f),
     (''ANDI'', 0x7013, 0x707f), (''ADD'', 0x33, 0xfe00707f), (''SUB'', 0x40000033, 0xfe00707f),
     (''SLL'', 0x1033, 0xfe00707f), (''SLT'', 0x2033, 0xfe00707f), (''SLTU'', 0x3033, 0xfe00707f),
     (''XOR'', 0x4033, 0xfe00707f), (''SRL'', 0x5033, 0xfe00707f), (''SRA'', 0x40005033, 0xfe00707f),
     (''OR'', 0x6033, 0xfe00707f), (''AND'', 0x7033, 0xfe00707f), (''ADDIW'', 0x1b, 0x707f),
     (''SLLIW'', 0x101b, 0xfe00707f), (''SRLIW'', 0x501b, 0xfe00707f), (''SRAIW'', 0x4000501b, 0xfe00707f),
     (''ADDW'', 0x3b, 0xfe00707f), (''SUBW'', 0x4000003b, 0xfe00707f), (''SLLW'', 0x103b, 0xfe00707f),
     (''SRLW'', 0x503b, 0xfe00707f), (''SRAW'', 0x4000503b, 0xfe00707f), (''LB'', 0x3, 0x707f),
     (''LH'', 0x1003, 0x707f), (''LW'', 0x2003, 0x707f), (''LD'', 0x3003, 0x707f), (''LBU'', 0x4003, 0x707f),
     (''LHU'', 0x5003, 0x707f), (''LWU'', 0x6003, 0x707f), (''SB'', 0x23, 0x707f), (''SH'', 0x1023, 0x707f),
     (''SW'', 0x2023, 0x707f), (''SD'', 0x3023, 0x707f), (''FENCE'', 0xf, 0x707f), (''FENCE_I'', 0x100f, 0x707f)]"

definition DECLARE_INSN_I :: "(string \<times> string) list" where
  "DECLARE_INSN_I =
    [(''beq'', ''BEQ''), (''bne'', ''BNE''), (''blt'', ''BLT''), (''bge'', ''BGE''), (''bltu'', ''BLTU''),
     (''bgeu'', ''BGEU''), (''jalr'', ''JALR''), (''jal'', ''JAL''), (''lui'', ''LUI''), (''auipc'', ''AUIPC''),
     (''addi'', ''ADDI''), (''slli'', ''SLLI''), (''slti'', ''SLTI''), (''sltiu'', ''SLTIU''),
     (''xori'', ''XORI''), (''srli'', ''SRLI''), (''srai'', ''SRAI''), (''ori'', ''ORI''), (''andi'', ''ANDI''),
     (''add'', ''ADD''), (''sub'', ''SUB''), (''sll'', ''SLL''), (''slt'', ''SLT''), (''sltu'', ''SLTU''),
     (''xor'', ''XOR''), (''srl'', ''SRL''), (''sra'', ''SRA''), (''or'', ''OR''), (''and'', ''AND''),
     (''addiw'', ''ADDIW''), (''slliw'', ''SLLIW''), (''srliw'', ''SRLIW''), (''sraiw'', ''SRAIW''),
     (''addw'', ''ADDW''), (''subw'', ''SUBW''), (''sllw'', ''SLLW''), (''srlw'', ''SRLW''), (''sraw'', ''SRAW''),
     (''lb'', ''LB''), (''lh'', ''LH''), (''lw'', ''LW''), (''ld'', ''LD''), (''lbu'', ''LBU''),
     (''lhu'', ''LHU''), (''lwu'', ''LWU''), (''sb'', ''SB''), (''sh'', ''SH''), (''sw'', ''SW''),
     (''sd'', ''SD''), (''fence'', ''FENCE''), (''fence_i'', ''FENCE_I'')]"

text \<open>Multiplication and division, atomic memory operations.\<close>

definition MATCH_MASK_MA :: "(string \<times> u32 \<times> u32) list" where
  "MATCH_MASK_MA =
    [(''MUL'', 0x2000033, 0xfe00707f), (''MULH'', 0x2001033, 0xfe00707f), (''MULHSU'', 0x2002033, 0xfe00707f),
     (''MULHU'', 0x2003033, 0xfe00707f), (''DIV'', 0x2004033, 0xfe00707f), (''DIVU'', 0x2005033, 0xfe00707f),
     (''REM'', 0x2006033, 0xfe00707f), (''REMU'', 0x2007033, 0xfe00707f), (''MULW'', 0x200003b, 0xfe00707f),
     (''DIVW'', 0x200403b, 0xfe00707f), (''DIVUW'', 0x200503b, 0xfe00707f), (''REMW'', 0x200603b, 0xfe00707f),
     (''REMUW'', 0x200703b, 0xfe00707f), (''AMOADD_W'', 0x202f, 0xf800707f),
     (''AMOXOR_W'', 0x2000202f, 0xf800707f), (''AMOOR_W'', 0x4000202f, 0xf800707f),
     (''AMOAND_W'', 0x6000202f, 0xf800707f), (''AMOMIN_W'', 0x8000202f, 0xf800707f),
     (''AMOMAX_W'', 0xa000202f, 0xf800707f), (''AMOMINU_W'', 0xc000202f, 0xf800707f),
     (''AMOMAXU_W'', 0xe000202f, 0xf800707f), (''AMOSWAP_W'', 0x800202f, 0xf800707f),
     (''LR_W'', 0x1000202f, 0xf9f0707f), (''SC_W'', 0x1800202f, 0xf800707f), (''AMOADD_D'', 0x302f, 0xf800707f),
     (''AMOXOR_D'', 0x2000302f, 0xf800707f), (''AMOOR_D'', 0x4000302f, 0xf800707f),
     (''AMOAND_D'', 0x6000302f, 0xf800707f), (''AMOMIN_D'', 0x8000302f, 0xf800707f),
     (''AMOMAX_D'', 0xa000302f, 0xf800707f), (''AMOMINU_D'', 0xc000302f, 0xf800707f),
     (''AMOMAXU_D'', 0xe000302f, 0xf800707f), (''AMOSWAP_D'', 0x800302f, 0xf800707f),
     (''LR_D'', 0x1000302f, 0xf9f0707f), (''SC_D'', 0x1800302f, 0xf800707f)]"

definition DECLARE_INSN_MA :: "(string \<times> string) list" where
  "DECLARE_INSN_MA =
    [(''mul'', ''MUL''), (''mulh'', ''MULH''), (''mulhsu'', ''MULHSU''), (''mulhu'', ''MULHU''),
     (''div'', ''DIV''), (''divu'', ''DIVU''), (''rem'', ''REM''), (''remu'', ''REMU''), (''mulw'', ''MULW''),
     (''divw'', ''DIVW''), (''divuw'', ''DIVUW''), (''remw'', ''REMW''), (''remuw'', ''REMUW''),
     (''amoadd_w'', ''AMOADD_W''), (''amoxor_w'', ''AMOXOR_W''), (''amoor_w'', ''AMOOR_W''),
     (''amoand_w'', ''AMOAND_W''), (''amomin_w'', ''AMOMIN_W''), (''amomax_w'', ''AMOMAX_W''),
     (''amominu_w'', ''AMOMINU_W''), (''amomaxu_w'', ''AMOMAXU_W''), (''amoswap_w'', ''AMOSWAP_W''),
     (''lr_w'', ''LR_W''), (''sc_w'', ''SC_W''), (''amoadd_d'', ''AMOADD_D''), (''amoxor_d'', ''AMOXOR_D''),
     (''amoor_d'', ''AMOOR_D''), (''amoand_d'', ''AMOAND_D''), (''amomin_d'', ''AMOMIN_D''),
     (''amomax_d'', ''AMOMAX_D''), (''amominu_d'', ''AMOMINU_D''), (''amomaxu_d'', ''AMOMAXU_D''),
     (''amoswap_d'', ''AMOSWAP_D''), (''lr_d'', ''LR_D''), (''sc_d'', ''SC_D'')]"

text \<open>System calls, returns from traps, access to control and status registers.\<close>

definition MATCH_MASK_System :: "(string \<times> u32 \<times> u32) list" where
  "MATCH_MASK_System =
    [(''ECALL'', 0x73, 0xffffffff), (''EBREAK'', 0x100073, 0xffffffff), (''URET'', 0x200073, 0xffffffff),
     (''SRET'', 0x10200073, 0xffffffff), (''HRET'', 0x20200073, 0xffffffff), (''MRET'', 0x30200073, 0xffffffff),
     (''DRET'', 0x7b200073, 0xffffffff), (''SFENCE_VM'', 0x10400073, 0xfff07fff),
     (''WFI'', 0x10500073, 0xffffffff), (''CSRRW'', 0x1073, 0x707f), (''CSRRS'', 0x2073, 0x707f),
     (''CSRRC'', 0x3073, 0x707f), (''CSRRWI'', 0x5073, 0x707f), (''CSRRSI'', 0x6073, 0x707f),
     (''CSRRCI'', 0x7073, 0x707f)]"

definition DECLARE_INSN_System :: "(string \<times> string) list" where
  "DECLARE_INSN_System =
    [(''ecall'', ''ECALL''), (''ebreak'', ''EBREAK''), (''uret'', ''URET''), (''sret'', ''SRET''),
     (''hret'', ''HRET''), (''mret'', ''MRET''), (''dret'', ''DRET''), (''sfence_vm'', ''SFENCE_VM''),
     (''wfi'', ''WFI''), (''csrrw'', ''CSRRW''), (''csrrs'', ''CSRRS''), (''csrrc'', ''CSRRC''),
     (''csrrwi'', ''CSRRWI''), (''csrrsi'', ''CSRRSI''), (''csrrci'', ''CSRRCI'')]"

text \<open>Floating point.\<close>

definition MATCH_MASK_FD :: "(string \<times> u32 \<times> u32) list" where
  "MATCH_MASK_FD =
    [(''FADD_S'', 0x53, 0xfe00007f), (''FSUB_S'', 0x8000053, 0xfe00007f), (''FMUL_S'', 0x10000053, 0xfe00007f),
     (''FDIV_S'', 0x18000053, 0xfe00007f), (''FSGNJ_S'', 0x20000053, 0xfe00707f),
     (''FSGNJN_S'', 0x20001053, 0xfe00707f), (''FSGNJX_S'', 0x20002053, 0xfe00707f),
     (''FMIN_S'', 0x28000053, 0xfe00707f), (''FMAX_S'', 0x28001053, 0xfe00707f),
     (''FSQRT_S'', 0x58000053, 0xfff0007f), (''FADD_D'', 0x2000053, 0xfe00007f),
     (''FSUB_D'', 0xa000053, 0xfe00007f), (''FMUL_D'', 0x12000053, 0xfe00007f),
     (''FDIV_D'', 0x1a000053, 0xfe00007f), (''FSGNJ_D'', 0x22000053, 0xfe00707f),
     (''FSGNJN_D'', 0x22001053, 0xfe00707f), (''FSGNJX_D'', 0x22002053, 0xfe00707f),
     (''FMIN_D'', 0x2a000053, 0xfe00707f), (''FMAX_D'', 0x2a001053, 0xfe00707f),
     (''FCVT_S_D'', 0x40100053, 0xfff0007f), (''FCVT_D_S'', 0x42000053, 0xfff0007f),
     (''FSQRT_D'', 0x5a000053, 0xfff0007f), (''FLE_S'', 0xa0000053, 0xfe00707f),
     (''FLT_S'', 0xa0001053, 0xfe00707f), (''FEQ_S'', 0xa0002053, 0xfe00707f), (''FLE_D'', 0xa2000053, 0xfe00707f),
     (''FLT_D'', 0xa2001053, 0xfe00707f), (''FEQ_D'', 0xa2002053, 0xfe00707f),
     (''FCVT_W_S'', 0xc0000053, 0xfff0007f), (''FCVT_WU_S'', 0xc0100053, 0xfff0007f),
     (''FCVT_L_S'', 0xc0200053, 0xfff0007f), (''FCVT_LU_S'', 0xc0300053, 0xfff0007f),
     (''FMV_X_S'', 0xe0000053, 0xfff0707f), (''FCLASS_S'', 0xe0001053, 0xfff0707f),
     (''FCVT_W_D'', 0xc2000053, 0xfff0007f), (''FCVT_WU_D'', 0xc2100053, 0xfff0007f),
     (''FCVT_L_D'', 0xc2200053, 0xfff0007f), (''FCVT_LU_D'', 0xc2300053, 0xfff0007f),
     (''FMV_X_D'', 0xe2000053, 0xfff0707f), (''FCLASS_D'', 0xe2001053, 0xfff0707f),
     (''FCVT_S_W'', 0xd0000053, 0xfff0007f), (''FCVT_S_WU'', 0xd0100053, 0xfff0007f),
     (''FCVT_S_L'', 0xd0200053, 0xfff0007f), (''FCVT_S_LU'', 0xd0300053, 0xfff0007f),
     (''FMV_S_X'', 0xf0000053, 0xfff0707f), (''FCVT_D_W'', 0xd2000053, 0xfff0007f),
     (''FCVT_D_WU'', 0xd2100053, 0xfff0007f), (''FCVT_D_L'', 0xd2200053, 0xfff0007f),
     (''FCVT_D_LU'', 0xd2300053, 0xfff0007f), (''FMV_D_X'', 0xf2000053, 0xfff0707f), (''FLW'', 0x2007, 0x707f),
     (''FLD'', 0x3007, 0x707f), (''FSW'', 0x2027, 0x707f), (''FSD'', 0x3027, 0x707f),
     (''FMADD_S'', 0x43, 0x600007f), (''FMSUB_S'', 0x47, 0x600007f), (''FNMSUB_S'', 0x4b, 0x600007f),
     (''FNMADD_S'', 0x4f, 0x600007f), (''FMADD_D'', 0x2000043, 0x600007f), (''FMSUB_D'', 0x2000047, 0x600007f),
     (''FNMSUB_D'', 0x200004b, 0x600007f), (''FNMADD_D'', 0x200004f, 0x600007f)]"

definition DECLARE_INSN_FD :: "(string \<times> string) list" where
  "DECLARE_INSN_FD =
    [(''fadd_s'', ''FADD_S''), (''fsub_s'', ''FSUB_S''), (''fmul_s'', ''FMUL_S''), (''fdiv_s'', ''FDIV_S''),
     (''fsgnj_s'', ''FSGNJ_S''), (''fsgnjn_s'', ''FSGNJN_S''), (''fsgnjx_s'', ''FSGNJX_S''),
     (''fmin_s'', ''FMIN_S''), (''fmax_s'', ''FMAX_S''), (''fsqrt_s'', ''FSQRT_S''), (''fadd_d'', ''FADD_D''),
     (''fsub_d'', ''FSUB_D''), (''fmul_d'', ''FMUL_D''), (''fdiv_d'', ''FDIV_D''), (''fsgnj_d'', ''FSGNJ_D''),
     (''fsgnjn_d'', ''FSGNJN_D''), (''fsgnjx_d'', ''FSGNJX_D''), (''fmin_d'', ''FMIN_D''),
     (''fmax_d'', ''FMAX_D''), (''fcvt_s_d'', ''FCVT_S_D''), (''fcvt_d_s'', ''FCVT_D_S''),
     (''fsqrt_d'', ''FSQRT_D''), (''fle_s'', ''FLE_S''), (''flt_s'', ''FLT_S''), (''feq_s'', ''FEQ_S''),
     (''fle_d'', ''FLE_D''), (''flt_d'', ''FLT_D''), (''feq_d'', ''FEQ_D''), (''fcvt_w_s'', ''FCVT_W_S''),
     (''fcvt_wu_s'', ''FCVT_WU_S''), (''fcvt_l_s'', ''FCVT_L_S''), (''fcvt_lu_s'', ''FCVT_LU_S''),
     (''fmv_x_s'', ''FMV_X_S''), (''fclass_s'', ''FCLASS_S''), (''fcvt_w_d'', ''FCVT_W_D''),
     (''fcvt_wu_d'', ''FCVT_WU_D''), (''fcvt_l_d'', ''FCVT_L_D''), (''fcvt_lu_d'', ''FCVT_LU_D''),
     (''fmv_x_d'', ''FMV_X_D''), (''fclass_d'', ''FCLASS_D''), (''fcvt_s_w'', ''FCVT_S_W''),
     (''fcvt_s_wu'', ''FCVT_S_WU''), (''fcvt_s_l'', ''FCVT_S_L''), (''fcvt_s_lu'', ''FCVT_S_LU''),
     (''fmv_s_x'', ''FMV_S_X''), (''fcvt_d_w'', ''FCVT_D_W''), (''fcvt_d_wu'', ''FCVT_D_WU''),
     (''fcvt_d_l'', ''FCVT_D_L''), (''fcvt_d_lu'', ''FCVT_D_LU''), (''fmv_d_x'', ''FMV_D_X''), (''flw'', ''FLW''),
     (''fld'', ''FLD''), (''fsw'', ''FSW''), (''fsd'', ''FSD''), (''fmadd_s'', ''FMADD_S''),
     (''fmsub_s'', ''FMSUB_S''), (''fnmsub_s'', ''FNMSUB_S''), (''fnmadd_s'', ''FNMADD_S''),
     (''fmadd_d'', ''FMADD_D''), (''fmsub_d'', ''FMSUB_D''), (''fnmsub_d'', ''FNMSUB_D''),
     (''fnmadd_d'', ''FNMADD_D'')]"

text \<open>The compressed instructions.\<close>

definition MATCH_MASK_C :: "(string \<times> u32 \<times> u32) list" where
  "MATCH_MASK_C =
    [(''C_NOP'', 0x1, 0xffff), (''C_ADDI16SP'', 0x6101, 0xef83), (''C_JR'', 0x8002, 0xf07f),
     (''C_JALR'', 0x9002, 0xf07f), (''C_EBREAK'', 0x9002, 0xffff), (''C_LD'', 0x6000, 0xe003),
     (''C_SD'', 0xe000, 0xe003), (''C_ADDIW'', 0x2001, 0xe003), (''C_LDSP'', 0x6002, 0xe003),
     (''C_SDSP'', 0xe002, 0xe003), (''C_ADDI4SPN'', 0x0, 0xe003), (''C_FLD'', 0x2000, 0xe003),
     (''C_LW'', 0x4000, 0xe003), (''C_FLW'', 0x6000, 0xe003), (''C_FSD'', 0xa000, 0xe003),
     (''C_SW'', 0xc000, 0xe003), (''C_FSW'', 0xe000, 0xe003), (''C_ADDI'', 0x1, 0xe003),
     (''C_JAL'', 0x2001, 0xe003), (''C_LI'', 0x4001, 0xe003), (''C_LUI'', 0x6001, 0xe003),
     (''C_SRLI'', 0x8001, 0xec03), (''C_SRAI'', 0x8401, 0xec03), (''C_ANDI'', 0x8801, 0xec03),
     (''C_SUB'', 0x8c01, 0xfc63), (''C_XOR'', 0x8c21, 0xfc63), (''C_OR'', 0x8c41, 0xfc63),
     (''C_AND'', 0x8c61, 0xfc63), (''C_SUBW'', 0x9c01, 0xfc63), (''C_ADDW'', 0x9c21, 0xfc63),
     (''C_J'', 0xa001, 0xe003), (''C_BEQZ'', 0xc001, 0xe003), (''C_BNEZ'', 0xe001, 0xe003),
     (''C_SLLI'', 0x2, 0xe003), (''C_FLDSP'', 0x2002, 0xe003), (''C_LWSP'', 0x4002, 0xe003),
     (''C_FLWSP'', 0x6002, 0xe003), (''C_MV'', 0x8002, 0xf003), (''C_ADD'', 0x9002, 0xf003),
     (''C_FSDSP'', 0xa002, 0xe003), (''C_SWSP'', 0xc002, 0xe003), (''C_FSWSP'', 0xe002, 0xe003)]"

definition DECLARE_INSN_C :: "(string \<times> string) list" where
  "DECLARE_INSN_C =
    [(''c_nop'', ''C_NOP''), (''c_addi16sp'', ''C_ADDI16SP''), (''c_jr'', ''C_JR''), (''c_jalr'', ''C_JALR''),
     (''c_ebreak'', ''C_EBREAK''), (''c_ld'', ''C_LD''), (''c_sd'', ''C_SD''), (''c_addiw'', ''C_ADDIW''),
     (''c_ldsp'', ''C_LDSP''), (''c_sdsp'', ''C_SDSP''), (''c_addi4spn'', ''C_ADDI4SPN''), (''c_fld'', ''C_FLD''),
     (''c_lw'', ''C_LW''), (''c_flw'', ''C_FLW''), (''c_fsd'', ''C_FSD''), (''c_sw'', ''C_SW''),
     (''c_fsw'', ''C_FSW''), (''c_addi'', ''C_ADDI''), (''c_jal'', ''C_JAL''), (''c_li'', ''C_LI''),
     (''c_lui'', ''C_LUI''), (''c_srli'', ''C_SRLI''), (''c_srai'', ''C_SRAI''), (''c_andi'', ''C_ANDI''),
     (''c_sub'', ''C_SUB''), (''c_xor'', ''C_XOR''), (''c_or'', ''C_OR''), (''c_and'', ''C_AND''),
     (''c_subw'', ''C_SUBW''), (''c_addw'', ''C_ADDW''), (''c_j'', ''C_J''), (''c_beqz'', ''C_BEQZ''),
     (''c_bnez'', ''C_BNEZ''), (''c_slli'', ''C_SLLI''), (''c_fldsp'', ''C_FLDSP''), (''c_lwsp'', ''C_LWSP''),
     (''c_flwsp'', ''C_FLWSP''), (''c_mv'', ''C_MV''), (''c_add'', ''C_ADD''), (''c_fsdsp'', ''C_FSDSP''),
     (''c_swsp'', ''C_SWSP''), (''c_fswsp'', ''C_FSWSP'')]"

text \<open>Opcodes left to extensions.\<close>

definition MATCH_MASK_Custom :: "(string \<times> u32 \<times> u32) list" where
  "MATCH_MASK_Custom =
    [(''CUSTOM0'', 0xb, 0x707f), (''CUSTOM0_RS1'', 0x200b, 0x707f), (''CUSTOM0_RS1_RS2'', 0x300b, 0x707f),
     (''CUSTOM0_RD'', 0x400b, 0x707f), (''CUSTOM0_RD_RS1'', 0x600b, 0x707f),
     (''CUSTOM0_RD_RS1_RS2'', 0x700b, 0x707f), (''CUSTOM1'', 0x2b, 0x707f), (''CUSTOM1_RS1'', 0x202b, 0x707f),
     (''CUSTOM1_RS1_RS2'', 0x302b, 0x707f), (''CUSTOM1_RD'', 0x402b, 0x707f), (''CUSTOM1_RD_RS1'', 0x602b, 0x707f),
     (''CUSTOM1_RD_RS1_RS2'', 0x702b, 0x707f), (''CUSTOM2'', 0x5b, 0x707f), (''CUSTOM2_RS1'', 0x205b, 0x707f),
     (''CUSTOM2_RS1_RS2'', 0x305b, 0x707f), (''CUSTOM2_RD'', 0x405b, 0x707f), (''CUSTOM2_RD_RS1'', 0x605b, 0x707f),
     (''CUSTOM2_RD_RS1_RS2'', 0x705b, 0x707f), (''CUSTOM3'', 0x7b, 0x707f), (''CUSTOM3_RS1'', 0x207b, 0x707f),
     (''CUSTOM3_RS1_RS2'', 0x307b, 0x707f), (''CUSTOM3_RD'', 0x407b, 0x707f), (''CUSTOM3_RD_RS1'', 0x607b, 0x707f),
     (''CUSTOM3_RD_RS1_RS2'', 0x707b, 0x707f)]"

definition DECLARE_INSN_Custom :: "(string \<times> string) list" where
  "DECLARE_INSN_Custom =
    [(''custom0'', ''CUSTOM0''), (''custom0_rs1'', ''CUSTOM0_RS1''), (''custom0_rs1_rs2'', ''CUSTOM0_RS1_RS2''),
     (''custom0_rd'', ''CUSTOM0_RD''), (''custom0_rd_rs1'', ''CUSTOM0_RD_RS1''),
     (''custom0_rd_rs1_rs2'', ''CUSTOM0_RD_RS1_RS2''), (''custom1'', ''CUSTOM1''),
     (''custom1_rs1'', ''CUSTOM1_RS1''), (''custom1_rs1_rs2'', ''CUSTOM1_RS1_RS2''),
     (''custom1_rd'', ''CUSTOM1_RD''), (''custom1_rd_rs1'', ''CUSTOM1_RD_RS1''),
     (''custom1_rd_rs1_rs2'', ''CUSTOM1_RD_RS1_RS2''), (''custom2'', ''CUSTOM2''),
     (''custom2_rs1'', ''CUSTOM2_RS1''), (''custom2_rs1_rs2'', ''CUSTOM2_RS1_RS2''),
     (''custom2_rd'', ''CUSTOM2_RD''), (''custom2_rd_rs1'', ''CUSTOM2_RD_RS1''),
     (''custom2_rd_rs1_rs2'', ''CUSTOM2_RD_RS1_RS2''), (''custom3'', ''CUSTOM3''),
     (''custom3_rs1'', ''CUSTOM3_RS1''), (''custom3_rs1_rs2'', ''CUSTOM3_RS1_RS2''),
     (''custom3_rd'', ''CUSTOM3_RD''), (''custom3_rd_rs1'', ''CUSTOM3_RD_RS1''),
     (''custom3_rd_rs1_rs2'', ''CUSTOM3_RD_RS1_RS2'')]"

section \<open>Control and status registers\<close>

text \<open>Floating point state and the counters that user code may read.\<close>

definition CSR_Unprivileged :: "(string \<times> 12 word) list" where
  "CSR_Unprivileged =
    [(''FFLAGS'', 0x1), (''FRM'', 0x2), (''FCSR'', 0x3), (''CYCLE'', 0xc00), (''TIME'', 0xc01),
     (''INSTRET'', 0xc02), (''HPMCOUNTER3'', 0xc03), (''HPMCOUNTER4'', 0xc04), (''HPMCOUNTER5'', 0xc05),
     (''HPMCOUNTER6'', 0xc06), (''HPMCOUNTER7'', 0xc07), (''HPMCOUNTER8'', 0xc08), (''HPMCOUNTER9'', 0xc09),
     (''HPMCOUNTER10'', 0xc0a), (''HPMCOUNTER11'', 0xc0b), (''HPMCOUNTER12'', 0xc0c), (''HPMCOUNTER13'', 0xc0d),
     (''HPMCOUNTER14'', 0xc0e), (''HPMCOUNTER15'', 0xc0f), (''HPMCOUNTER16'', 0xc10), (''HPMCOUNTER17'', 0xc11),
     (''HPMCOUNTER18'', 0xc12), (''HPMCOUNTER19'', 0xc13), (''HPMCOUNTER20'', 0xc14), (''HPMCOUNTER21'', 0xc15),
     (''HPMCOUNTER22'', 0xc16), (''HPMCOUNTER23'', 0xc17), (''HPMCOUNTER24'', 0xc18), (''HPMCOUNTER25'', 0xc19),
     (''HPMCOUNTER26'', 0xc1a), (''HPMCOUNTER27'', 0xc1b), (''HPMCOUNTER28'', 0xc1c), (''HPMCOUNTER29'', 0xc1d),
     (''HPMCOUNTER30'', 0xc1e), (''HPMCOUNTER31'', 0xc1f)]"

definition DECLARE_CSR_Unprivileged :: "(string \<times> string) list" where
  "DECLARE_CSR_Unprivileged =
    [(''fflags'', ''FFLAGS''), (''frm'', ''FRM''), (''fcsr'', ''FCSR''), (''cycle'', ''CYCLE''),
     (''time'', ''TIME''), (''instret'', ''INSTRET''), (''hpmcounter3'', ''HPMCOUNTER3''),
     (''hpmcounter4'', ''HPMCOUNTER4''), (''hpmcounter5'', ''HPMCOUNTER5''), (''hpmcounter6'', ''HPMCOUNTER6''),
     (''hpmcounter7'', ''HPMCOUNTER7''), (''hpmcounter8'', ''HPMCOUNTER8''), (''hpmcounter9'', ''HPMCOUNTER9''),
     (''hpmcounter10'', ''HPMCOUNTER10''), (''hpmcounter11'', ''HPMCOUNTER11''),
     (''hpmcounter12'', ''HPMCOUNTER12''), (''hpmcounter13'', ''HPMCOUNTER13''),
     (''hpmcounter14'', ''HPMCOUNTER14''), (''hpmcounter15'', ''HPMCOUNTER15''),
     (''hpmcounter16'', ''HPMCOUNTER16''), (''hpmcounter17'', ''HPMCOUNTER17''),
     (''hpmcounter18'', ''HPMCOUNTER18''), (''hpmcounter19'', ''HPMCOUNTER19''),
     (''hpmcounter20'', ''HPMCOUNTER20''), (''hpmcounter21'', ''HPMCOUNTER21''),
     (''hpmcounter22'', ''HPMCOUNTER22''), (''hpmcounter23'', ''HPMCOUNTER23''),
     (''hpmcounter24'', ''HPMCOUNTER24''), (''hpmcounter25'', ''HPMCOUNTER25''),
     (''hpmcounter26'', ''HPMCOUNTER26''), (''hpmcounter27'', ''HPMCOUNTER27''),
     (''hpmcounter28'', ''HPMCOUNTER28''), (''hpmcounter29'', ''HPMCOUNTER29''),
     (''hpmcounter30'', ''HPMCOUNTER30''), (''hpmcounter31'', ''HPMCOUNTER31'')]"

text \<open>The registers of supervisor mode.\<close>

definition CSR_Supervisor :: "(string \<times> 12 word) list" where
  "CSR_Supervisor =
    [(''SSTATUS'', 0x100), (''SIE'', 0x104), (''STVEC'', 0x105), (''SSCRATCH'', 0x140), (''SEPC'', 0x141),
     (''SCAUSE'', 0x142), (''SBADADDR'', 0x143), (''SIP'', 0x144), (''SATP'', 0x180)]"

definition DECLARE_CSR_Supervisor :: "(string \<times> string) list" where
  "DECLARE_CSR_Supervisor =
    [(''sstatus'', ''SSTATUS''), (''sie'', ''SIE''), (''stvec'', ''STVEC''), (''sscratch'', ''SSCRATCH''),
     (''sepc'', ''SEPC''), (''scause'', ''SCAUSE''), (''sbadaddr'', ''SBADADDR''), (''sip'', ''SIP''),
     (''satp'', ''SATP'')]"

text \<open>The registers of machine mode and of the debugger.\<close>

definition CSR_Machine :: "(string \<times> 12 word) list" where
  "CSR_Machine =
    [(''MSTATUS'', 0x300), (''MISA'', 0x301), (''MEDELEG'', 0x302), (''MIDELEG'', 0x303), (''MIE'', 0x304),
     (''MTVEC'', 0x305), (''MSCRATCH'', 0x340), (''MEPC'', 0x341), (''MCAUSE'', 0x342), (''MBADADDR'', 0x343),
     (''MIP'', 0x344), (''TSELECT'', 0x7a0), (''TDATA1'', 0x7a1), (''TDATA2'', 0x7a2), (''TDATA3'', 0x7a3),
     (''DCSR'', 0x7b0), (''DPC'', 0x7b1), (''DSCRATCH'', 0x7b2), (''MCYCLE'', 0xb00), (''MINSTRET'', 0xb02),
     (''MHPMCOUNTER3'', 0xb03), (''MHPMCOUNTER4'', 0xb04), (''MHPMCOUNTER5'', 0xb05), (''MHPMCOUNTER6'', 0xb06),
     (''MHPMCOUNTER7'', 0xb07), (''MHPMCOUNTER8'', 0xb08), (''MHPMCOUNTER9'', 0xb09), (''MHPMCOUNTER10'', 0xb0a),
     (''MHPMCOUNTER11'', 0xb0b), (''MHPMCOUNTER12'', 0xb0c), (''MHPMCOUNTER13'', 0xb0d),
     (''MHPMCOUNTER14'', 0xb0e), (''MHPMCOUNTER15'', 0xb0f), (''MHPMCOUNTER16'', 0xb10),
     (''MHPMCOUNTER17'', 0xb11), (''MHPMCOUNTER18'', 0xb12), (''MHPMCOUNTER19'', 0xb13),
     (''MHPMCOUNTER20'', 0xb14), (''MHPMCOUNTER21'', 0xb15), (''MHPMCOUNTER22'', 0xb16),
     (''MHPMCOUNTER23'', 0xb17), (''MHPMCOUNTER24'', 0xb18), (''MHPMCOUNTER25'', 0xb19),
     (''MHPMCOUNTER26'', 0xb1a), (''MHPMCOUNTER27'', 0xb1b), (''MHPMCOUNTER28'', 0xb1c),
     (''MHPMCOUNTER29'', 0xb1d), (''MHPMCOUNTER30'', 0xb1e), (''MHPMCOUNTER31'', 0xb1f), (''MUCOUNTEREN'', 0x320),
     (''MSCOUNTEREN'', 0x321), (''MHPMEVENT3'', 0x323), (''MHPMEVENT4'', 0x324), (''MHPMEVENT5'', 0x325),
     (''MHPMEVENT6'', 0x326), (''MHPMEVENT7'', 0x327), (''MHPMEVENT8'', 0x328), (''MHPMEVENT9'', 0x329),
     (''MHPMEVENT10'', 0x32a), (''MHPMEVENT11'', 0x32b), (''MHPMEVENT12'', 0x32c), (''MHPMEVENT13'', 0x32d),
     (''MHPMEVENT14'', 0x32e), (''MHPMEVENT15'', 0x32f), (''MHPMEVENT16'', 0x330), (''MHPMEVENT17'', 0x331),
     (''MHPMEVENT18'', 0x332), (''MHPMEVENT19'', 0x333), (''MHPMEVENT20'', 0x334), (''MHPMEVENT21'', 0x335),
     (''MHPMEVENT22'', 0x336), (''MHPMEVENT23'', 0x337), (''MHPMEVENT24'', 0x338), (''MHPMEVENT25'', 0x339),
     (''MHPMEVENT26'', 0x33a), (''MHPMEVENT27'', 0x33b), (''MHPMEVENT28'', 0x33c), (''MHPMEVENT29'', 0x33d),
     (''MHPMEVENT30'', 0x33e), (''MHPMEVENT31'', 0x33f), (''MVENDORID'', 0xf11), (''MARCHID'', 0xf12),
     (''MIMPID'', 0xf13), (''MHARTID'', 0xf14)]"

definition DECLARE_CSR_Machine :: "(string \<times> string) list" where
  "DECLARE_CSR_Machine =
    [(''mstatus'', ''MSTATUS''), (''misa'', ''MISA''), (''medeleg'', ''MEDELEG''), (''mideleg'', ''MIDELEG''),
     (''mie'', ''MIE''), (''mtvec'', ''MTVEC''), (''mscratch'', ''MSCRATCH''), (''mepc'', ''MEPC''),
     (''mcause'', ''MCAUSE''), (''mbadaddr'', ''MBADADDR''), (''mip'', ''MIP''), (''tselect'', ''TSELECT''),
     (''tdata1'', ''TDATA1''), (''tdata2'', ''TDATA2''), (''tdata3'', ''TDATA3''), (''dcsr'', ''DCSR''),
     (''dpc'', ''DPC''), (''dscratch'', ''DSCRATCH''), (''mcycle'', ''MCYCLE''), (''minstret'', ''MINSTRET''),
     (''mhpmcounter3'', ''MHPMCOUNTER3''), (''mhpmcounter4'', ''MHPMCOUNTER4''),
     (''mhpmcounter5'', ''MHPMCOUNTER5''), (''mhpmcounter6'', ''MHPMCOUNTER6''),
     (''mhpmcounter7'', ''MHPMCOUNTER7''), (''mhpmcounter8'', ''MHPMCOUNTER8''),
     (''mhpmcounter9'', ''MHPMCOUNTER9''), (''mhpmcounter10'', ''MHPMCOUNTER10''),
     (''mhpmcounter11'', ''MHPMCOUNTER11''), (''mhpmcounter12'', ''MHPMCOUNTER12''),
     (''mhpmcounter13'', ''MHPMCOUNTER13''), (''mhpmcounter14'', ''MHPMCOUNTER14''),
     (''mhpmcounter15'', ''MHPMCOUNTER15''), (''mhpmcounter16'', ''MHPMCOUNTER16''),
     (''mhpmcounter17'', ''MHPMCOUNTER17''), (''mhpmcounter18'', ''MHPMCOUNTER18''),
     (''mhpmcounter19'', ''MHPMCOUNTER19''), (''mhpmcounter20'', ''MHPMCOUNTER20''),
     (''mhpmcounter21'', ''MHPMCOUNTER21''), (''mhpmcounter22'', ''MHPMCOUNTER22''),
     (''mhpmcounter23'', ''MHPMCOUNTER23''), (''mhpmcounter24'', ''MHPMCOUNTER24''),
     (''mhpmcounter25'', ''MHPMCOUNTER25''), (''mhpmcounter26'', ''MHPMCOUNTER26''),
     (''mhpmcounter27'', ''MHPMCOUNTER27''), (''mhpmcounter28'', ''MHPMCOUNTER28''),
     (''mhpmcounter29'', ''MHPMCOUNTER29''), (''mhpmcounter30'', ''MHPMCOUNTER30''),
     (''mhpmcounter31'', ''MHPMCOUNTER31''), (''mucounteren'', ''MUCOUNTEREN''),
     (''mscounteren'', ''MSCOUNTEREN''), (''mhpmevent3'', ''MHPMEVENT3''), (''mhpmevent4'', ''MHPMEVENT4''),
     (''mhpmevent5'', ''MHPMEVENT5''), (''mhpmevent6'', ''MHPMEVENT6''), (''mhpmevent7'', ''MHPMEVENT7''),
     (''mhpmevent8'', ''MHPMEVENT8''), (''mhpmevent9'', ''MHPMEVENT9''), (''mhpmevent10'', ''MHPMEVENT10''),
     (''mhpmevent11'', ''MHPMEVENT11''), (''mhpmevent12'', ''MHPMEVENT12''), (''mhpmevent13'', ''MHPMEVENT13''),
     (''mhpmevent14'', ''MHPMEVENT14''), (''mhpmevent15'', ''MHPMEVENT15''), (''mhpmevent16'', ''MHPMEVENT16''),
     (''mhpmevent17'', ''MHPMEVENT17''), (''mhpmevent18'', ''MHPMEVENT18''), (''mhpmevent19'', ''MHPMEVENT19''),
     (''mhpmevent20'', ''MHPMEVENT20''), (''mhpmevent21'', ''MHPMEVENT21''), (''mhpmevent22'', ''MHPMEVENT22''),
     (''mhpmevent23'', ''MHPMEVENT23''), (''mhpmevent24'', ''MHPMEVENT24''), (''mhpmevent25'', ''MHPMEVENT25''),
     (''mhpmevent26'', ''MHPMEVENT26''), (''mhpmevent27'', ''MHPMEVENT27''), (''mhpmevent28'', ''MHPMEVENT28''),
     (''mhpmevent29'', ''MHPMEVENT29''), (''mhpmevent30'', ''MHPMEVENT30''), (''mhpmevent31'', ''MHPMEVENT31''),
     (''mvendorid'', ''MVENDORID''), (''marchid'', ''MARCHID''), (''mimpid'', ''MIMPID''),
     (''mhartid'', ''MHARTID'')]"

text \<open>The upper halves of the counters in the 32-bit configuration.\<close>

definition CSR_High :: "(string \<times> 12 word) list" where
  "CSR_High =
    [(''CYCLEH'', 0xc80), (''TIMEH'', 0xc81), (''INSTRETH'', 0xc82), (''HPMCOUNTER3H'', 0xc83),
     (''HPMCOUNTER4H'', 0xc84), (''HPMCOUNTER5H'', 0xc85), (''HPMCOUNTER6H'', 0xc86), (''HPMCOUNTER7H'', 0xc87),
     (''HPMCOUNTER8H'', 0xc88), (''HPMCOUNTER9H'', 0xc89), (''HPMCOUNTER10H'', 0xc8a), (''HPMCOUNTER11H'', 0xc8b),
     (''HPMCOUNTER12H'', 0xc8c), (''HPMCOUNTER13H'', 0xc8d), (''HPMCOUNTER14H'', 0xc8e),
     (''HPMCOUNTER15H'', 0xc8f), (''HPMCOUNTER16H'', 0xc90), (''HPMCOUNTER17H'', 0xc91),
     (''HPMCOUNTER18H'', 0xc92), (''HPMCOUNTER19H'', 0xc93), (''HPMCOUNTER20H'', 0xc94),
     (''HPMCOUNTER21H'', 0xc95), (''HPMCOUNTER22H'', 0xc96), (''HPMCOUNTER23H'', 0xc97),
     (''HPMCOUNTER24H'', 0xc98), (''HPMCOUNTER25H'', 0xc99), (''HPMCOUNTER26H'', 0xc9a),
     (''HPMCOUNTER27H'', 0xc9b), (''HPMCOUNTER28H'', 0xc9c), (''HPMCOUNTER29H'', 0xc9d),
     (''HPMCOUNTER30H'', 0xc9e), (''HPMCOUNTER31H'', 0xc9f), (''MCYCLEH'', 0xb80), (''MINSTRETH'', 0xb82),
     (''MHPMCOUNTER3H'', 0xb83), (''MHPMCOUNTER4H'', 0xb84), (''MHPMCOUNTER5H'', 0xb85),
     (''MHPMCOUNTER6H'', 0xb86), (''MHPMCOUNTER7H'', 0xb87), (''MHPMCOUNTER8H'', 0xb88),
     (''MHPMCOUNTER9H'', 0xb89), (''MHPMCOUNTER10H'', 0xb8a), (''MHPMCOUNTER11H'', 0xb8b),
     (''MHPMCOUNTER12H'', 0xb8c), (''MHPMCOUNTER13H'', 0xb8d), (''MHPMCOUNTER14H'', 0xb8e),
     (''MHPMCOUNTER15H'', 0xb8f), (''MHPMCOUNTER16H'', 0xb90), (''MHPMCOUNTER17H'', 0xb91),
     (''MHPMCOUNTER18H'', 0xb92), (''MHPMCOUNTER19H'', 0xb93), (''MHPMCOUNTER20H'', 0xb94),
     (''MHPMCOUNTER21H'', 0xb95), (''MHPMCOUNTER22H'', 0xb96), (''MHPMCOUNTER23H'', 0xb97),
     (''MHPMCOUNTER24H'', 0xb98), (''MHPMCOUNTER25H'', 0xb99), (''MHPMCOUNTER26H'', 0xb9a),
     (''MHPMCOUNTER27H'', 0xb9b), (''MHPMCOUNTER28H'', 0xb9c), (''MHPMCOUNTER29H'', 0xb9d),
     (''MHPMCOUNTER30H'', 0xb9e), (''MHPMCOUNTER31H'', 0xb9f)]"

definition DECLARE_CSR_High :: "(string \<times> string) list" where
  "DECLARE_CSR_High =
    [(''cycleh'', ''CYCLEH''), (''timeh'', ''TIMEH''), (''instreth'', ''INSTRETH''),
     (''hpmcounter3h'', ''HPMCOUNTER3H''), (''hpmcounter4h'', ''HPMCOUNTER4H''),
     (''hpmcounter5h'', ''HPMCOUNTER5H''), (''hpmcounter6h'', ''HPMCOUNTER6H''),
     (''hpmcounter7h'', ''HPMCOUNTER7H''), (''hpmcounter8h'', ''HPMCOUNTER8H''),
     (''hpmcounter9h'', ''HPMCOUNTER9H''), (''hpmcounter10h'', ''HPMCOUNTER10H''),
     (''hpmcounter11h'', ''HPMCOUNTER11H''), (''hpmcounter12h'', ''HPMCOUNTER12H''),
     (''hpmcounter13h'', ''HPMCOUNTER13H''), (''hpmcounter14h'', ''HPMCOUNTER14H''),
     (''hpmcounter15h'', ''HPMCOUNTER15H''), (''hpmcounter16h'', ''HPMCOUNTER16H''),
     (''hpmcounter17h'', ''HPMCOUNTER17H''), (''hpmcounter18h'', ''HPMCOUNTER18H''),
     (''hpmcounter19h'', ''HPMCOUNTER19H''), (''hpmcounter20h'', ''HPMCOUNTER20H''),
     (''hpmcounter21h'', ''HPMCOUNTER21H''), (''hpmcounter22h'', ''HPMCOUNTER22H''),
     (''hpmcounter23h'', ''HPMCOUNTER23H''), (''hpmcounter24h'', ''HPMCOUNTER24H''),
     (''hpmcounter25h'', ''HPMCOUNTER25H''), (''hpmcounter26h'', ''HPMCOUNTER26H''),
     (''hpmcounter27h'', ''HPMCOUNTER27H''), (''hpmcounter28h'', ''HPMCOUNTER28H''),
     (''hpmcounter29h'', ''HPMCOUNTER29H''), (''hpmcounter30h'', ''HPMCOUNTER30H''),
     (''hpmcounter31h'', ''HPMCOUNTER31H''), (''mcycleh'', ''MCYCLEH''), (''minstreth'', ''MINSTRETH''),
     (''mhpmcounter3h'', ''MHPMCOUNTER3H''), (''mhpmcounter4h'', ''MHPMCOUNTER4H''),
     (''mhpmcounter5h'', ''MHPMCOUNTER5H''), (''mhpmcounter6h'', ''MHPMCOUNTER6H''),
     (''mhpmcounter7h'', ''MHPMCOUNTER7H''), (''mhpmcounter8h'', ''MHPMCOUNTER8H''),
     (''mhpmcounter9h'', ''MHPMCOUNTER9H''), (''mhpmcounter10h'', ''MHPMCOUNTER10H''),
     (''mhpmcounter11h'', ''MHPMCOUNTER11H''), (''mhpmcounter12h'', ''MHPMCOUNTER12H''),
     (''mhpmcounter13h'', ''MHPMCOUNTER13H''), (''mhpmcounter14h'', ''MHPMCOUNTER14H''),
     (''mhpmcounter15h'', ''MHPMCOUNTER15H''), (''mhpmcounter16h'', ''MHPMCOUNTER16H''),
     (''mhpmcounter17h'', ''MHPMCOUNTER17H''), (''mhpmcounter18h'', ''MHPMCOUNTER18H''),
     (''mhpmcounter19h'', ''MHPMCOUNTER19H''), (''mhpmcounter20h'', ''MHPMCOUNTER20H''),
     (''mhpmcounter21h'', ''MHPMCOUNTER21H''), (''mhpmcounter22h'', ''MHPMCOUNTER22H''),
     (''mhpmcounter23h'', ''MHPMCOUNTER23H''), (''mhpmcounter24h'', ''MHPMCOUNTER24H''),
     (''mhpmcounter25h'', ''MHPMCOUNTER25H''), (''mhpmcounter26h'', ''MHPMCOUNTER26H''),
     (''mhpmcounter27h'', ''MHPMCOUNTER27H''), (''mhpmcounter28h'', ''MHPMCOUNTER28H''),
     (''mhpmcounter29h'', ''MHPMCOUNTER29H''), (''mhpmcounter30h'', ''MHPMCOUNTER30H''),
     (''mhpmcounter31h'', ''MHPMCOUNTER31H'')]"

section \<open>Modes, fields of registers and causes of traps\<close>

definition PRV_U :: nat where "PRV_U = 0"
definition PRV_S :: nat where "PRV_S = 1"
definition PRV_H :: nat where "PRV_H = 2"
definition PRV_M :: nat where "PRV_M = 3"

definition MSTATUS_fields :: "(string \<times> u64) list" where
  "MSTATUS_fields =
    [(''MSTATUS_UIE'', 0x00000001), (''MSTATUS_SIE'', 0x00000002), (''MSTATUS_HIE'', 0x00000004),
     (''MSTATUS_MIE'', 0x00000008), (''MSTATUS_UPIE'', 0x00000010), (''MSTATUS_SPIE'', 0x00000020),
     (''MSTATUS_HPIE'', 0x00000040), (''MSTATUS_MPIE'', 0x00000080), (''MSTATUS_SPP'', 0x00000100),
     (''MSTATUS_HPP'', 0x00000600), (''MSTATUS_MPP'', 0x00001800), (''MSTATUS_FS'', 0x00006000),
     (''MSTATUS_XS'', 0x00018000), (''MSTATUS_MPRV'', 0x00020000), (''MSTATUS_PUM'', 0x00040000),
     (''MSTATUS_MXR'', 0x00080000), (''MSTATUS_VM'', 0x1F000000), (''MSTATUS32_SD'', 0x80000000),
     (''MSTATUS64_SD'', 0x8000000000000000)]"

definition SSTATUS_fields :: "(string \<times> u64) list" where
  "SSTATUS_fields =
    [(''SSTATUS_UIE'', 0x00000001), (''SSTATUS_SIE'', 0x00000002), (''SSTATUS_UPIE'', 0x00000010),
     (''SSTATUS_SPIE'', 0x00000020), (''SSTATUS_SPP'', 0x00000100), (''SSTATUS_FS'', 0x00006000),
     (''SSTATUS_XS'', 0x00018000), (''SSTATUS_PUM'', 0x00040000), (''SSTATUS32_SD'', 0x80000000),
     (''SSTATUS64_SD'', 0x8000000000000000)]"

definition DCSR_fields :: "(string \<times> u64) list" where
  "DCSR_fields =
    [(''DCSR_XDEBUGVER'', push_bit 30 3), (''DCSR_NDRESET'', push_bit 29 1), (''DCSR_FULLRESET'', push_bit 28 1),
     (''DCSR_EBREAKM'', push_bit 15 1), (''DCSR_EBREAKH'', push_bit 14 1), (''DCSR_EBREAKS'', push_bit 13 1),
     (''DCSR_EBREAKU'', push_bit 12 1), (''DCSR_STOPCYCLE'', push_bit 10 1), (''DCSR_STOPTIME'', push_bit 9 1),
     (''DCSR_CAUSE'', push_bit 6 7), (''DCSR_DEBUGINT'', push_bit 5 1), (''DCSR_HALT'', push_bit 3 1),
     (''DCSR_STEP'', push_bit 2 1), (''DCSR_PRV'', push_bit 0 3)]"

text \<open>The three fields whose place depends on the width of the registers come first.\<close>

definition MCONTROL_fields :: "nat \<Rightarrow> (string \<times> u64) list" where
  "MCONTROL_fields xlen =
    [(''MCONTROL_TYPE'', push_bit (xlen - 4) 0xf), (''MCONTROL_DMODE'', push_bit (xlen - 5) 1),
     (''MCONTROL_MASKMAX'', push_bit (xlen - 11) 0x3f),
     (''MCONTROL_SELECT'', push_bit 19 1), (''MCONTROL_TIMING'', push_bit 18 1),
     (''MCONTROL_ACTION'', push_bit 12 0x3f), (''MCONTROL_CHAIN'', push_bit 11 1),
     (''MCONTROL_MATCH'', push_bit 7 0xf), (''MCONTROL_M'', push_bit 6 1), (''MCONTROL_H'', push_bit 5 1),
     (''MCONTROL_S'', push_bit 4 1), (''MCONTROL_U'', push_bit 3 1), (''MCONTROL_EXECUTE'', push_bit 2 1),
     (''MCONTROL_STORE'', push_bit 1 1), (''MCONTROL_LOAD'', push_bit 0 1)]"

definition DECLARE_CAUSE :: "(string \<times> u64) list" where
  "DECLARE_CAUSE =
    [(''misaligned fetch'', CAUSE_MISALIGNED_FETCH), (''fault fetch'', CAUSE_FAULT_FETCH),
     (''illegal instruction'', CAUSE_ILLEGAL_INSTRUCTION), (''breakpoint'', CAUSE_BREAKPOINT),
     (''misaligned load'', CAUSE_MISALIGNED_LOAD), (''fault load'', CAUSE_FAULT_LOAD),
     (''misaligned store'', CAUSE_MISALIGNED_STORE), (''fault store'', CAUSE_FAULT_STORE),
     (''user_ecall'', CAUSE_USER_ECALL), (''supervisor_ecall'', CAUSE_SUPERVISOR_ECALL),
     (''hypervisor_ecall'', CAUSE_HYPERVISOR_ECALL), (''machine_ecall'', CAUSE_MACHINE_ECALL)]"

section \<open>Expanding the declarations\<close>

text \<open>A declaration that names a macro that is not defined does not compile: it is missing here.\<close>

definition expand :: "(string \<times> 'a) list \<Rightarrow> (string \<times> string) list \<Rightarrow> (string \<times> 'a) list" where
  "expand macros decls = List.map_filter (\<lambda>(n, m). map_option (Pair n) (map_of macros m)) decls"

definition insn_table :: "(string \<times> u32 \<times> u32) list" where
  "insn_table =
     expand MATCH_MASK_I DECLARE_INSN_I @ expand MATCH_MASK_MA DECLARE_INSN_MA @
     expand MATCH_MASK_System DECLARE_INSN_System @ expand MATCH_MASK_FD DECLARE_INSN_FD @
     expand MATCH_MASK_C DECLARE_INSN_C @ expand MATCH_MASK_Custom DECLARE_INSN_Custom"

definition csr_table :: "(string \<times> 12 word) list" where
  "csr_table =
     expand CSR_Unprivileged DECLARE_CSR_Unprivileged @ expand CSR_Supervisor DECLARE_CSR_Supervisor @
     expand CSR_Machine DECLARE_CSR_Machine @ expand CSR_High DECLARE_CSR_High"

text \<open>
  What a table promises to its users: the macros have different names and are declared in the order of
  their definition. Then every declaration is expanded, with the values in their order.
\<close>

locale declared_table =
  fixes macros :: "(string \<times> 'a) list" and decls :: "(string \<times> string) list"
  assumes distinct_macros: "distinct (map fst macros)"
    and same_order: "map snd decls = map fst macros"
begin

lemma expand_prefix:
  "\<forall>(m, v) \<in> set ms. map_of macros m = Some v \<Longrightarrow> map snd ds = map fst ms \<Longrightarrow>
   expand macros ds = zip (map fst ds) (map snd ms)"
proof (induction ds arbitrary: ms)
  case (Cons d ds)
  then obtain m ms' where "ms = m # ms'" by (cases ms) auto
  with Cons show ?case by (cases d; cases m) (auto simp: expand_def List.map_filter_simps)
qed (simp add: expand_def List.map_filter_simps)

lemma expand_zip: "expand macros decls = zip (map fst decls) (map snd macros)"
  using distinct_macros same_order by (intro expand_prefix) auto

lemma expand_names: "map fst (expand macros decls) = map fst decls"
  using arg_cong [OF same_order, of length] by (simp add: expand_zip)

lemma expand_values: "map snd (expand macros decls) = map snd macros"
  using arg_cong [OF same_order, of length] by (simp add: expand_zip)

end

interpretation insns_I: declared_table MATCH_MASK_I DECLARE_INSN_I
  by (unfold_locales; code_simp)

interpretation insns_MA: declared_table MATCH_MASK_MA DECLARE_INSN_MA
  by (unfold_locales; code_simp)

interpretation insns_System: declared_table MATCH_MASK_System DECLARE_INSN_System
  by (unfold_locales; code_simp)

interpretation insns_FD: declared_table MATCH_MASK_FD DECLARE_INSN_FD
  by (unfold_locales; code_simp)

interpretation insns_C: declared_table MATCH_MASK_C DECLARE_INSN_C
  by (unfold_locales; code_simp)

interpretation insns_Custom: declared_table MATCH_MASK_Custom DECLARE_INSN_Custom
  by (unfold_locales; code_simp)

interpretation csrs_Unprivileged: declared_table CSR_Unprivileged DECLARE_CSR_Unprivileged
  by (unfold_locales; code_simp)

interpretation csrs_Supervisor: declared_table CSR_Supervisor DECLARE_CSR_Supervisor
  by (unfold_locales; code_simp)

interpretation csrs_Machine: declared_table CSR_Machine DECLARE_CSR_Machine
  by (unfold_locales; code_simp)

interpretation csrs_High: declared_table CSR_High DECLARE_CSR_High
  by (unfold_locales; code_simp)

lemmas expand_insns =
  insns_I.expand_zip insns_MA.expand_zip insns_System.expand_zip insns_FD.expand_zip insns_C.expand_zip
  insns_Custom.expand_zip

lemmas insn_names =
  insns_I.expand_names insns_MA.expand_names insns_System.expand_names insns_FD.expand_names
  insns_C.expand_names insns_Custom.expand_names

lemmas insn_codes =
  insns_I.expand_values insns_MA.expand_values insns_System.expand_values insns_FD.expand_values
  insns_C.expand_values insns_Custom.expand_values

lemmas expand_csrs =
  csrs_Unprivileged.expand_zip csrs_Supervisor.expand_zip csrs_Machine.expand_zip csrs_High.expand_zip

lemmas csr_names =
  csrs_Unprivileged.expand_names csrs_Supervisor.expand_names csrs_Machine.expand_names
  csrs_High.expand_names

lemmas csr_codes =
  csrs_Unprivileged.expand_values csrs_Supervisor.expand_values csrs_Machine.expand_values
  csrs_High.expand_values

end
