(* ===== verification/Riscv_Decode.thy ===== *)
theory Riscv_Decode
  imports Riscv_Encoding
begin

unbundle bit_operations_syntax

text \<open>
  What the tables of instructions and registers promise: the words that match two instructions are
  exactly those the compressed extension shares on purpose, no two registers have the same number, the
  numbers carry the privilege the names say, and the fields of the status registers do not overlap.
\<close>

section \<open>Decoding\<close>

text \<open>A word is an instruction of the table when its fixed bits are those of the encoding.\<close>

definition matches :: "u32 \<Rightarrow> string \<times> u32 \<times> u32 \<Rightarrow> bool" where
  "matches w e = (case e of (n, m, k) \<Rightarrow> w AND k = m)"

definition decode :: "u32 \<Rightarrow> string list" where
  "decode w = map fst (filter (matches w) insn_table)"

text \<open>
  A decision tree over fields of the word: a field that all candidates fix parts them by its value.
  What it returns are the groups of candidates that the fields do not tell apart.
\<close>

primrec leaves :: "int list \<Rightarrow> ('a \<times> int \<times> int) list \<Rightarrow> 'a list list" where
  "leaves [] es = (case es of [] \<Rightarrow> [] | e # es' \<Rightarrow> (case es' of [] \<Rightarrow> [] | _ \<Rightarrow> [map fst es]))"
| "leaves (f # fs) es =
     (case es of [] \<Rightarrow> [] | e # es' \<Rightarrow>
       (case es' of [] \<Rightarrow> []
        | _ \<Rightarrow> (if list_all (\<lambda>(t, m, k). k AND f = f) es
               then (let ks = map (\<lambda>(t, m, k). (m AND f, t, m, k)) es
                     in concat (map (\<lambda>v. leaves fs (map snd (filter (\<lambda>p. fst p = v) ks))) (remdups (map fst ks))))
               else leaves fs es)))"

definition keys :: "(string \<times> u32 \<times> u32) list \<Rightarrow> (unit \<times> int \<times> int) list" where
  "keys es = map (\<lambda>(n, m, k). ((), uint m, uint k)) es"

definition named_keys :: "(string \<times> u32 \<times> u32) list \<Rightarrow> (string \<times> int \<times> int) list" where
  "named_keys es = map (\<lambda>(n, m, k). (n, uint m, uint k)) es"

definition fixes_field :: "int \<Rightarrow> int list \<Rightarrow> ('a \<times> int \<times> int) list \<Rightarrow> bool" where
  "fixes_field f vs es = list_all (\<lambda>(t, m, k). k AND f = f \<and> m AND f \<in> set vs) es"

definition fits :: "u32 \<Rightarrow> 'a \<times> int \<times> int \<Rightarrow> bool" where
  "fits w e = (case e of (t, m, k) \<Rightarrow> uint w AND k = m)"

lemma fits_field: "fits w (t, m, k) \<Longrightarrow> k AND f = f \<Longrightarrow> m AND f = uint w AND f"
  by (auto simp: fits_def and.assoc)

lemma leaves_sound:
  "length (filter (fits w) es) \<le> 1 \<or> (\<exists>l \<in> set (leaves fs es). set (map fst (filter (fits w) es)) \<subseteq> set l)"
proof (induction fs arbitrary: es)
  case Nil
  show ?case
  proof (cases es)
    case es: (Cons e es')
    then show ?thesis by (cases es') auto
  qed simp
next
  case (Cons f fs)
  let ?P = "list_all (\<lambda>(t, m, k). k AND f = f) es"
  let ?g = "\<lambda>v. map snd (filter (\<lambda>p. fst p = v) (map (\<lambda>(t, m, k). (m AND f, t, m, k)) es))"
  have g: "?g v = filter (\<lambda>(t, m, k). m AND f = v) es" for v by (induction es) auto
  have "leaves (f # fs) es = (if ?P then concat (map (\<lambda>v. leaves fs (?g v)) (remdups (map (\<lambda>(t, m, k). m AND f) es)))
      else leaves fs es)" if long: "\<not> length es \<le> 1"
  proof -
    obtain e1 es1 where 1: "es = e1 # es1" "es1 \<noteq> []" using long by (cases es) auto
    then obtain e2 es' where "es = e1 # e2 # es'" by (cases es1) auto
    then show ?thesis by (simp only: leaves.simps list.case Let_def map_map comp_def case_prod_unfold fst_conv)
  qed
  then consider "length es \<le> 1" | "leaves (f # fs) es = leaves fs es"
    | "?P" "leaves (f # fs) es = concat (map (\<lambda>v. leaves fs (?g v)) (remdups (map (\<lambda>(t, m, k). m AND f) es)))"
    by argo
  then show ?case
  proof cases
    case 1
    then show ?thesis by (auto intro: order_trans [OF length_filter_le])
  next
    case 2
    then show ?thesis using Cons.IH by simp
  next
    case 3
    let ?v = "uint w AND f"
    have same: "filter (fits w) es = filter (fits w) (?g ?v)"
      unfolding g filter_filter using 3(1) fits_field by (intro filter_cong) (fastforce simp: list_all_iff)+
    show ?thesis
    proof (cases "?v \<in> set (map (\<lambda>(t, m, k). m AND f) es)")
      case True
      then have "set (leaves fs (?g ?v)) \<subseteq> set (leaves (f # fs) es)" unfolding 3(2) by auto
      then show ?thesis unfolding same using Cons.IH [of "?g ?v"] by blast
    next
      case False
      then have "?g ?v = []" unfolding g by (force simp: filter_empty_conv)
      then show ?thesis unfolding same by simp
    qed
  qed
qed

lemma fixes_field_fits: "fixes_field f vs es \<Longrightarrow> e \<in> set es \<Longrightarrow> fits w e \<Longrightarrow> uint w AND f \<in> set vs"
  using fits_field by (cases e) (fastforce simp: fixes_field_def list_all_iff)

lemma matches_uint: "matches w (n, m, k) \<longleftrightarrow> uint w AND uint k = uint m"
  by (simp add: matches_def unsigned_and_eq [symmetric] flip: word_uint_eq_iff)

lemma fits_keys:
  "length (filter (fits w) (keys es)) = length (filter (matches w) es)"
  "map fst (filter (fits w) (named_keys es)) = map fst (filter (matches w) es)"
  by (induction es) (auto simp: keys_def named_keys_def matches_uint fits_def)

lemma keys_snd: "map snd es = map snd fs \<Longrightarrow> keys es = keys fs"
proof -
  have "keys gs = map (\<lambda>(m, k). ((), uint m, uint k)) (map snd gs)" for gs by (induction gs) (auto simp: keys_def)
  then show "map snd es = map snd fs \<Longrightarrow> keys es = keys fs" by (simp only:)
qed

text \<open>One group of instructions, and two groups that a field keeps apart.\<close>

lemma group_single: "leaves fs (keys es) = [] \<Longrightarrow> length (filter (matches w) es) \<le> 1"
  using leaves_sound [of w "keys es" fs] by (simp add: fits_keys)

lemma group_apart:
  assumes "fixes_field f vs (keys A)" and "fixes_field f us (keys B)" and "set vs \<inter> set us = {}"
  shows "filter (matches w) A = [] \<or> filter (matches w) B = []"
proof (rule ccontr)
  have *: "uint w AND f \<in> set us" if "fixes_field f us (keys C)" "filter (matches w) C \<noteq> []" for us C
  proof -
    have "filter (fits w) (keys C) \<noteq> []" using that(2) fits_keys(1) [of w C] by (metis length_0_conv)
    then obtain e where "e \<in> set (keys C)" "fits w e" by (auto simp: filter_empty_conv)
    then show ?thesis using that(1) fixes_field_fits by blast
  qed
  assume "\<not> (filter (matches w) A = [] \<or> filter (matches w) B = [])"
  then show False using * [OF assms(1)] * [OF assms(2)] assms(3) by blast
qed

section \<open>The table of instructions\<close>

definition table_IMA :: "(string \<times> u32 \<times> u32) list" where
  "table_IMA = expand MATCH_MASK_I DECLARE_INSN_I @ expand MATCH_MASK_MA DECLARE_INSN_MA"

lemmas insn_keys =
  keys_snd [OF insn_codes(3)] keys_snd [OF insn_codes(4)] keys_snd [OF insn_codes(5)] keys_snd [OF insn_codes(6)]

lemma keys_IMA: "keys table_IMA = keys (MATCH_MASK_I @ MATCH_MASK_MA)"
  by (rule keys_snd) (simp add: table_IMA_def insn_codes)

text \<open>Within a group the fields of the formats tell the instructions apart.\<close>

lemma leaves_groups:
  "leaves [0x7f, 0x7000, 0xf8000000, 0xfc000000, 0xfe000000] (keys (MATCH_MASK_I @ MATCH_MASK_MA)) = []"
  "leaves [0x7000, 0xfff00000] (keys MATCH_MASK_System) = []"
  "leaves [0x7f, 0xfe000000, 0x06000000, 0x7000, 0x1f00000] (keys MATCH_MASK_FD) = []"
  "leaves [0x7f, 0x7000] (keys MATCH_MASK_Custom) = []"
  by code_simp+

text \<open>
  The instructions that share words: special cases of a more general encoding, and compressed
  instructions that are one thing in the 32-bit configuration and another in the 64-bit one.
\<close>

definition shared :: "string list list" where
  "shared =
    [[''c_ld'', ''c_flw''], [''c_sd'', ''c_fsw''], [''c_nop'', ''c_addi''], [''c_addiw'', ''c_jal''],
     [''c_addi16sp'', ''c_lui''], [''c_ldsp'', ''c_flwsp''], [''c_jr'', ''c_mv''],
     [''c_jalr'', ''c_ebreak'', ''c_add''], [''c_sdsp'', ''c_fswsp'']]"

lemma leaves_C: "leaves [0xe003, 0xf003, 0xec03, 0xfc63] (named_keys (expand MATCH_MASK_C DECLARE_INSN_C)) = shared"
  unfolding expand_insns by code_simp

text \<open>Groups use different opcodes, and only compressed instructions have other low bits than 3.\<close>

lemma opcodes:
  "fixes_field 0x7f [0x3, 0xf, 0x13, 0x17, 0x1b, 0x23, 0x2f, 0x33, 0x37, 0x3b, 0x63, 0x67, 0x6f] (keys (MATCH_MASK_I @ MATCH_MASK_MA))"
  "fixes_field 0x7f [0x73] (keys MATCH_MASK_System)"
  "fixes_field 0x7f [0x7, 0x27, 0x43, 0x47, 0x4b, 0x4f, 0x53] (keys MATCH_MASK_FD)"
  "fixes_field 0x7f [0xb, 0x2b, 0x5b, 0x7b] (keys MATCH_MASK_Custom)"
  by code_simp+

lemma quadrants:
  "fixes_field 3 [3] (keys (MATCH_MASK_I @ MATCH_MASK_MA))"
  "fixes_field 3 [3] (keys MATCH_MASK_System)"
  "fixes_field 3 [3] (keys MATCH_MASK_FD)"
  "fixes_field 3 [0, 1, 2] (keys MATCH_MASK_C)"
  "fixes_field 3 [3] (keys MATCH_MASK_Custom)"
  by code_simp+

lemma match_under_mask: "list_all (\<lambda>(n, m, k). m AND k = m) insn_table"
  unfolding insn_table_def expand_insns by code_simp

lemma shared_compressed:
  assumes "filter (matches w) (expand MATCH_MASK_C DECLARE_INSN_C) \<noteq> []"
  shows "w AND 3 \<noteq> 3"
proof -
  have "filter (fits w) (keys (expand MATCH_MASK_C DECLARE_INSN_C)) \<noteq> []"
    using assms fits_keys(1) [of w "expand MATCH_MASK_C DECLARE_INSN_C"] by (metis length_0_conv)
  then obtain e where "e \<in> set (keys MATCH_MASK_C)" "fits w e" by (auto simp: insn_keys filter_empty_conv)
  then have "uint w AND 3 \<noteq> 3" using fixes_field_fits [OF quadrants(4)] by fastforce
  moreover have "uint (w AND 3) = uint w AND 3" by (simp add: unsigned_and_eq)
  ultimately show ?thesis by auto
qed

lemma decode_cases: "length (decode w) \<le> 1 \<or> (w AND 3 \<noteq> 3 \<and> list_ex (\<lambda>s. set (decode w) \<subseteq> set s) shared)"
proof -
  let ?S = "expand MATCH_MASK_System DECLARE_INSN_System" and ?F = "expand MATCH_MASK_FD DECLARE_INSN_FD"
  let ?C = "expand MATCH_MASK_C DECLARE_INSN_C" and ?X = "expand MATCH_MASK_Custom DECLARE_INSN_Custom"
  let ?m = "filter (matches w)"
  note K = keys_IMA insn_keys
  have d: "decode w = map fst (?m table_IMA @ ?m ?S @ ?m ?F @ ?m ?C @ ?m ?X)"
    by (simp add: decode_def insn_table_def table_IMA_def)
  have single: "length (?m table_IMA) \<le> 1" "length (?m ?S) \<le> 1" "length (?m ?F) \<le> 1" "length (?m ?X) \<le> 1"
    using leaves_groups [folded K] group_single by blast+
  have apart: "?m table_IMA = [] \<or> ?m ?S = []" "?m table_IMA = [] \<or> ?m ?F = []" "?m table_IMA = [] \<or> ?m ?X = []"
    "?m ?S = [] \<or> ?m ?F = []" "?m ?S = [] \<or> ?m ?X = []" "?m ?F = [] \<or> ?m ?X = []"
    using opcodes [folded K] by (simp_all add: group_apart)
  have apartC: "?m table_IMA = [] \<or> ?m ?C = []" "?m ?S = [] \<or> ?m ?C = []" "?m ?F = [] \<or> ?m ?C = []" "?m ?C = [] \<or> ?m ?X = []"
    using quadrants [folded K] by (simp_all add: group_apart)
  show ?thesis
  proof (cases "?m ?C = []")
    case True
    then show ?thesis using single apart d by fastforce
  next
    case False
    then have "decode w = map fst (?m ?C)" using apartC d by auto
    moreover have "length (?m ?C) \<le> 1 \<or> (\<exists>l \<in> set shared. set (map fst (?m ?C)) \<subseteq> set l)"
      using leaves_sound [of w "named_keys ?C" "[0xe003, 0xf003, 0xec03, 0xfc63]"] unfolding leaves_C
      by (metis fits_keys(2) length_map)
    ultimately show ?thesis using shared_compressed [OF False] by (auto simp: list_ex_iff)
  qed
qed

section \<open>Registers\<close>

text \<open>
  The number of a register carries its lowest privilege in bits 8 and 9 and, when bits 10 and 11 are
  set, that it cannot be written. The names begin with the letter of the mode; those of the trigger and
  debug registers belong to machine mode, those of the user counters have no letter.
\<close>

definition csr_privilege :: "12 word \<Rightarrow> nat" where
  "csr_privilege v = unat (take_bit 2 (drop_bit 8 v))"

definition csr_readonly :: "12 word \<Rightarrow> bool" where
  "csr_readonly v \<longleftrightarrow> drop_bit 10 v = 3"

definition name_privilege :: "string \<Rightarrow> nat" where
  "name_privilege n =
     (if hd n = CHR ''m'' \<or> n \<in> set [''tselect'', ''tdata1'', ''tdata2'', ''tdata3'', ''dcsr'', ''dpc'', ''dscratch''] then PRV_M
      else if hd n = CHR ''s'' then PRV_S else PRV_U)"

definition csr_name :: "csr \<Rightarrow> string" where
  "csr_name reg = (case reg of Sstatus \<Rightarrow> ''sstatus'' | Sie \<Rightarrow> ''sie'' | Stvec \<Rightarrow> ''stvec'' | Sscratch \<Rightarrow> ''sscratch''
     | Sepc \<Rightarrow> ''sepc'' | Scause \<Rightarrow> ''scause'' | Sbadaddr \<Rightarrow> ''sbadaddr'' | Satp \<Rightarrow> ''satp'')"

definition disjoint_fields :: "(string \<times> u64) list \<Rightarrow> bool" where
  "disjoint_fields fs = sorted_wrt (\<lambda>f g. snd f AND snd g = 0) fs"

lemma csr_uints: "distinct (map uint (map snd (CSR_Unprivileged @ CSR_Supervisor @ CSR_Machine @ CSR_High)))"
  by code_simp

lemma csr_distinct: "distinct (map snd csr_table)"
proof -
  have "map snd csr_table = map snd (CSR_Unprivileged @ CSR_Supervisor @ CSR_Machine @ CSR_High)"
    by (simp add: csr_table_def csr_codes)
  then show ?thesis using csr_uints distinct_map by metis
qed

lemma csr_privileges: "list_all (\<lambda>(n, v). csr_privilege v = name_privilege n) csr_table"
  unfolding csr_table_def expand_csrs by code_simp

lemma supervisor_csrs:
  "\<exists>v. map_of csr_table (csr_name reg) = Some v \<and> csr_privilege v = PRV_S \<and> \<not> csr_readonly v"
proof -
  let ?ok = "\<lambda>reg. map_of (expand CSR_Unprivileged DECLARE_CSR_Unprivileged) (csr_name reg) = None \<and>
    (case map_of (expand CSR_Supervisor DECLARE_CSR_Supervisor) (csr_name reg) of None \<Rightarrow> False
     | Some v \<Rightarrow> csr_privilege v = PRV_S \<and> \<not> csr_readonly v)"
  have "list_all ?ok [Sstatus, Sie, Stvec, Sscratch, Sepc, Scause, Sbadaddr, Satp]" unfolding expand_csrs by code_simp
  then have "?ok reg" by (cases reg) simp_all
  then show ?thesis by (auto simp: csr_table_def map_add_def split: option.splits)
qed

section \<open>Properties\<close>

text \<open>
  C13. Decoding by the tables of \<open>riscv.h\<close>: every declaration names macros that are defined, every
  encoding lies under its mask, and a word is at most one instruction, except for compressed words in
  the overlaps that the extension defines: \<open>c.nop\<close> as a case of \<open>c.addi\<close>, \<open>c.ebreak\<close> and \<open>c.jalr\<close> of
  \<open>c.add\<close>, and encodings with two readings for the two register widths.
\<close>

theorem insn_decode_unambiguous:
  "map fst insn_table = map fst (DECLARE_INSN_I @ DECLARE_INSN_MA @ DECLARE_INSN_System @ DECLARE_INSN_FD @
     DECLARE_INSN_C @ DECLARE_INSN_Custom) \<and>
   list_all (\<lambda>(n, m, k). n \<in> set (decode m)) insn_table \<and>
   (length (decode w) \<le> 1 \<or> (w AND 3 \<noteq> 3 \<and> list_ex (\<lambda>s. set (decode w) \<subseteq> set s) shared))"
proof (intro conjI)
  show "map fst insn_table = map fst (DECLARE_INSN_I @ DECLARE_INSN_MA @ DECLARE_INSN_System @ DECLARE_INSN_FD @
     DECLARE_INSN_C @ DECLARE_INSN_Custom)"
    by (simp add: insn_table_def insn_names)
  show "list_all (\<lambda>(n, m, k). n \<in> set (decode m)) insn_table"
    using match_under_mask unfolding list_all_iff decode_def by (force simp: matches_def)
  show "length (decode w) \<le> 1 \<or> (w AND 3 \<noteq> 3 \<and> list_ex (\<lambda>s. set (decode w) \<subseteq> set s) shared)"
    by (rule decode_cases)
qed

theorem insn_decode_unambiguous_witness: "length (decode 0x10200073) \<le> 1 \<and> 0x10200073 AND (3 :: u32) = 3"
  using insn_decode_unambiguous [of "0x10200073"] by simp


end
