(* ===== verification/Llvm_Ir.thy ===== *)
theory Llvm_Ir
  imports CC_Prelude
begin

text \<open>
  The objects of the LLVM library as the translator \<open>racket/llvm-rosette\<close> looks at them: types, values,
  operators, instructions, functions, modules and debugging types. A constructor stands for an answer of
  \<open>dyn_cast\<close> or of a query method in \<open>RosetteEmitter.cc\<close>, and its arguments for what the translator then
  asks. Everything that LLVM computes or prints itself is the record \<open>llvm_api\<close>, a parameter of the
  translator's definitions.
\<close>

section \<open>Types\<close>

text \<open>A struct type with a name is not literal.\<close>

datatype ltype =
    IntTy nat
  | PointerTy ltype
  | ArrayTy nat ltype
  | StructTy "string option" "ltype list"
  | VectorTy nat ltype
  | OtherTy string

text \<open>Debugging types: \<open>None\<close> is the null pointer.\<close>

datatype ditype =
    DITypedef "ditype option"
  | DIArray "ditype option" nat
  | DIStruct "ditype option list"
  | DIMember string "ditype option"
  | DIOther

section \<open>Values and operators\<close>

text \<open>
  What is printed by \<open>printAsOperand\<close> (names of globals, functions, instructions, arguments and blocks,
  and constants without a case of their own) is an argument of the constructor. \<open>ConstantDataVector\<close>
  has no operands. \<open>detail\<close> is what the tests for instruction classes in \<open>visitOperator\<close> find.
\<close>

datatype detail =
    NoDetail
  | CmpInst string
  | LoadInst ltype nat
  | StoreInst ltype nat
  | ExtractValueInst "nat list"
  | InsertValueInst "nat list"

datatype lvalue =
    ConstantAggregateZero ltype
  | ConstantInt nat int
  | ConstantExpr lop
  | UndefValue ltype
  | ConstantVector "lvalue list"
  | ConstantDataVector string
  | ConstantDataString string "u8 list"
  | ConstantAggregate string "lvalue list"
  | GlobalVariable string "lvalue option"
  | OtherValue string
and lop =
    Operator string "lvalue list" ltype detail
  | GEPOperator string lvalue "gep_index list"
and gep_index =
    StructIndex ltype lvalue
  | ArrayIndex ltype lvalue

section \<open>Instructions, functions and modules\<close>

text \<open>A called function with its name, its printed operand and whether its linkage is external.\<close>

datatype callee =
    Called_function string string bool
  | Inline_asm string
  | Called_value lvalue

text \<open>
  The second argument of an instruction is the text LLVM prints for it; \<open>Instruction\<close> stands for every
  class without a visitor of its own, \<open>None\<close> in place of its name for the type \<open>void\<close>.
\<close>

datatype linstr =
    Instruction "string option" string lop
  | PHINode string string "(lvalue \<times> string) list"
  | BranchInst string string
  | CondBranchInst string lvalue string string
  | CallInst "string option" string callee "lvalue list"
  | DbgInfoIntrinsic string
  | AllocaInst string string ltype nat
  | SwitchInst string lvalue string "(lvalue \<times> string) list"

record basic_block =
  block_name :: string
  predecessors :: "string list"
  instrs :: "linstr list"

record lfunction =
  fun_name :: string
  external :: bool
  is_dbg :: bool
  fun_type :: string
  fun_args :: "(string \<times> ltype) list"
  blocks :: "basic_block list"

record global =
  global_ref :: string
  value_type :: ltype
  debug_infos :: "ditype option list"

record lmodule =
  big_endian :: bool
  pointer_bits :: nat
  getGlobalList :: "global list"
  getFunctionList :: "lfunction list"

section \<open>What LLVM computes\<close>

text \<open>
  Texts of types and numbers, the classification of opcodes, the layout of the target, the nearest common
  post-dominator of two blocks of a function, and the value under pointer casts.
\<close>

record llvm_api =
  type_text :: "ltype \<Rightarrow> string"
  apint_text :: "nat \<Rightarrow> int \<Rightarrow> string"
  hex_text :: "u64 \<Rightarrow> nat \<Rightarrow> string"
  hexdigit :: "u32 \<Rightarrow> char"
  isCast :: "string \<Rightarrow> bool"
  getTypeAllocSize :: "ltype \<Rightarrow> u64"
  getPreferredAlignment :: "global \<Rightarrow> u32"
  alignTo :: "u64 \<Rightarrow> u64 \<Rightarrow> u64"
  getElementOffset :: "ltype \<Rightarrow> nat \<Rightarrow> u64"
  findNearestCommonDominator :: "lfunction \<Rightarrow> string \<Rightarrow> string \<Rightarrow> string option"
  stripPointerCasts :: "lvalue \<Rightarrow> lvalue"

text \<open>Unsigned numbers in decimal.\<close>

fun dec :: "nat \<Rightarrow> string" where
  "dec n = (if n < 10 then [''0123456789'' ! n] else dec (n div 10) @ [''0123456789'' ! (n mod 10)])"

declare dec.simps [simp del]

end
