(* ===== verification/Rosette_Emitter.thy ===== *)
theory Rosette_Emitter
  imports Llvm_Ir
begin

text \<open>
  The translator from LLVM to Rosette, \<open>racket/llvm-rosette/RosetteEmitter.cc\<close>: every method as the text
  it appends to the output stream. A failed \<open>assert\<close>, which aborts the translator, is \<open>None\<close>. The
  operands of a chain of \<open><<\<close> are evaluated from left to right, as C++17 guarantees; the code relies on
  it, since \<open>getRef\<close> prints and returns an empty string.
\<close>

section \<open>Texts that may fail\<close>

definition cat :: "string option list \<Rightarrow> string option" where
  "cat xs = (if None \<in> set xs then None else Some (concat (map the xs)))"

lemma cat_Nil [simp]: "cat [] = Some []"
  by (simp add: cat_def)

lemma cat_Cons [simp]:
  "cat (x # xs) = (case x of None \<Rightarrow> None | Some s \<Rightarrow> map_option ((@) s) (cat xs))"
  by (auto simp: cat_def split: option.split)

lemma cat_append: "cat (xs @ ys) = (case cat xs of None \<Rightarrow> None | Some s \<Rightarrow> map_option ((@) s) (cat ys))"
  by (auto simp: cat_def split: option.split)

text \<open>A space before each element, as the loops over operands print them.\<close>

definition spaced :: "string option list \<Rightarrow> string option list" where
  "spaced xs = concat (map (\<lambda>x. [Some '' '', x]) xs)"

definition require :: "bool \<Rightarrow> string option \<Rightarrow> string option" where
  "require c x = (if c then x else None)"

section \<open>Types and strings\<close>

fun getType :: "llvm_api \<Rightarrow> ltype \<Rightarrow> string option" where
  "getType L (IntTy w) = Some (''(bitvector '' @ dec w @ '')'')"
| "getType L (StructTy nm ts) =
     require (nm = None) (cat (Some ''(list'' # spaced (map (getType L) ts) @ [Some '')'']))"
| "getType L (VectorTy n t) = cat [Some (''(make-vector '' @ dec n @ '' ''), getType L t, Some '')'']"
| "getType L T = Some (CHR 0x22 # type_text L T @ [CHR 0x22])"

text \<open>
  Characters are signed, as on the hosts the translator runs on: \<open>c / 16\<close> and \<open>c % 16\<close> truncate towards
  zero and are converted to \<open>unsigned\<close>.
\<close>

definition isPrint :: "u8 \<Rightarrow> bool" where
  "isPrint c \<longleftrightarrow> 0x20 \<le> c \<and> c \<le> 0x7E"

definition c_div16 :: "u8 \<Rightarrow> u32" where
  "c_div16 c = of_int (if sint c < 0 then - (- sint c div 16) else sint c div 16)"

definition c_mod16 :: "u8 \<Rightarrow> u32" where
  "c_mod16 c = of_int (if sint c < 0 then - (- sint c mod 16) else sint c mod 16)"

definition printRacketEscaped :: "llvm_api \<Rightarrow> u8 list \<Rightarrow> string" where
  "printRacketEscaped L S =
     (let S' = (if S \<noteq> [] \<and> last S = 0 then butlast S else S)
      in [CHR 0x23, CHR 0x22] @
         concat (map (\<lambda>c. if isPrint c \<and> c \<noteq> 0x5C \<and> c \<noteq> 0x22 then [char_of (unat c)]
           else [CHR 0x5C, CHR ''x'', hexdigit L (c_div16 c), hexdigit L (c_mod16 c)]) S') @
         [CHR 0x22])"

section \<open>Functions with a special meaning\<close>

text \<open>
  \<open>llvm::Regex::match\<close> looks for a match anywhere in the name. The alternatives of the pattern
  denote finitely many strings, which are listed.
\<close>

fun contains :: "string \<Rightarrow> string \<Rightarrow> bool" where
  "contains p [] \<longleftrightarrow> p = []"
| "contains p (c # s) \<longleftrightarrow> take (length p) (c # s) = p \<or> contains p s"

definition builtin_patterns :: "string list" where
  "builtin_patterns =
     [''llvm.bswap.i'' @ w. w \<leftarrow> [''16'', ''32'', ''64'']] @
     [''llvm.'' @ [sg] @ f @ ''.with.overflow.i'' @ w.
        sg \<leftarrow> [CHR ''s'', CHR ''u''], f \<leftarrow> [''add'', ''sub'', ''mul''], w \<leftarrow> [''16'', ''32'', ''64'']] @
     [''llvm.lifetime.'' @ w @ ''.p0i8''. w \<leftarrow> [''start'', ''end'']] @
     [''llvm.memset.p0i8.i64'', ''memset'', ''memzero_explicit'']"

definition isBuiltinFunction :: "string \<Rightarrow> bool" where
  "isBuiltinFunction F \<longleftrightarrow> list_ex (\<lambda>p. contains p F) builtin_patterns"

definition isUBSanFunction :: "string \<Rightarrow> bool" where
  "isUBSanFunction F \<longleftrightarrow> take (length ''__ubsan_handle_'') F = ''__ubsan_handle_''"

definition isAssertFunction :: "string \<Rightarrow> bool" where
  "isAssertFunction F \<longleftrightarrow> F \<in> {''__assert_fail'', ''__assert_func'', ''__assert_rtn''}"

text \<open>The intrinsics \<open>dbg_addr\<close>, \<open>dbg_declare\<close>, \<open>dbg_label\<close> and \<open>dbg_value\<close>.\<close>

definition isDbgFunction :: "lfunction \<Rightarrow> bool" where
  "isDbgFunction F \<longleftrightarrow> is_dbg F"

section \<open>Values and operators\<close>

text \<open>The operands an operator with a detail prints after its arguments.\<close>

definition mem_type :: "llvm_api \<Rightarrow> ltype \<Rightarrow> string option" where
  "mem_type L T = (case T of PointerTy _ \<Rightarrow> Some '' (bitvector 64) #:pointer #t''
     | _ \<Rightarrow> map_option ((@) '' '') (getType L T))"

definition visitDetail :: "llvm_api \<Rightarrow> detail \<Rightarrow> string option" where
  "visitDetail L d =
     (case d of
        LoadInst T al \<Rightarrow> cat [mem_type L T, Some ('' #:align '' @ dec al)]
      | StoreInst T al \<Rightarrow> cat [mem_type L T, Some ('' #:align '' @ dec al)]
      | ExtractValueInst is \<Rightarrow> cat (spaced (map (Some \<circ> dec) is))
      | InsertValueInst is \<Rightarrow> cat (spaced (map (Some \<circ> dec) is))
      | _ \<Rightarrow> Some [])"

definition opcode_text :: "string \<Rightarrow> detail \<Rightarrow> string" where
  "opcode_text op d = op @ (case d of CmpInst p \<Rightarrow> ''/'' @ p | _ \<Rightarrow> [])"

fun getRef :: "llvm_api \<Rightarrow> lvalue \<Rightarrow> string option"
and visitOperator :: "llvm_api \<Rightarrow> lop \<Rightarrow> string option"
and visitGEPIndex :: "llvm_api \<Rightarrow> gep_index \<Rightarrow> string option" where
  "getRef L (ConstantAggregateZero T) = cat [Some ''(zeroinitializer '', getType L T, Some '')'']"
| "getRef L (ConstantInt w i) = Some (''(bv '' @ apint_text L w i @ '' '' @ dec w @ '')'')"
| "getRef L (ConstantExpr e) = visitOperator L e"
| "getRef L (UndefValue T) = cat [Some ''(undef '', getType L T, Some '')'']"
| "getRef L (ConstantVector vs) = cat (Some ''(vector'' # spaced (map (getRef L) vs) @ [Some '')''])"
| "getRef L (ConstantDataVector s) = Some ''(vector)''"
| "getRef L (ConstantDataString s bs) = Some s"
| "getRef L (ConstantAggregate s vs) = Some s"
| "getRef L (GlobalVariable s i) = Some s"
| "getRef L (OtherValue s) = Some s"
| "visitOperator L (Operator op vs T d) =
     cat ([Some (CHR ''('' # opcode_text op d)] @ spaced (map (getRef L) vs) @
       [if isCast L op \<and> op \<noteq> ''bitcast'' \<and> op \<noteq> ''inttoptr'' then map_option ((@) '' '') (getType L T) else Some [],
        visitDetail L d, Some '')''])"
| "visitOperator L (GEPOperator op p is) =
     cat ([Some (CHR ''('' # op @ '' ''), getRef L p] @ spaced (map (visitGEPIndex L) is) @ [Some '')''])"
| "visitGEPIndex L (StructIndex T v) =
     (case v of
        ConstantInt w i \<Rightarrow>
          Some (''(struct-offset '' @ dec (unat (getElementOffset L T (nat (take_bit w i)))) @ '')'')
      | _ \<Rightarrow> None)"
| "visitGEPIndex L (ArrayIndex T v) =
     cat [Some ''(array-offset '', getRef L v, Some ('' '' @ dec (unat (getTypeAllocSize L T)) @ '')'')]"


section \<open>Instructions\<close>

definition set_to :: "string option \<Rightarrow> string option \<Rightarrow> string option" where
  "set_to nm body =
     (case nm of None \<Rightarrow> body | Some n \<Rightarrow> cat [Some (''(set! '' @ n @ '' ''), body, Some '')''])"

definition visitInstruction :: "llvm_api \<Rightarrow> string option \<Rightarrow> lop \<Rightarrow> string option" where
  "visitInstruction L nm e = set_to nm (visitOperator L e)"

definition visitPHINode :: "llvm_api \<Rightarrow> string \<Rightarrow> (lvalue \<times> string) list \<Rightarrow> string option" where
  "visitPHINode L nm ins =
     cat ([Some (''(set! '' @ nm @ '' (phi'')] @
       map (\<lambda>(v, b). cat [Some '' ['', getRef L v, Some ('' '' @ b @ '']'')]) ins @ [Some ''))''])"

definition visitBranchInst :: "string \<Rightarrow> string option" where
  "visitBranchInst l = Some (''(br '' @ l @ '')'')"

definition visitCondBranchInst :: "llvm_api \<Rightarrow> lvalue \<Rightarrow> string \<Rightarrow> string \<Rightarrow> string option" where
  "visitCondBranchInst L v l1 l2 = cat [Some ''(br '', getRef L v, Some ('' '' @ l1 @ '' '' @ l2 @ '')'')]"

text \<open>
  The regular expressions for inline assembler match whole strings, and since words and blanks cannot
  overlap there is at most one way to match.
\<close>

definition space :: "char \<Rightarrow> bool" where
  "space c \<longleftrightarrow> c \<in> {CHR '' '', CHR 0x09, CHR 0x0A, CHR 0x0B, CHR 0x0C, CHR 0x0D}"

definition operand_char :: "char \<Rightarrow> bool" where
  "operand_char c \<longleftrightarrow> \<not> space c \<and> c \<noteq> CHR '',''"

definition asm_words :: "string \<Rightarrow> (string \<times> string) option" where
  "asm_words s =
     (let w = takeWhile (\<lambda>c. \<not> space c) s; r = dropWhile (\<lambda>c. \<not> space c) s
      in if w \<noteq> [] \<and> r \<noteq> [] then Some (w, dropWhile space r) else None)"

definition asm_read :: "string \<Rightarrow> (string \<times> string) option" where
  "asm_read s =
     (case asm_words s of
        Some (w, CHR ''$'' # CHR ''0'' # CHR '','' # r) \<Rightarrow>
          (let v = dropWhile space r in if v \<noteq> [] \<and> list_all operand_char v then Some (w, v) else None)
      | _ \<Rightarrow> None)"

definition asm_write :: "string \<Rightarrow> (string \<times> string) option" where
  "asm_write s =
     (case asm_words s of
        Some (w, r) \<Rightarrow>
          (let v = takeWhile operand_char r
           in case dropWhile operand_char r of
                CHR '','' # r' \<Rightarrow> if v \<noteq> [] \<and> dropWhile space r' = ''$0'' then Some (w, v) else None
              | _ \<Rightarrow> None)
      | None \<Rightarrow> None)"

definition emitInlineAsm :: "string \<Rightarrow> string" where
  "emitInlineAsm s =
     ''asm '' @
     (if s = [] then [CHR 0x27] @ ''nop''
      else if list_all (\<lambda>c. \<not> space c) s then [CHR 0x27] @ s
      else case asm_read s of
             Some (w, v) \<Rightarrow> [CHR 0x27] @ w @ '' '' @ [CHR 0x27] @ v
           | None \<Rightarrow>
               (case asm_write s of
                  Some (w, v) \<Rightarrow> [CHR 0x27] @ w @ '' '' @ [CHR 0x27] @ v
                | None \<Rightarrow> [CHR 0x22] @ s @ [CHR 0x22]))"

text \<open>
  Lifting follows initialisers of global variables, which may refer back to the variable; the first
  argument bounds the depth of the recursion.
\<close>

fun emitLiftValue :: "nat \<Rightarrow> llvm_api \<Rightarrow> lvalue \<Rightarrow> string option" where
  "emitLiftValue 0 L V = None"
| "emitLiftValue (Suc n) L V =
     (case stripPointerCasts L V of
        GlobalVariable s (Some i) \<Rightarrow> emitLiftValue n L (stripPointerCasts L i)
      | _ \<Rightarrow>
          (case V of
             ConstantInt w i \<Rightarrow> Some (apint_text L w i)
           | ConstantDataString s bs \<Rightarrow> Some (printRacketEscaped L bs)
           | ConstantAggregate s vs \<Rightarrow> cat (Some ''(list'' # spaced (map (emitLiftValue n L) vs) @ [Some '')''])
           | ConstantVector vs \<Rightarrow> cat (Some ''(list'' # spaced (map (emitLiftValue n L) vs) @ [Some '')''])
           | _ \<Rightarrow> getRef L V))"

definition emitUBSan :: "nat \<Rightarrow> llvm_api \<Rightarrow> string \<Rightarrow> lvalue list \<Rightarrow> string option" where
  "emitUBSan n L F args =
     (case args of
        [] \<Rightarrow> None
      | a # as \<Rightarrow>
          cat ([Some (''('' @ F @ '' ''), emitLiftValue n L a] @ spaced (map (getRef L) as) @ [Some '')'']))"

definition emitAssert :: "nat \<Rightarrow> llvm_api \<Rightarrow> string \<Rightarrow> lvalue list \<Rightarrow> string option" where
  "emitAssert n L F args =
     cat ([Some (''('' @ F @ '' '')] @ spaced (map (emitLiftValue n L) args) @ [Some '')''])"

definition visitCallInst ::
  "nat \<Rightarrow> llvm_api \<Rightarrow> string option \<Rightarrow> callee \<Rightarrow> lvalue list \<Rightarrow> string option" where
  "visitCallInst n L nm cf args =
     (let regular = (\<lambda>head. set_to nm (cat ([Some ''('', head] @ spaced (map (getRef L) args) @ [Some '')''])))
      in case cf of
           Called_function F ref ext \<Rightarrow>
             (if ext \<and> isUBSanFunction F then emitUBSan n L F args
              else if ext \<and> isAssertFunction F then emitAssert n L F args
              else if isBuiltinFunction F then regular (Some F)
              else regular (Some (''call '' @ ref)))
         | Inline_asm s \<Rightarrow> regular (Some (emitInlineAsm s))
         | Called_value v \<Rightarrow> regular (map_option ((@) ''call '') (getRef L v)))"

definition visitSwitchInst :: "llvm_api \<Rightarrow> lvalue \<Rightarrow> string \<Rightarrow> (lvalue \<times> string) list \<Rightarrow> string option" where
  "visitSwitchInst L v d cs =
     cat ([Some ''(switch '', getRef L v, Some ('' '' @ d)] @
       map (\<lambda>(w, l). cat [Some '' ['', getRef L w, Some ('' '' @ l @ '']'')]) cs @ [Some '')''])"

section \<open>Global variables\<close>

fun stripDITypedef :: "ditype option \<Rightarrow> ditype option" where
  "stripDITypedef (Some (DITypedef d)) = stripDITypedef d"
| "stripDITypedef d = d"

text \<open>\<open>size\<close> is an \<open>unsigned\<close>: sizes are cut to 32 bits.\<close>

definition type_size :: "llvm_api \<Rightarrow> ltype \<Rightarrow> u32" where
  "type_size L T = ucast (getTypeAllocSize L T)"

definition array_base :: "ditype option \<Rightarrow> nat \<Rightarrow> (ditype option \<times> nat) option" where
  "array_base DT idx =
     (case DT of
        None \<Rightarrow> Some (None, idx)
      | Some (DIArray base dims) \<Rightarrow> Some (if idx + 1 = dims then (base, 0) else (DT, idx + 1))
      | _ \<Rightarrow> None)"

definition struct_members :: "ditype option \<Rightarrow> nat \<Rightarrow> (string \<times> ditype option) list option" where
  "struct_members DT n =
     (case DT of
        None \<Rightarrow> Some (map (\<lambda>i. (dec i, None)) [0..<n])
      | Some (DIStruct es) \<Rightarrow>
          (if length es \<noteq> n then None
           else those (map (\<lambda>i. case es ! i of
                  None \<Rightarrow> Some (dec i, None)
                | Some (DIMember nm base) \<Rightarrow> Some (nm, base)
                | _ \<Rightarrow> None) [0..<n]))
      | _ \<Rightarrow> None)"

lemma zip_size [termination_simp]: "(i, T) \<in> set (zip xs ts) \<Longrightarrow> size T < Suc (size_list size ts)"
  by (drule set_zip_rightD) (simp add: less_Suc_eq_le size_list_estimation')

fun emitGlobalType :: "llvm_api \<Rightarrow> ltype \<Rightarrow> ditype option \<Rightarrow> nat \<Rightarrow> string option" where
  "emitGlobalType L (ArrayTy n ET) DT idx =
     require (ucast (type_size L (ArrayTy n ET)) = getTypeAllocSize L ET * of_nat n)
       (case array_base (stripDITypedef DT) idx of
          None \<Rightarrow> None
        | Some (DT', idx') \<Rightarrow> cat [Some (''(marray '' @ dec n @ '' ''), emitGlobalType L ET DT' idx', Some '')''])"
| "emitGlobalType L (StructTy nm ts) DT idx =
     (case struct_members (stripDITypedef DT) (length ts) of
        None \<Rightarrow> None
      | Some ms \<Rightarrow>
          cat ([Some (''(mstruct '' @ dec (unat (type_size L (StructTy nm ts))) @ '' (list'')] @
            map (\<lambda>(i, T).
              cat [Some ('' (mfield '' @ [CHR 0x27] @ fst (ms ! i) @ '' '' @
                     dec (unat (getElementOffset L (StructTy nm ts) i)) @ '' ''),
                   emitGlobalType L T (snd (ms ! i)) 0, Some '')'']) (zip [0..<length ts] ts) @
            [Some ''))'']))"
| "emitGlobalType L T DT idx =
     require (case T of IntTy _ \<Rightarrow> True | PointerTy _ \<Rightarrow> True | _ \<Rightarrow> False)
       (Some (''(mcell '' @ dec (unat (type_size L T)) @ '')''))"


definition visitAllocaInst :: "llvm_api \<Rightarrow> string \<Rightarrow> ltype \<Rightarrow> nat \<Rightarrow> string option" where
  "visitAllocaInst L nm T al =
     cat [Some (''(set! '' @ nm @ '' (alloca ''), emitGlobalType L T None 0, Some ('' #:align '' @ dec al @ ''))'')]"

definition emitGlobalVariable :: "global \<Rightarrow> string" where
  "emitGlobalVariable GV = ''\<newline>(define-global '' @ global_ref GV @ '')''"

definition global_entry :: "llvm_api \<Rightarrow> global \<Rightarrow> string option" where
  "global_entry L GV =
     (let name = global_ref GV;
          DT = (case debug_infos GV of [d] \<Rightarrow> d | _ \<Rightarrow> None)
      in require (name \<noteq> [] \<and> hd name = CHR ''@'')
           (cat [Some (''\<newline>  (cons '' @ [CHR 0x27] @ tl name @ '' (lambda () ''),
                 emitGlobalType L (value_type GV) DT 0, Some ''))'']))"

definition emitGlobals :: "llvm_api \<Rightarrow> lmodule \<Rightarrow> string option" where
  "emitGlobals L M =
     cat ([Some ''(require serval/core)\<newline>\<newline>(define globals (make-hash (list''] @
       map (global_entry L) (getGlobalList M) @ [Some '')))\<newline>''])"

text \<open>
  The fake symbol table: \<open>size\<close> and \<open>align\<close> are \<open>unsigned\<close>, addresses \<open>uintptr_t\<close>. \<open>getName\<close> of a
  global variable is its printed name without the \<open>@\<close>.
\<close>

definition symbol_size :: "llvm_api \<Rightarrow> global \<Rightarrow> u32" where
  "symbol_size L GV = ucast (getTypeAllocSize L (value_type GV))"

definition symbol_line :: "llvm_api \<Rightarrow> u64 \<Rightarrow> u32 \<Rightarrow> global \<Rightarrow> string" where
  "symbol_line L addr sz GV =
     hex_text L addr 16 @ '' '' @ hex_text L (ucast sz) 16 @ '' B '' @ tl (global_ref GV) @ ''\<newline>''"

fun emitSymbols_loop :: "llvm_api \<Rightarrow> u64 \<Rightarrow> global list \<Rightarrow> string" where
  "emitSymbols_loop L addr [] = []"
| "emitSymbols_loop L addr (GV # gs) =
     (let sz = symbol_size L GV;
          a = alignTo L addr (ucast (getPreferredAlignment L GV))
      in symbol_line L a sz GV @ emitSymbols_loop L (a + ucast sz) gs)"

definition emitSymbols :: "llvm_api \<Rightarrow> lmodule \<Rightarrow> string" where
  "emitSymbols L M = emitSymbols_loop L 0x80000000 (getGlobalList M)"

section \<open>Functions and modules\<close>

definition visit :: "nat \<Rightarrow> llvm_api \<Rightarrow> linstr \<Rightarrow> string option" where
  "visit n L I =
     (case I of
        Instruction nm t e \<Rightarrow> visitInstruction L nm e
      | PHINode nm t ins \<Rightarrow> visitPHINode L nm ins
      | BranchInst t l \<Rightarrow> visitBranchInst l
      | CondBranchInst t v l1 l2 \<Rightarrow> visitCondBranchInst L v l1 l2
      | CallInst nm t cf args \<Rightarrow> visitCallInst n L nm cf args
      | DbgInfoIntrinsic t \<Rightarrow> Some []
      | AllocaInst nm t T al \<Rightarrow> visitAllocaInst L nm T al
      | SwitchInst t v d cs \<Rightarrow> visitSwitchInst L v d cs)"

fun instr_text :: "linstr \<Rightarrow> string" where
  "instr_text (Instruction nm t e) = t"
| "instr_text (PHINode nm t ins) = t"
| "instr_text (BranchInst t l) = t"
| "instr_text (CondBranchInst t v l1 l2) = t"
| "instr_text (CallInst nm t cf args) = t"
| "instr_text (DbgInfoIntrinsic t) = t"
| "instr_text (AllocaInst nm t T al) = t"
| "instr_text (SwitchInst t v d cs) = t"

text \<open>The name an instruction defines, if its type is not \<open>void\<close>.\<close>

fun instr_name :: "linstr \<Rightarrow> string option" where
  "instr_name (Instruction nm t e) = nm"
| "instr_name (PHINode nm t ins) = Some nm"
| "instr_name (CallInst nm t cf args) = nm"
| "instr_name (AllocaInst nm t T al) = Some nm"
| "instr_name _ = None"

fun split_lines :: "string \<Rightarrow> string list" where
  "split_lines [] = [[]]"
| "split_lines (c # s) =
     (if c = CHR ''\<newline>'' then [] # split_lines s
      else case split_lines s of [] \<Rightarrow> [[c]] | l # ls \<Rightarrow> (c # l) # ls)"

primrec comments :: "string list \<Rightarrow> string" where
  "comments [] = []"
| "comments (line # ls) = ''\<newline>; '' @ line @ comments ls"

definition emitInstruction :: "nat \<Rightarrow> llvm_api \<Rightarrow> linstr \<Rightarrow> string option" where
  "emitInstruction n L I =
     (case I of
        DbgInfoIntrinsic t \<Rightarrow> Some []
      | _ \<Rightarrow>
          cat [Some (comments (split_lines (instr_text I))), Some ''\<newline>    '', visit n L I])"

definition left_justify :: "string \<Rightarrow> nat \<Rightarrow> string" where
  "left_justify s w = s @ replicate (w - length s) (CHR '' '')"

definition merge_label :: "llvm_api \<Rightarrow> lfunction \<Rightarrow> basic_block \<Rightarrow> string" where
  "merge_label L F BB =
     (if instrs BB = [] then ''#f''
      else case last (instrs BB) of
             CondBranchInst t v l1 l2 \<Rightarrow>
               (case findNearestCommonDominator L F l1 l2 of None \<Rightarrow> ''#f'' | Some l \<Rightarrow> l)
           | _ \<Rightarrow> ''#f'')"

definition emitBasicBlock :: "nat \<Rightarrow> llvm_api \<Rightarrow> lfunction \<Rightarrow> basic_block \<Rightarrow> string option" where
  "emitBasicBlock n L F BB =
     cat ([Some (''\<newline>'' @ left_justify (''; '' @ block_name BB) 50 @ ''; preds =''),
           Some (concat (map (\<lambda>p. '' '' @ p) (predecessors BB))),
           Some (''\<newline>  (define-label ('' @ block_name BB @ '') #:merge '' @ merge_label L F BB)] @
          map (emitInstruction n L) (instrs BB) @ [Some '')\<newline>''])"

definition ValueVisitor :: "lfunction \<Rightarrow> string" where
  "ValueVisitor F =
     concat (map (\<lambda>I. case instr_name I of None \<Rightarrow> [] | Some nm \<Rightarrow> ''\<newline>  (define-value '' @ nm @ '')'')
       (concat (map instrs (blocks F))))"

definition emitFunction :: "nat \<Rightarrow> llvm_api \<Rightarrow> lfunction \<Rightarrow> string option" where
  "emitFunction n L F =
     (if external F \<and>
         (isBuiltinFunction (fun_name F) \<or> isDbgFunction F \<or> isUBSanFunction (fun_name F) \<or>
          isAssertFunction (fun_name F))
      then Some []
      else
        cat ([Some (''\<newline>; @'' @ fun_name F @ '': '' @ fun_type F @ ''\<newline>(define-function (@'' @ fun_name F)] @
          map (\<lambda>(a, T). cat [Some ('' ['' @ a @ '' : ''), getType L T, Some '']'']) (fun_args F) @
          [Some '')''] @
          (if blocks F = [] then [Some '' (unreachable))\<newline>'']
           else map (emitBasicBlock n L F) (blocks F) @
                [Some (''\<newline>; entry'' @ ValueVisitor F @ ''\<newline>  (enter! '' @ block_name (hd (blocks F)) @ ''))\<newline>'')])))"

definition emitPrelude :: string where
  "emitPrelude = ''; DO NOT MODIFY.\<newline>;\<newline>; This file was automatically generated.\<newline>\<newline>#lang rosette\<newline>\<newline>(provide (all-defined-out))\<newline>\<newline>''"

definition emitModule :: "nat \<Rightarrow> llvm_api \<Rightarrow> lmodule \<Rightarrow> string option" where
  "emitModule n L M =
     cat ([Some (''(require serval/lib/core\<newline>         serval/llvm\<newline>         serval/ubsan)\<newline>\<newline>(target-endian '' @
             [CHR 0x27] @ (if big_endian M then ''big'' else ''little'') @ '')\<newline>(target-pointer-bitwidth '' @
             dec (pointer_bits M) @ '')\<newline>'')] @
          map (Some \<circ> emitGlobalVariable) (getGlobalList M) @
          [Some (if getGlobalList M \<noteq> [] then ''\<newline>'' else [])] @
          map (emitFunction n L) (getFunctionList M) @ [Some ''\<newline>''])"

end
