(* ===== verification/Racket_Text.thy ===== *)
theory Racket_Text
  imports Rosette_Emitter
begin

text \<open>
  How Racket's reader sees the emitted text: comments to the end of the line, strings with escapes, and
  two kinds of brackets that have to match. A text is balanced when the reader passes over it without an
  error and ends in the state it started in.
\<close>

section \<open>The reader\<close>

datatype rmode = Code | Comment | Str | Esc

type_synonym rstate = "rmode \<times> char list"

fun lex1 :: "char \<Rightarrow> rstate \<Rightarrow> rstate option" where
  "lex1 c (Code, stk) =
     (if c = CHR ''('' \<or> c = CHR ''['' then Some (Code, c # stk)
      else if c = CHR '')'' then (case stk of d # r \<Rightarrow> if d = CHR ''('' then Some (Code, r) else None | [] \<Rightarrow> None)
      else if c = CHR '']'' then (case stk of d # r \<Rightarrow> if d = CHR ''['' then Some (Code, r) else None | [] \<Rightarrow> None)
      else if c = CHR 0x22 then Some (Str, stk)
      else if c = CHR '';'' then Some (Comment, stk)
      else Some (Code, stk))"
| "lex1 c (Comment, stk) = Some (if c = CHR ''\<newline>'' then Code else Comment, stk)"
| "lex1 c (Str, stk) = Some (if c = CHR 0x22 then Code else if c = CHR 0x5C then Esc else Str, stk)"
| "lex1 c (Esc, stk) = Some (Str, stk)"

fun lexs :: "string \<Rightarrow> rstate \<Rightarrow> rstate option" where
  "lexs [] st = Some st"
| "lexs (c # s) st = Option.bind (lex1 c st) (lexs s)"

lemma lexs_append: "lexs (s @ t) st = Option.bind (lexs s st) (lexs t)"
proof (induction s arbitrary: st)
  case (Cons c s)
  then show ?case by (cases "lex1 c st") simp_all
qed simp

lemma lex1_stack: "lex1 c (m, a) = Some (m', b) \<Longrightarrow> lex1 c (m, a @ stk) = Some (m', b @ stk)"
  by (cases m) (auto split: if_splits list.splits)

lemma lexs_stack: "lexs s (m, a) = Some (m', b) \<Longrightarrow> lexs s (m, a @ stk) = Some (m', b @ stk)"
proof (induction s arbitrary: m a)
  case (Cons c s)
  then obtain m1 a1 where "lex1 c (m, a) = Some (m1, a1)" and "lexs s (m1, a1) = Some (m', b)"
    by (auto simp: bind_eq_Some_conv)
  then show ?case using Cons.IH lex1_stack by fastforce
qed simp

section \<open>Balanced texts\<close>

definition balanced :: "string \<Rightarrow> bool" where
  "balanced s \<longleftrightarrow> lexs s (Code, []) = Some (Code, [])"

lemma lexs_balanced [simp]: "balanced s \<Longrightarrow> lexs s (Code, stk) = Some (Code, stk)"
  using lexs_stack [of s Code "[]" Code "[]" stk] by (simp add: balanced_def)

lemma balanced_Nil [simp]: "balanced []"
  by (simp add: balanced_def)

lemma balanced_append [simp]: "balanced s \<Longrightarrow> balanced t \<Longrightarrow> balanced (s @ t)"
  unfolding balanced_def [of "s @ t"] by (simp add: lexs_append)

lemma balanced_concat: "\<forall>s \<in> set ss. balanced s \<Longrightarrow> balanced (concat ss)"
  by (induction ss) simp_all

definition special :: "char \<Rightarrow> bool" where
  "special c \<longleftrightarrow> c \<in> {CHR ''('', CHR '')'', CHR ''['', CHR '']'', CHR 0x22, CHR '';''}"

lemma balanced_Cons [simp]: "\<not> special c \<Longrightarrow> balanced (c # s) \<longleftrightarrow> balanced s"
  by (simp add: balanced_def special_def)

lemma balanced_plain: "list_all (\<lambda>c. \<not> special c) s \<Longrightarrow> balanced s"
  by (induction s) simp_all

lemma balanced_paren: "balanced s \<Longrightarrow> balanced (CHR ''('' # s @ '')'')"
  unfolding balanced_def [of "CHR ''('' # s @ '')''"] by (simp add: lexs_append)

lemma balanced_bracket: "balanced s \<Longrightarrow> balanced (CHR ''['' # s @ '']'')"
  unfolding balanced_def [of "CHR ''['' # s @ '']''"] by (simp add: lexs_append)

definition no_quote :: "string \<Rightarrow> bool" where
  "no_quote s \<longleftrightarrow> list_all (\<lambda>c. c \<noteq> CHR 0x22 \<and> c \<noteq> CHR 0x5C) s"

lemma lexs_no_quote: "no_quote s \<Longrightarrow> lexs s (Str, stk) = Some (Str, stk)"
  by (induction s) (simp_all add: no_quote_def)

lemma balanced_string: "no_quote s \<Longrightarrow> balanced (CHR 0x22 # s @ [CHR 0x22])"
  unfolding balanced_def by (simp add: lexs_append lexs_no_quote)

definition one_line :: "string \<Rightarrow> bool" where
  "one_line s \<longleftrightarrow> CHR ''\<newline>'' \<notin> set s"

lemma lexs_comment: "one_line s \<Longrightarrow> lexs s (Comment, stk) = Some (Comment, stk)"
  by (induction s) (auto simp: one_line_def)

lemma balanced_comment: "one_line s \<Longrightarrow> balanced (CHR '';'' # s @ ''\<newline>'')"
  unfolding balanced_def by (simp add: lexs_append lexs_comment)

text \<open>A line of text that can stand in code as well as in a comment.\<close>

definition ok_text :: "string \<Rightarrow> bool" where
  "ok_text s \<longleftrightarrow> balanced s \<and> one_line s"

section \<open>Texts that may fail\<close>

definition good :: "string option \<Rightarrow> bool" where
  "good x \<longleftrightarrow> (case x of None \<Rightarrow> False | Some s \<Rightarrow> balanced s)"

lemma good_simps [simp]: "good (Some s) \<longleftrightarrow> balanced s" "\<not> good None"
  by (simp_all add: good_def)

lemma good_iff: "good x \<longleftrightarrow> (\<exists>s. x = Some s \<and> balanced s)"
  by (cases x) simp_all

lemma good_cat: "\<forall>x \<in> set xs. good x \<Longrightarrow> good (cat xs)"
  by (induction xs) (auto simp: good_iff)

lemma good_spaced: "\<forall>x \<in> set xs. good x \<Longrightarrow> good (cat (spaced xs))"
  by (rule good_cat) (auto simp: spaced_def special_def)

text \<open>The shape most methods print: a head after an opening bracket, some parts, and a closing bracket.\<close>

lemma good_paren:
  assumes "balanced h" and "good (cat xs)"
  shows "good (cat (Some (CHR ''('' # h) # xs @ [Some '')'']))"
proof -
  obtain s where "cat xs = Some s" "balanced s" using assms(2) by (auto simp: good_iff)
  then show ?thesis using assms(1) balanced_paren [of "h @ s"] by (simp add: cat_append)
qed

lemma good_bracket:
  assumes "balanced h" and "good (cat xs)" and "balanced t"
  shows "good (cat (Some ('' ['' @ h) # xs @ [Some (t @ '']'')]))"
proof -
  obtain s where "cat xs = Some s" "balanced s" using assms(2) by (auto simp: good_iff)
  then show ?thesis
    using assms(1,3) balanced_bracket [of "h @ s @ t"] by (simp add: cat_append special_def)
qed

lemma dec_digits: "list_all (\<lambda>c. c \<in> set ''0123456789'') (dec n)"
proof (induction n rule: dec.induct)
  case (1 n)
  have d: "''0123456789'' ! k \<in> set ''0123456789''" if "k < 10" for k
    using that by (intro nth_mem) simp
  show ?case
    using 1 d [of n] d [of "n mod 10"] by (subst dec.simps) (simp del: set_simps list.set)
qed

lemma dec_digit_not_special: "c \<in> set ''0123456789'' \<Longrightarrow> \<not> special c"
  by (auto simp: special_def)

lemma balanced_dec [simp]: "balanced (dec n)"
  using dec_digits [of n] by (intro balanced_plain) (auto simp: list_all_iff dec_digit_not_special)

end
