(* ===== verification/Emitter_Blocks.thy ===== *)
theory Emitter_Blocks
  imports Racket_Text
begin

text \<open>
  Global variables as the solver sees them. \<open>emitGlobalType\<close> prints a tree of memory blocks, the
  \<open>mcell\<close>, \<open>marray\<close> and \<open>mstruct\<close> of Serval; here that tree is computed without text, the printed
  text is shown to be its text, and on a target that lays out types as LLVM promises, the tree covers the
  variable without overlap.
\<close>

section \<open>Memory blocks\<close>

datatype mblock =
    Mcell nat
  | Marray nat mblock
  | Mstruct nat "(string \<times> nat \<times> mblock) list"

fun print_mblock :: "mblock \<Rightarrow> string" where
  "print_mblock (Mcell n) = ''(mcell '' @ dec n @ '')''"
| "print_mblock (Marray n b) = ''(marray '' @ dec n @ '' '' @ print_mblock b @ '')''"
| "print_mblock (Mstruct n fs) =
     ''(mstruct '' @ dec n @ '' (list'' @
     concat (map (\<lambda>(nm, off, b). '' (mfield '' @ [CHR 0x27] @ nm @ '' '' @ dec off @ '' '' @ print_mblock b @ '')'') fs) @
     ''))''"

text \<open>The block of a type: array elements take the debugging type of the elements, members theirs.\<close>

fun block_of :: "llvm_api \<Rightarrow> ltype \<Rightarrow> ditype option \<Rightarrow> nat \<Rightarrow> mblock option" where
  "block_of L (ArrayTy n ET) DT idx =
     (if ucast (type_size L (ArrayTy n ET)) = getTypeAllocSize L ET * of_nat n
      then Option.bind (array_base (stripDITypedef DT) idx) (\<lambda>(DT', idx'). map_option (Marray n) (block_of L ET DT' idx'))
      else None)"
| "block_of L (StructTy nm ts) DT idx =
     Option.bind (struct_members (stripDITypedef DT) (length ts)) (\<lambda>ms.
       map_option (Mstruct (unat (type_size L (StructTy nm ts))))
         (those (map (\<lambda>(i, T). map_option (\<lambda>b. (fst (ms ! i), unat (getElementOffset L (StructTy nm ts) i), b))
            (block_of L T (snd (ms ! i)) 0)) (zip [0..<length ts] ts))))"
| "block_of L T DT idx =
     (case T of IntTy _ \<Rightarrow> Some (Mcell (unat (type_size L T))) | PointerTy _ \<Rightarrow> Some (Mcell (unat (type_size L T)))
      | _ \<Rightarrow> None)"

lemma those_None: "None \<in> set xs \<Longrightarrow> those xs = None"
  by (induction xs) (auto split: option.split)

lemma cat_those: "cat (map (map_option f) xs) = map_option (\<lambda>ys. concat (map f ys)) (those xs)"
  by (induction xs) (auto split: option.split simp: option.map_comp comp_def)

lemma emitGlobalType_block: "emitGlobalType L T DT idx = map_option print_mblock (block_of L T DT idx)"
proof (induction L T DT idx rule: emitGlobalType.induct)
  case (1 L n ET DT idx)
  then show ?case
    by (auto simp: require_def split: option.split)
next
  case (2 L nm ts DT idx)
  show ?case
  proof (cases "struct_members (stripDITypedef DT) (length ts)")
    case (Some ms)
    let ?pr = "\<lambda>(nm, off, b). '' (mfield '' @ [CHR 0x27] @ nm @ '' '' @ dec off @ '' '' @ print_mblock b @ '')''"
    let ?bl = "\<lambda>(i, T). map_option (\<lambda>b. (fst (ms ! i), unat (getElementOffset L (StructTy nm ts) i), b))
            (block_of L T (snd (ms ! i)) 0)"
    have "map (\<lambda>(i, T). cat [Some ('' (mfield '' @ [CHR 0x27] @ fst (ms ! i) @ '' '' @
        dec (unat (getElementOffset L (StructTy nm ts) i)) @ '' ''), emitGlobalType L T (snd (ms ! i)) 0, Some '')''])
        (zip [0..<length ts] ts) = map (map_option ?pr) (map ?bl (zip [0..<length ts] ts))"
      using 2 [OF Some] by (auto simp: option.map_comp comp_def split: option.split)
    then have "cat (map (\<lambda>(i, T). cat [Some ('' (mfield '' @ [CHR 0x27] @ fst (ms ! i) @ '' '' @
        dec (unat (getElementOffset L (StructTy nm ts) i)) @ '' ''), emitGlobalType L T (snd (ms ! i)) 0, Some '')''])
        (zip [0..<length ts] ts)) =
        map_option (\<lambda>ys. concat (map ?pr ys)) (those (map ?bl (zip [0..<length ts] ts)))"
      by (simp only: cat_those)
    with Some show ?thesis
      by (simp add: cat_append option.map_comp comp_def split: option.split)
  qed simp
qed (simp_all add: require_def)


section \<open>Layout\<close>

primrec mblock_size :: "mblock \<Rightarrow> nat" where
  "mblock_size (Mcell n) = n"
| "mblock_size (Marray n b) = n * mblock_size b"
| "mblock_size (Mstruct n fs) = n"

text \<open>Fields lie one after the other between \<open>lo\<close> and \<open>hi\<close>.\<close>

fun fields_fit :: "nat \<Rightarrow> nat \<Rightarrow> (nat \<times> nat) list \<Rightarrow> bool" where
  "fields_fit lo hi [] \<longleftrightarrow> lo \<le> hi"
| "fields_fit lo hi ((off, sz) # fs) \<longleftrightarrow> lo \<le> off \<and> fields_fit (off + sz) hi fs"

fun wf_block :: "mblock \<Rightarrow> bool" where
  "wf_block (Mcell n) \<longleftrightarrow> True"
| "wf_block (Marray n b) \<longleftrightarrow> wf_block b"
| "wf_block (Mstruct n fs) \<longleftrightarrow>
     fields_fit 0 n (map (\<lambda>(nm, off, b). (off, mblock_size b)) fs) \<and> (\<forall>(nm, off, b) \<in> set fs. wf_block b)"

text \<open>
  What LLVM promises of a target's layout, for a type and its parts: an array is its elements side by
  side, the members of a struct follow one another, and here everything is smaller than four gigabytes.
\<close>

fun laid_out :: "llvm_api \<Rightarrow> ltype \<Rightarrow> bool" where
  "laid_out L (ArrayTy n T) \<longleftrightarrow>
     laid_out L T \<and> unat (getTypeAllocSize L (ArrayTy n T)) = n * unat (getTypeAllocSize L T) \<and>
     n * unat (getTypeAllocSize L T) < 2 ^ 32 \<and> n < 2 ^ 64"
| "laid_out L (StructTy nm ts) \<longleftrightarrow>
     list_all (laid_out L) ts \<and> unat (getTypeAllocSize L (StructTy nm ts)) < 2 ^ 32 \<and>
     fields_fit 0 (unat (getTypeAllocSize L (StructTy nm ts)))
       (map (\<lambda>(i, T). (unat (getElementOffset L (StructTy nm ts) i), unat (getTypeAllocSize L T)))
          (zip [0..<length ts] ts))"
| "laid_out L T \<longleftrightarrow> unat (getTypeAllocSize L T) < 2 ^ 32"

fun memory_type :: "ltype \<Rightarrow> bool" where
  "memory_type (IntTy w) \<longleftrightarrow> True"
| "memory_type (PointerTy T) \<longleftrightarrow> True"
| "memory_type (ArrayTy n T) \<longleftrightarrow> memory_type T"
| "memory_type (StructTy nm ts) \<longleftrightarrow> list_all memory_type ts"
| "memory_type _ \<longleftrightarrow> False"

lemma unat_ucast_32_64: "unat (ucast (x :: u32) :: u64) = unat x"
proof -
  have "unat x < 2 ^ 32" using unsigned_less [of x] by simp
  then show ?thesis by (simp add: unsigned_ucast_eq take_bit_eq_mod)
qed

lemma type_size_small: "unat (getTypeAllocSize L T) < 2 ^ 32 \<Longrightarrow> unat (type_size L T) = unat (getTypeAllocSize L T)"
  by (simp add: type_size_def unsigned_ucast_eq take_bit_eq_mod)

lemma those_Some: "those xs = Some ys \<longleftrightarrow> xs = map Some ys"
  by (induction xs arbitrary: ys) (auto split: option.splits)

lemma block_layout:
  assumes "block_of L T DT idx = Some b" and "laid_out L T"
  shows "mblock_size b = unat (getTypeAllocSize L T) \<and> wf_block b"
  using assms
proof (induction L T DT idx arbitrary: b rule: block_of.induct)
  case (1 L n ET DT idx)
  then show ?case by (fastforce simp: bind_eq_Some_conv split: if_splits)
next
  case (2 L nm ts DT idx)
  let ?S = "StructTy nm ts"
  obtain ms fs where ms: "struct_members (stripDITypedef DT) (length ts) = Some ms"
    and fs: "map (\<lambda>(i, T). map_option (\<lambda>b. (fst (ms ! i), unat (getElementOffset L ?S i), b))
            (block_of L T (snd (ms ! i)) 0)) (zip [0..<length ts] ts) = map Some fs"
    and b: "b = Mstruct (unat (type_size L ?S)) fs"
    using "2.prems"(1) by (auto simp: bind_eq_Some_conv those_Some)
  have len: "length fs = length ts" using arg_cong [OF fs, of length] by simp
  have nth: "\<exists>c. fs ! i = (fst (ms ! i), unat (getElementOffset L ?S i), c) \<and>
      mblock_size c = unat (getTypeAllocSize L (ts ! i)) \<and> wf_block c" if i: "i < length ts" for i
  proof -
    have "map_option (\<lambda>b. (fst (ms ! i), unat (getElementOffset L ?S i), b)) (block_of L (ts ! i) (snd (ms ! i)) 0) = Some (fs ! i)"
      using arg_cong [OF fs, of "\<lambda>xs. xs ! i"] i len by simp
    then obtain c where c: "block_of L (ts ! i) (snd (ms ! i)) 0 = Some c"
      and e: "fs ! i = (fst (ms ! i), unat (getElementOffset L ?S i), c)" by auto
    have "laid_out L (ts ! i)" using "2.prems"(2) i by (simp add: list_all_length)
    moreover have "(i, ts ! i) \<in> set (zip [0..<length ts] ts)" using i by (auto simp: set_zip intro!: exI [of _ i])
    ultimately show ?thesis using "2.IH" [OF ms _ refl c] e by blast
  qed
  have "map (\<lambda>(nm, off, b). (off, mblock_size b)) fs =
      map (\<lambda>(i, T). (unat (getElementOffset L ?S i), unat (getTypeAllocSize L T))) (zip [0..<length ts] ts)"
  proof (rule nth_equalityI)
    fix i assume "i < length (map (\<lambda>(nm, off, b). (off, mblock_size b)) fs)"
    then show "map (\<lambda>(nm, off, b). (off, mblock_size b)) fs ! i =
      map (\<lambda>(i, T). (unat (getElementOffset L ?S i), unat (getTypeAllocSize L T))) (zip [0..<length ts] ts) ! i"
      using nth [of i] len by auto
  qed (simp add: len)
  moreover have "\<forall>(nm, off, c) \<in> set fs. wf_block c"
    using nth len by (force simp: in_set_conv_nth)
  moreover have "unat (type_size L ?S) = unat (getTypeAllocSize L ?S)"
    using "2.prems"(2) by (intro type_size_small) simp
  ultimately show ?case using "2.prems"(2) b by simp
qed (auto simp: type_size_small split: if_splits)

lemma those_defined: "\<forall>x \<in> set xs. x \<noteq> None \<Longrightarrow> \<exists>ys. those xs = Some ys"
  by (induction xs) auto

lemma array_size:
  assumes "laid_out L (ArrayTy n T)"
  shows "ucast (type_size L (ArrayTy n T)) = getTypeAllocSize L T * of_nat n"
proof -
  have "unat (ucast (type_size L (ArrayTy n T)) :: u64) = unat (type_size L (ArrayTy n T))"
    by (rule unat_ucast_32_64)
  also have "\<dots> = n * unat (getTypeAllocSize L T)"
    using assms by (subst type_size_small) simp_all
  also have "\<dots> = unat (getTypeAllocSize L T * of_nat n)"
    using assms by (simp add: unat_word_ariths unat_of_nat mult.commute)
  finally show ?thesis by (simp only: word_unat_eq_iff)
qed

text \<open>Without debugging information the translation of a memory type never fails.\<close>

lemma block_of_None_defined:
  "memory_type T \<Longrightarrow> laid_out L T \<Longrightarrow> \<exists>b. block_of L T None idx = Some b"
proof (induction T arbitrary: idx)
  case (ArrayTy n T)
  then show ?case using array_size [of L n T] by (fastforce simp: array_base_def)
next
  case (StructTy nm ts)
  have "block_of L T None 0 \<noteq> None" if "T \<in> set ts" for T
    using StructTy that by (fastforce simp: list_all_iff)
  then have "\<exists>fs. those (map (\<lambda>(i, T). map_option (\<lambda>b. (fst (map (\<lambda>i. (dec i, None)) [0..<length ts] ! i),
        unat (getElementOffset L (StructTy nm ts) i), b))
        (block_of L T (snd (map (\<lambda>i. (dec i, None)) [0..<length ts] ! i)) 0)) (zip [0..<length ts] ts)) = Some fs"
    by (intro those_defined) (auto simp: set_zip)
  then show ?case by (auto simp: struct_members_def)
qed simp_all

section \<open>Symbols\<close>

text \<open>The entries of the symbol table: address, size and variable.\<close>

fun symbol_entries :: "llvm_api \<Rightarrow> u64 \<Rightarrow> global list \<Rightarrow> (u64 \<times> u32 \<times> global) list" where
  "symbol_entries L addr [] = []"
| "symbol_entries L addr (GV # gs) =
     (let a = alignTo L addr (ucast (getPreferredAlignment L GV))
      in (a, symbol_size L GV, GV) # symbol_entries L (a + ucast (symbol_size L GV)) gs)"

definition symbol_before :: "u64 \<times> u32 \<times> global \<Rightarrow> u64 \<times> u32 \<times> global \<Rightarrow> bool" where
  "symbol_before x y \<longleftrightarrow> unat (fst x) + unat (fst (snd x)) \<le> unat (fst y)"

lemma symbol_before_iff [simp]: "symbol_before (a, sz, GV) (a', y) \<longleftrightarrow> unat a + unat sz \<le> unat a'"
  by (simp add: symbol_before_def)

lemma symbol_entries_globals: "map (snd \<circ> snd) (symbol_entries L addr gs) = gs"
  by (induction gs arbitrary: addr) (simp_all add: Let_def)

lemma symbol_entries_sizes: "\<forall>(a, sz, GV) \<in> set (symbol_entries L addr gs). sz = symbol_size L GV"
  by (induction gs arbitrary: addr) (simp_all add: Let_def)

lemma emitSymbols_entries:
  "emitSymbols_loop L addr gs = concat (map (\<lambda>(a, sz, GV). symbol_line L a sz GV) (symbol_entries L addr gs))"
  by (induction gs arbitrary: addr) (simp_all add: Let_def)

text \<open>What \<open>alignTo\<close> promises: the next multiple, when it fits in 64 bits.\<close>

definition aligns :: "llvm_api \<Rightarrow> bool" where
  "aligns L \<longleftrightarrow> (\<forall>v al. al \<noteq> 0 \<and> unat v + unat al \<le> 2 ^ 64 \<longrightarrow>
     v \<le> alignTo L v al \<and> unat (alignTo L v al) mod unat al = 0 \<and> unat (alignTo L v al) < unat v + unat al)"

text \<open>The room a table of symbols can take at most.\<close>

definition symbols_room :: "llvm_api \<Rightarrow> global list \<Rightarrow> nat" where
  "symbols_room L gs = sum_list (map (\<lambda>GV. unat (symbol_size L GV) + unat (getPreferredAlignment L GV)) gs)"

lemma symbol_entries_layout:
  assumes "aligns L" and "\<forall>GV \<in> set gs. getPreferredAlignment L GV \<noteq> 0"
    and "unat addr + symbols_room L gs \<le> 2 ^ 64" 
  shows "(\<forall>(a, sz, GV) \<in> set (symbol_entries L addr gs). addr \<le> a \<and> unat a mod unat (getPreferredAlignment L GV) = 0) \<and>
    sorted_wrt symbol_before (symbol_entries L addr gs)"
  using assms(2,3)
proof (induction gs arbitrary: addr)
  case (Cons GV gs)
  let ?al = "getPreferredAlignment L GV" and ?sz = "symbol_size L GV"
  let ?a = "alignTo L addr (ucast ?al)"
  let ?n = "?a + ucast ?sz"
  have room: "unat addr + unat ?sz + unat ?al + symbols_room L gs \<le> 2 ^ 64"
    using Cons.prems(2) by (simp add: symbols_room_def)
  have "?al \<noteq> 0" using Cons.prems(1) by simp
  then have "unat (ucast ?al :: u64) \<noteq> 0" by (simp add: unat_ucast_32_64 unat_eq_zero)
  then have nz: "(ucast ?al :: u64) \<noteq> 0" by auto
  have a: "addr \<le> ?a" "unat ?a mod unat ?al = 0" "unat ?a < unat addr + unat ?al"
    using assms(1) [unfolded aligns_def, rule_format, of "ucast ?al" addr] nz room by (simp_all add: unat_ucast_32_64)
  have n: "unat ?n = unat ?a + unat ?sz"
    using a(3) room by (subst unat_u64_add) (simp_all add: unat_ucast_32_64)
  have IH: "(\<forall>(a, sz, GV) \<in> set (symbol_entries L ?n gs). ?n \<le> a \<and> unat a mod unat (getPreferredAlignment L GV) = 0) \<and>
      sorted_wrt symbol_before (symbol_entries L ?n gs)"
    by (rule Cons.IH) (use Cons.prems(1) n a(3) room in simp_all)
  have le: "?a \<le> ?n" using n by (simp add: word_le_nat_alt)
  show ?case
    using IH a n le by (auto simp: Let_def word_le_nat_alt)
qed simp


section \<open>A target for examples\<close>

text \<open>
  Integers of at most 64 bits and pointers take eight bytes, arrays and structs the sum of their parts:
  a layout with the properties LLVM promises.
\<close>

fun demo_size :: "ltype \<Rightarrow> nat" where
  "demo_size (ArrayTy n T) = n * demo_size T"
| "demo_size (StructTy nm ts) = sum_list (map demo_size ts)"
| "demo_size T = 8"

definition demo_offset :: "ltype \<Rightarrow> nat \<Rightarrow> nat" where
  "demo_offset T i = (case T of StructTy nm ts \<Rightarrow> sum_list (map demo_size (take i ts)) | _ \<Rightarrow> 0)"

definition demo_api :: llvm_api where
  "demo_api = \<lparr>type_text = (\<lambda>_. ''type''), apint_text = (\<lambda>w i. dec (nat i)), hex_text = (\<lambda>x w. dec (unat x)),
     hexdigit = (\<lambda>x. ''0123456789ABCDEF'' ! (unat x mod 16)), isCast = (\<lambda>op. op \<in> {''zext'', ''trunc'', ''bitcast''}),
     getTypeAllocSize = (\<lambda>T. of_nat (demo_size T)), getPreferredAlignment = (\<lambda>_. 8),
     alignTo = (\<lambda>v al. of_nat ((unat v + unat al - 1) div unat al * unat al)),
     getElementOffset = (\<lambda>T i. of_nat (demo_offset T i)), findNearestCommonDominator = (\<lambda>F a b. None),
     stripPointerCasts = (\<lambda>v. v)\<rparr>"

text \<open>\<open>struct Page\<close> with two members, and an array of three of them.\<close>

definition demo_pages :: global where
  "demo_pages = \<lparr>global_ref = ''@pages'', value_type = ArrayTy 3 (StructTy (Some ''struct.Page'') [IntTy 64, IntTy 64]),
     debug_infos = [Some (DIArray (Some (DITypedef (Some (DIStruct [Some (DIMember ''flags'' (Some DIOther)),
       Some (DIMember ''property'' (Some DIOther))])))) 1)]\<rparr>"

definition demo_ticks :: global where
  "demo_ticks = \<lparr>global_ref = ''@ticks'', value_type = IntTy 64, debug_infos = []\<rparr>"

lemma demo_aligns: "aligns demo_api"
  unfolding aligns_def
proof (intro allI impI)
  fix v al :: u64 assume h: "al \<noteq> 0 \<and> unat v + unat al \<le> 2 ^ 64"
  let ?q = "(unat v + unat al - 1) div unat al" and ?k = "unat al"
  have k: "0 < ?k" using h by (simp add: unat_gt_0)
  have up: "?q * ?k \<le> unat v + ?k - 1" by (rule div_times_less_eq_dividend)
  then have up': "?q * ?k < unat v + ?k" using k by linarith
  have "unat v + ?k - 1 < ?q * ?k + ?k" using k dividend_less_div_times [of ?k "unat v + ?k - 1"] by simp
  then have lo: "unat v \<le> ?q * ?k" by linarith
  have "unat (of_nat (?q * ?k) :: u64) = ?q * ?k"
    using up h k by (intro unat_of_nat_u64) linarith
  then have "unat (alignTo demo_api v al) = ?q * ?k" by (simp add: demo_api_def)
  then show "v \<le> alignTo demo_api v al \<and> unat (alignTo demo_api v al) mod ?k = 0 \<and> unat (alignTo demo_api v al) < unat v + ?k"
    using lo up' by (simp add: word_le_nat_alt)
qed

section \<open>Properties\<close>

text \<open>
  C15. Global variables are described faithfully: for a type made of integers, pointers, arrays and
  structs on a target that lays it out as LLVM promises, \<open>emitGlobalType\<close> without debugging information
  never fails, and whatever debugging information it succeeds with, the text it prints is that of a tree of
  memory blocks whose size is the size of the type and in which the fields of every struct follow one
  another inside the struct.
\<close>

theorem global_type_blocks:
  assumes "laid_out L T" and "memory_type T"
  shows "emitGlobalType L T None 0 \<noteq> None \<and>
    (\<forall>DT idx s. emitGlobalType L T DT idx = Some s \<longrightarrow>
       (\<exists>b. s = print_mblock b \<and> block_of L T DT idx = Some b \<and>
            mblock_size b = unat (getTypeAllocSize L T) \<and> wf_block b))"
  using block_of_None_defined [OF assms(2,1), of 0] block_layout assms(1) by (auto simp: emitGlobalType_block)

theorem global_type_blocks_witness:
  "emitGlobalType demo_api (value_type demo_pages) (hd (debug_infos demo_pages)) 0 =
     Some ''(marray 3 (mstruct 16 (list (mfield 'flags 0 (mcell 8)) (mfield 'property 8 (mcell 8)))))'' \<and>
   emitGlobalType demo_api (value_type demo_pages) None 0 \<noteq> None"
proof -
  have h: "laid_out demo_api (value_type demo_pages)" "memory_type (value_type demo_pages)"
    by (simp_all add: demo_pages_def demo_api_def demo_offset_def)
  show ?thesis
    using global_type_blocks [OF h]
    by (simp add: demo_pages_def demo_api_def demo_offset_def type_size_def dec.simps array_base_def
        struct_members_def require_def)
qed

text \<open>
  C17. The fake symbol table is a layout: when \<open>alignTo\<close> keeps its promise, alignments are not zero and
  the variables fit below the end of the address space, \<open>emitSymbols\<close> prints one line per variable, in
  order, with addresses from \<open>0x80000000\<close> on that respect the variables' alignments, and no
  two variables overlap.
\<close>

theorem symbols_disjoint:
  assumes "aligns L" and "\<forall>GV \<in> set (getGlobalList M). getPreferredAlignment L GV \<noteq> 0"
    and "0x80000000 + symbols_room L (getGlobalList M) \<le> 2 ^ 64"
  shows "\<exists>es. emitSymbols L M = concat (map (\<lambda>(a, sz, GV). symbol_line L a sz GV) es) \<and>
    map (snd \<circ> snd) es = getGlobalList M \<and>
    (\<forall>(a, sz, GV) \<in> set es. 0x80000000 \<le> a \<and> unat a mod unat (getPreferredAlignment L GV) = 0 \<and> sz = symbol_size L GV) \<and>
    sorted_wrt symbol_before es"
proof (intro exI conjI)
  let ?es = "symbol_entries L 0x80000000 (getGlobalList M)"
  show "emitSymbols L M = concat (map (\<lambda>(a, sz, GV). symbol_line L a sz GV) ?es)"
    by (simp only: emitSymbols_def emitSymbols_entries)
  have lay: "(\<forall>(a, sz, GV) \<in> set ?es. 0x80000000 \<le> a \<and> unat a mod unat (getPreferredAlignment L GV) = 0) \<and>
      sorted_wrt symbol_before ?es"
    by (rule symbol_entries_layout [OF assms(1,2)]) (use assms(3) in simp)
  then show "\<forall>(a, sz, GV) \<in> set ?es. 0x80000000 \<le> a \<and> unat a mod unat (getPreferredAlignment L GV) = 0 \<and> sz = symbol_size L GV"
    using symbol_entries_sizes [of L "0x80000000" "getGlobalList M"] by fastforce
  show "sorted_wrt symbol_before ?es" using lay by blast
qed (rule symbol_entries_globals)

theorem symbols_disjoint_witness:
  "\<exists>es. emitSymbols demo_api \<lparr>big_endian = False, pointer_bits = 64, getGlobalList = [demo_ticks, demo_pages], getFunctionList = []\<rparr>
     = concat (map (\<lambda>(a, sz, GV). symbol_line demo_api a sz GV) es) \<and> length es = 2 \<and> sorted_wrt symbol_before es"
proof -
  let ?M = "\<lparr>big_endian = False, pointer_bits = 64, getGlobalList = [demo_ticks, demo_pages], getFunctionList = []\<rparr>"
  have h: "\<forall>GV \<in> set (getGlobalList ?M). getPreferredAlignment demo_api GV \<noteq> 0"
    "0x80000000 + symbols_room demo_api (getGlobalList ?M) \<le> 2 ^ 64"
    by (simp_all add: demo_api_def symbols_room_def symbol_size_def demo_ticks_def demo_pages_def)
  obtain es where es: "emitSymbols demo_api ?M = concat (map (\<lambda>(a, sz, GV). symbol_line demo_api a sz GV) es)"
    "map (snd \<circ> snd) es = getGlobalList ?M" "sorted_wrt symbol_before es"
    using symbols_disjoint [OF demo_aligns h] by blast
  moreover have "length es = 2" using arg_cong [OF es(2), of length] by simp
  ultimately show ?thesis by blast
qed

end
