(* ===== verification/Emitter_Text.thy ===== *)
theory Emitter_Text
  imports Emitter_Blocks
begin

text \<open>
  What the emitted text is to Racket's reader: byte strings are read back, lifting of initialisers ends,
  and the translation of a module is a sequence of complete expressions in which every assigned value is
  declared.
\<close>

section \<open>Byte strings\<close>

text \<open>Racket's syntax of byte strings, after the opening quote: plain characters and \<open>\xHH\<close>.\<close>

definition hex_value :: "char \<Rightarrow> nat option" where
  "hex_value c = (case filter (\<lambda>i. ''0123456789ABCDEF'' ! i = c) [0..<16] of [] \<Rightarrow> None | i # _ \<Rightarrow> Some i)"

fun read_racket_body :: "string \<Rightarrow> (u8 list \<times> string) option" where
  "read_racket_body [] = None"
| "read_racket_body (c # r) =
     (if c = CHR 0x22 then Some ([], r)
      else if c = CHR 0x5C then
        (case r of
           CHR ''x'' # h # l # r' \<Rightarrow>
             (case (hex_value h, hex_value l, read_racket_body r') of
                (Some i, Some j, Some (bs, rest)) \<Rightarrow> Some (of_nat (16 * i + j) # bs, rest)
              | _ \<Rightarrow> None)
         | _ \<Rightarrow> None)
      else map_option (\<lambda>(bs, rest). (of_nat (of_char c) # bs, rest)) (read_racket_body r))"

fun read_racket_bytes :: "string \<Rightarrow> (u8 list \<times> string) option" where
  "read_racket_bytes (h # q # r) = (if h = CHR 0x23 \<and> q = CHR 0x22 then read_racket_body r else None)"
| "read_racket_bytes _ = None"

text \<open>What LLVM promises of \<open>hexdigit\<close>: the digit of a number below 16, in upper case.\<close>

definition hex_digits :: "llvm_api \<Rightarrow> bool" where
  "hex_digits L \<longleftrightarrow> list_all (\<lambda>i. hexdigit L (of_nat i) = ''0123456789ABCDEF'' ! i) [0..<16]"

lemma sint_u8: "sint (c :: u8) = (uint c + 128) mod 256 - 128"
proof -
  have "sint c = signed_take_bit 7 (uint c)" by (simp add: sint_uint)
  then show ?thesis by (simp add: signed_take_bit_eq_take_bit_shift take_bit_eq_mod)
qed

lemma mod_256_cases:
  "0 \<le> x \<Longrightarrow> x < 128 \<Longrightarrow> (x + 128) mod 256 = (x + 128 :: int)"
  "128 \<le> x \<Longrightarrow> x < 256 \<Longrightarrow> (x + 128) mod 256 = (x - 128 :: int)"
  using mod_mult_self1 [of "x - 128" 1 256] by (simp_all add: add.commute)

lemma sint_u8_low: "c < 128 \<Longrightarrow> sint (c :: u8) = uint c"
  using mod_256_cases(1) [of "uint c"] by (simp add: sint_u8 word_less_def)

lemma sint_u8_high: "128 \<le> c \<Longrightarrow> sint (c :: u8) = uint c - 256"
proof -
  assume "128 \<le> c"
  moreover have "uint c < 256" using unsigned_less [of c] by simp
  ultimately show ?thesis using mod_256_cases(2) [of "uint c"] by (simp add: sint_u8 word_le_def)
qed

lemma digits_low:
  assumes "c < 128"
  shows "c_div16 c = of_nat (unat c div 16)" "c_mod16 c = of_nat (unat c mod 16)"
proof -
  have c: "sint c = int (unat c)" using sint_u8_low [OF assms] by simp
  have n: "int n div 16 = int (n div 16)" "int n mod 16 = int (n mod 16)" "\<not> int n < 0" for n
    by (simp_all add: zdiv_int zmod_int)
  show "c_div16 c = of_nat (unat c div 16)" "c_mod16 c = of_nat (unat c mod 16)"
    by (simp_all only: c_div16_def c_mod16_def c n if_False of_int_of_nat_eq)
qed

lemma hex_value_digit: "i < 16 \<Longrightarrow> hex_value (''0123456789ABCDEF'' ! i) = Some i"
proof -
  have "list_all (\<lambda>i. hex_value (''0123456789ABCDEF'' ! i) = Some i) [0..<16]"
    by code_simp
  then show "i < 16 \<Longrightarrow> hex_value (''0123456789ABCDEF'' ! i) = Some i" by (simp add: list_all_iff)
qed


lemma unescape_byte:
  assumes L: "hex_digits L" and c: "c < 128"
  shows "read_racket_body ((if isPrint c \<and> c \<noteq> 0x5C \<and> c \<noteq> 0x22 then [char_of (unat c)]
      else [CHR 0x5C, CHR ''x'', hexdigit L (c_div16 c), hexdigit L (c_mod16 c)]) @ r) =
    map_option (\<lambda>(bs, rest). (c # bs, rest)) (read_racket_body r)"
proof (cases "isPrint c \<and> c \<noteq> 0x5C \<and> c \<noteq> 0x22")
  case True
  have u: "unat c < 256" using c by (simp add: word_less_nat_alt)
  then have o: "of_char (char_of (unat c)) = unat c" by (simp add: of_char_of)
  have "char_of (unat c) \<noteq> CHR 0x22" "char_of (unat c) \<noteq> CHR 0x5C"
    using True o by (auto simp: word_unat_eq_iff dest!: arg_cong [where f = "of_char :: char \<Rightarrow> nat"])
  then show ?thesis using True u by simp
next
  case False
  have n: "unat c < 128" using c by (simp add: word_less_nat_alt)
  have h: "hexdigit L (of_nat i) = ''0123456789ABCDEF'' ! i" if "i < 16" for i
    using L that by (simp add: hex_digits_def list_all_iff)
  have "hex_value (hexdigit L (c_div16 c)) = Some (unat c div 16)"
    "hex_value (hexdigit L (c_mod16 c)) = Some (unat c mod 16)"
    using n by (simp_all add: digits_low [OF c] h hex_value_digit)
  then show ?thesis using False by (auto split: option.split)
qed


definition without_terminator :: "u8 list \<Rightarrow> u8 list" where
  "without_terminator S = (if S \<noteq> [] \<and> last S = 0 then butlast S else S)"

lemma unescape:
  assumes L: "hex_digits L" and bs: "\<forall>b \<in> set bs. b < 128"
  shows "read_racket_body (concat (map (\<lambda>c. if isPrint c \<and> c \<noteq> 0x5C \<and> c \<noteq> 0x22 then [char_of (unat c)]
      else [CHR 0x5C, CHR ''x'', hexdigit L (c_div16 c), hexdigit L (c_mod16 c)]) bs) @ CHR 0x22 # r) = Some (bs, r)"
  using bs
proof (induction bs)
  case (Cons b bs)
  then show ?case using unescape_byte [OF L, of b] by (simp only: list.map concat.simps append_assoc) simp
qed simp

lemma escaped_read:
  assumes "hex_digits L" and "\<forall>b \<in> set bs. b < 128"
  shows "read_racket_bytes (printRacketEscaped L bs @ r) = Some (without_terminator bs, r)"
proof -
  have "\<forall>b \<in> set (without_terminator bs). b < 128"
    using assms(2) by (auto simp: without_terminator_def dest: in_set_butlastD)
  from unescape [OF assms(1) this] show ?thesis
    by (simp add: printRacketEscaped_def without_terminator_def [symmetric])
qed

lemma negative_digit: "0 < k \<Longrightarrow> k \<le> 16 \<Longrightarrow> \<not> (of_int (- k) :: u32) < 16"
proof -
  assume "0 < k" "k \<le> 16"
  then have "(- k) mod 2 ^ 32 = 2 ^ 32 - k" by (simp add: zmod_zminus1_eq_if)
  moreover have "uint (of_int (- k) :: u32) = (- k) mod 2 ^ 32" by (simp only: uint_word_of_int) simp
  ultimately have "16 \<le> uint (of_int (- k) :: u32)" using \<open>k \<le> 16\<close> by simp
  then show ?thesis by (simp only: word_less_def) simp
qed

lemma digits_high:
  assumes "128 \<le> (c :: u8)"
  shows "\<not> (c_div16 c < 16 \<and> c_mod16 c < 16)"
proof -
  define d where "d = - sint c"
  have "uint c < 256" using unsigned_less [of c] by simp
  then have d: "0 < d" "d \<le> 128" using sint_u8_high [OF assms] assms by (simp_all add: d_def word_le_def)
  then have "c_div16 c = of_int (- (d div 16))" "c_mod16 c = of_int (- (d mod 16))"
    by (simp_all add: c_div16_def c_mod16_def d_def)
  moreover have "0 < d div 16 \<and> d div 16 \<le> 16 \<or> 0 < d mod 16 \<and> d mod 16 \<le> 16" using d by presburger
  ultimately show ?thesis using negative_digit by metis
qed

section \<open>Operands\<close>

text \<open>
  Conditions on the input under which the text is well formed: what LLVM prints for names and operands is
  itself balanced and on one line, types of values are literal, struct indices are constants.
\<close>

fun ok_type :: "llvm_api \<Rightarrow> ltype \<Rightarrow> bool" where
  "ok_type L (IntTy w) \<longleftrightarrow> True"
| "ok_type L (StructTy nm ts) \<longleftrightarrow> nm = None \<and> list_all (ok_type L) ts"
| "ok_type L (VectorTy n t) \<longleftrightarrow> ok_type L t"
| "ok_type L T \<longleftrightarrow> no_quote (type_text L T)"

fun ok_mem_type :: "llvm_api \<Rightarrow> ltype \<Rightarrow> bool" where
  "ok_mem_type L (PointerTy T) \<longleftrightarrow> True"
| "ok_mem_type L T \<longleftrightarrow> ok_type L T"

fun ok_detail :: "llvm_api \<Rightarrow> detail \<Rightarrow> bool" where
  "ok_detail L (CmpInst p) \<longleftrightarrow> ok_text p"
| "ok_detail L (LoadInst T al) \<longleftrightarrow> ok_mem_type L T"
| "ok_detail L (StoreInst T al) \<longleftrightarrow> ok_mem_type L T"
| "ok_detail L _ \<longleftrightarrow> True"

fun ok_value :: "llvm_api \<Rightarrow> lvalue \<Rightarrow> bool"
and ok_op :: "llvm_api \<Rightarrow> lop \<Rightarrow> bool"
and ok_index :: "llvm_api \<Rightarrow> gep_index \<Rightarrow> bool" where
  "ok_value L (ConstantAggregateZero T) \<longleftrightarrow> ok_type L T"
| "ok_value L (ConstantInt w i) \<longleftrightarrow> ok_text (apint_text L w i)"
| "ok_value L (ConstantExpr e) \<longleftrightarrow> ok_op L e"
| "ok_value L (UndefValue T) \<longleftrightarrow> ok_type L T"
| "ok_value L (ConstantVector vs) \<longleftrightarrow> list_all (ok_value L) vs"
| "ok_value L (ConstantDataVector s) \<longleftrightarrow> True"
| "ok_value L (ConstantDataString s bs) \<longleftrightarrow> ok_text s \<and> list_all (\<lambda>b. b < 128) bs"
| "ok_value L (ConstantAggregate s vs) \<longleftrightarrow> ok_text s \<and> list_all (ok_value L) vs"
| "ok_value L (GlobalVariable s i) \<longleftrightarrow> ok_text s \<and> (case i of None \<Rightarrow> True | Some v \<Rightarrow> ok_value L v)"
| "ok_value L (OtherValue s) \<longleftrightarrow> ok_text s"
| "ok_op L (Operator op vs T d) \<longleftrightarrow>
     ok_text op \<and> list_all (ok_value L) vs \<and>
     (isCast L op \<and> op \<noteq> ''bitcast'' \<and> op \<noteq> ''inttoptr'' \<longrightarrow> ok_type L T) \<and> ok_detail L d"
| "ok_op L (GEPOperator op p is) \<longleftrightarrow> ok_text op \<and> ok_value L p \<and> list_all (ok_index L) is"
| "ok_index L (StructIndex T v) \<longleftrightarrow> (case v of ConstantInt w i \<Rightarrow> True | _ \<Rightarrow> False)"
| "ok_index L (ArrayIndex T v) \<longleftrightarrow> ok_value L v"

lemma ok_text_balanced [simp]: "ok_text s \<Longrightarrow> balanced s"
  by (simp add: ok_text_def)

text \<open>Literal pieces without special characters, split off the head of a text.\<close>

lemmas plain_simps = special_def

lemma good_map_append: "balanced s \<Longrightarrow> good x \<Longrightarrow> good (map_option ((@) s) x)"
  by (auto simp: good_iff)

lemma getType_good: "ok_type L T \<Longrightarrow> good (getType L T)"
proof (induction L T rule: getType.induct)
  case (1 L w)
  then show ?case using balanced_paren [of "''bitvector '' @ dec w"] by (simp add: plain_simps)
next
  case (2 L nm ts)
  then have "good (cat (spaced (map (getType L) ts)))" by (intro good_spaced) (auto simp: list_all_iff)
  then show ?case using good_paren [of "''list''"] 2 by (simp add: plain_simps require_def)
next
  case (3 L n t)
  then have "good (cat [getType L t])" by (auto simp: good_iff)
  then show ?case using good_paren [of "''make-vector '' @ dec n @ '' ''" "[getType L t]"] by (simp add: plain_simps)
qed (simp_all add: balanced_string)


lemma good_parts:
  "balanced h \<Longrightarrow> \<forall>x \<in> set xs. good x \<Longrightarrow> good (cat (Some (CHR ''('' # h) # xs @ [Some '')'']))"
  by (intro good_paren good_cat)

lemma good_closed:
  assumes "balanced h" and "good x" and "balanced t"
  shows "good (cat [Some (CHR ''('' # h), x, Some (t @ '')'')])"
proof -
  obtain s where "x = Some s" "balanced s" using assms(2) by (auto simp: good_iff)
  then show ?thesis using assms balanced_paren [of "h @ s @ t"] by simp
qed

lemma spaced_good [simp]: "(\<forall>x \<in> set (spaced xs). good x) \<longleftrightarrow> (\<forall>x \<in> set xs. good x)"
  by (induction xs) (simp_all add: spaced_def plain_simps)

declare cat_Cons [simp del]

lemma mem_type_good: "ok_mem_type L T \<Longrightarrow> good (mem_type L T)"
  using getType_good [of L T]
  by (cases T) (simp_all add: mem_type_def good_map_append plain_simps
      balanced_def [of "'' (bitvector 64) #:pointer #t''"])

lemma visitDetail_good: "ok_detail L d \<Longrightarrow> good (visitDetail L d)"
  by (cases d) (simp_all add: visitDetail_def plain_simps mem_type_good good_cat)

lemma opcode_text_balanced: "ok_text op \<Longrightarrow> ok_detail L d \<Longrightarrow> balanced (opcode_text op d)"
  by (cases d) (auto simp: opcode_text_def plain_simps)

lemma refs_good:
  "ok_value L v \<Longrightarrow> good (getRef L v)"
  "ok_op L e \<Longrightarrow> good (visitOperator L e)"
  "ok_index L i \<Longrightarrow> good (visitGEPIndex L i)"
proof (induction L v and L e and L i rule: getRef_visitOperator_visitGEPIndex.induct)
  case (1 L T)
  then show ?case using good_parts [of "''zeroinitializer ''" "[getType L T]"] getType_good by (simp add: plain_simps)
next
  case (2 L w i)
  then show ?case using balanced_paren [of "''bv '' @ apint_text L w i @ '' '' @ dec w"] by (simp add: plain_simps)
next
  case (4 L T)
  then show ?case using good_parts [of "''undef ''" "[getType L T]"] getType_good by (simp add: plain_simps)
next
  case (5 L vs)
  then show ?case using good_parts [of "''vector''" "spaced (map (getRef L) vs)"]
    by (simp add: plain_simps list_all_iff)
next
  case (6 L s)
  then show ?case using balanced_paren [of "''vector''"] by (simp add: plain_simps)
next
  case (11 L op vs T d)
  then have op: "balanced (opcode_text op d)" using opcode_text_balanced [of op L d] by simp
  from 11 have "\<forall>x \<in> set (spaced (map (getRef L) vs) @ [if isCast L op \<and> op \<noteq> ''bitcast'' \<and> op \<noteq> ''inttoptr''
      then map_option ((@) '' '') (getType L T) else Some [], visitDetail L d]). good x"
    by (simp add: list_all_iff visitDetail_good plain_simps good_map_append getType_good ball_Un)
  from good_parts [OF op this] show ?case by (simp split del: if_split)
next
  case (12 L op p "is")
  then have "\<forall>x \<in> set (getRef L p # spaced (map (visitGEPIndex L) is)). good x"
    by (simp add: list_all_iff)
  from good_parts [OF _ this, of "op @ '' ''"] 12 show ?case by (simp add: plain_simps)
next
  case (13 L T v)
  then show ?case
    using balanced_paren [of "''struct-offset '' @ dec k" for k] by (auto simp: plain_simps split: lvalue.splits)
next
  case (14 L T v)
  then show ?case
    using good_closed [of "''array-offset ''" "getRef L v" "'' '' @ dec (unat (getTypeAllocSize L T))"] by (simp add: plain_simps)
qed simp_all


section \<open>Lifting\<close>

text \<open>
  What LLVM promises of \<open>stripPointerCasts\<close>: the result is the value itself or a value under its casts.
\<close>

definition strips :: "llvm_api \<Rightarrow> bool" where
  "strips L \<longleftrightarrow> (\<forall>v. size (stripPointerCasts L v) \<le> size v \<and> (ok_value L v \<longrightarrow> ok_value L (stripPointerCasts L v)))"

lemma no_quote_append [simp]: "no_quote (s @ t) \<longleftrightarrow> no_quote s \<and> no_quote t"
  by (simp add: no_quote_def)

lemma lexs_escaped:
  assumes "hex_digits L" and "\<forall>b \<in> set bs. b < 128"
  shows "lexs (concat (map (\<lambda>c. if isPrint c \<and> c \<noteq> 0x5C \<and> c \<noteq> 0x22 then [char_of (unat c)]
      else [CHR 0x5C, CHR ''x'', hexdigit L (c_div16 c), hexdigit L (c_mod16 c)]) bs)) (Str, stk) = Some (Str, stk)"
  using assms(2)
proof (induction bs)
  case (Cons c bs)
  then have c: "c < 128" and n: "unat c < 128" by (simp_all add: word_less_nat_alt)
  have "list_all (\<lambda>c. c \<noteq> CHR 0x22 \<and> c \<noteq> CHR 0x5C) ''0123456789ABCDEF''" by simp
  then have h: "''0123456789ABCDEF'' ! i \<notin> {CHR 0x22, CHR 0x5C}" if "i < 16" for i
    using that by (auto simp: list_all_length)
  have "hexdigit L (of_nat i) \<notin> {CHR 0x22, CHR 0x5C}" if "i < 16" for i
    using h [OF that] assms(1) that by (simp add: hex_digits_def list_all_iff)
  then have "hexdigit L (c_div16 c) \<notin> {CHR 0x22, CHR 0x5C}" "hexdigit L (c_mod16 c) \<notin> {CHR 0x22, CHR 0x5C}"
    using n by (simp_all add: digits_low [OF c])
  moreover have "of_char (char_of (unat c)) = unat c" using n by (simp add: of_char_of)
  then have "char_of (unat c) \<noteq> CHR 0x22" "char_of (unat c) \<noteq> CHR 0x5C" if "c \<noteq> 0x5C" "c \<noteq> 0x22"
    using that by (auto simp: word_unat_eq_iff dest!: arg_cong [where f = "of_char :: char \<Rightarrow> nat"])
  ultimately show ?case using Cons by (auto simp: lexs_append)
qed simp

lemma escaped_balanced:
  assumes "hex_digits L" and "\<forall>b \<in> set bs. b < 128"
  shows "balanced (printRacketEscaped L bs)"
proof -
  have "\<forall>b \<in> set (without_terminator bs). b < 128"
    using assms(2) by (auto simp: without_terminator_def dest: in_set_butlastD)
  from lexs_escaped [OF assms(1) this] show ?thesis
    by (simp add: balanced_def printRacketEscaped_def without_terminator_def [symmetric] lexs_append)
qed

lemma size_list_mem: "v \<in> set vs \<Longrightarrow> size v \<le> size_list size vs"
  by (rule size_list_estimation' [OF _ order_refl])

lemma lift_list_good:
  "\<forall>v \<in> set vs. good (emitLiftValue n L v) \<Longrightarrow>
   good (cat (Some ''(list'' # spaced (map (emitLiftValue n L) vs) @ [Some '')'']))"
  using good_parts [of "''list''" "spaced (map (emitLiftValue n L) vs)"] by (simp add: plain_simps)

text \<open>Lifting ends within as many steps as the value has parts.\<close>

lemma lift_good:
  assumes L: "strips L" "hex_digits L"
  shows "ok_value L V \<Longrightarrow> size V < n \<Longrightarrow> good (emitLiftValue n L V)"
proof (induction n arbitrary: V)
  case (Suc n)
  have sub: "good (emitLiftValue n L v)" if "v \<in> set vs" "list_all (ok_value L) vs" "size_list size vs < n" for v vs
    using that Suc.IH [of v] size_list_mem [of v vs] by (simp add: list_all_iff)
  have st: "size (stripPointerCasts L v) \<le> size v" "ok_value L v \<Longrightarrow> ok_value L (stripPointerCasts L v)" for v
    using L(1) by (simp_all add: strips_def)
  show ?case
  proof (cases "\<exists>s i. stripPointerCasts L V = GlobalVariable s (Some i)")
    case True
    then obtain s i where g: "stripPointerCasts L V = GlobalVariable s (Some i)" by blast
    have "ok_value L i" using st(2) [OF Suc.prems(1)] g by simp
    moreover have "size i < n" using st(1) [of V] g Suc.prems(2) by simp
    ultimately show ?thesis
      using g Suc.IH [of "stripPointerCasts L i"] st [of i] by simp
  next
    case False
    have "emitLiftValue (Suc n) L V = (case V of
             ConstantInt w i \<Rightarrow> Some (apint_text L w i)
           | ConstantDataString s bs \<Rightarrow> Some (printRacketEscaped L bs)
           | ConstantAggregate s vs \<Rightarrow> cat (Some ''(list'' # spaced (map (emitLiftValue n L) vs) @ [Some '')''])
           | ConstantVector vs \<Rightarrow> cat (Some ''(list'' # spaced (map (emitLiftValue n L) vs) @ [Some '')''])
           | _ \<Rightarrow> getRef L V)"
      using False by (cases "stripPointerCasts L V") (simp_all split: option.split)
    then show ?thesis
      using Suc.prems refs_good(1) [of L V] sub
      by (cases V) (auto simp: escaped_balanced [OF L(2)] list_all_iff intro!: lift_list_good)
  qed
qed simp


section \<open>Instructions\<close>

fun quoted_asm :: "string \<Rightarrow> bool" where
  "quoted_asm s \<longleftrightarrow> s \<noteq> [] \<and> \<not> list_all (\<lambda>c. \<not> space c) s \<and> asm_read s = None \<and> asm_write s = None"

text \<open>Assembler text is put between quotes without escapes, or its words are taken as symbols.\<close>

definition ok_asm :: "string \<Rightarrow> bool" where
  "ok_asm s \<longleftrightarrow> (if quoted_asm s then no_quote s else list_all (\<lambda>c. \<not> special c) s)"

fun ok_callee :: "llvm_api \<Rightarrow> callee \<Rightarrow> bool" where
  "ok_callee L (Called_function F ref ext) \<longleftrightarrow> ok_text F \<and> ok_text ref"
| "ok_callee L (Inline_asm s) \<longleftrightarrow> ok_asm s"
| "ok_callee L (Called_value v) \<longleftrightarrow> ok_value L v"

definition ok_name :: "string option \<Rightarrow> bool" where
  "ok_name nm \<longleftrightarrow> (case nm of None \<Rightarrow> True | Some n \<Rightarrow> ok_text n)"

definition ok_args :: "nat \<Rightarrow> llvm_api \<Rightarrow> callee \<Rightarrow> lvalue list \<Rightarrow> bool" where
  "ok_args n L cf args \<longleftrightarrow>
     list_all (\<lambda>v. ok_value L v \<and> size v < n) args \<and>
     (case cf of Called_function F ref ext \<Rightarrow> ext \<and> isUBSanFunction F \<longrightarrow> args \<noteq> [] | _ \<Rightarrow> True)"

fun ok_instr :: "nat \<Rightarrow> llvm_api \<Rightarrow> linstr \<Rightarrow> bool" where
  "ok_instr n L (Instruction nm t e) \<longleftrightarrow> ok_name nm \<and> ok_op L e"
| "ok_instr n L (PHINode nm t ins) \<longleftrightarrow> ok_text nm \<and> list_all (\<lambda>(v, b). ok_value L v \<and> ok_text b) ins"
| "ok_instr n L (BranchInst t l) \<longleftrightarrow> ok_text l"
| "ok_instr n L (CondBranchInst t v l1 l2) \<longleftrightarrow> ok_value L v \<and> ok_text l1 \<and> ok_text l2"
| "ok_instr n L (CallInst nm t cf args) \<longleftrightarrow> ok_name nm \<and> ok_callee L cf \<and> ok_args n L cf args"
| "ok_instr n L (DbgInfoIntrinsic t) \<longleftrightarrow> True"
| "ok_instr n L (AllocaInst nm t T al) \<longleftrightarrow> ok_text nm \<and> laid_out L T \<and> memory_type T"
| "ok_instr n L (SwitchInst t v d cs) \<longleftrightarrow>
     ok_value L v \<and> ok_text d \<and> list_all (\<lambda>(w, l). ok_value L w \<and> ok_text l) cs"

lemma set_to_good: "ok_name nm \<Longrightarrow> good x \<Longrightarrow> good (set_to nm x)"
  using good_closed [of "''set! '' @ the nm @ '' ''" x "[]"]
  by (cases nm) (simp_all add: ok_name_def set_to_def plain_simps)

lemma pair_good: "ok_value L v \<Longrightarrow> ok_text b \<Longrightarrow> good (cat [Some '' ['', getRef L v, Some ('' '' @ b @ '']'')])"
  using good_bracket [of "[]" "[getRef L v]" "'' '' @ b"] refs_good(1) [of L v]
  by (simp add: plain_simps good_cat)

lemma asm_words_chars: "asm_words s = Some (w, r) \<Longrightarrow> set w \<subseteq> set s \<and> set r \<subseteq> set s"
  by (auto simp: asm_words_def Let_def split: if_splits dest!: set_takeWhileD set_dropWhileD)

lemma asm_read_chars:
  assumes "asm_read s = Some (w, v)"
  shows "set w \<subseteq> set s \<and> set v \<subseteq> set s"
proof -
  obtain r where r: "asm_words s = Some (w, CHR ''$'' # CHR ''0'' # CHR '','' # r)" and v: "v = dropWhile space r"
    using assms by (auto simp: asm_read_def Let_def split: option.splits list.splits prod.splits char.splits bool.splits if_splits)
  show ?thesis using asm_words_chars [OF r] v by (auto dest: set_dropWhileD)
qed


lemma asm_write_chars:
  assumes "asm_write s = Some (w, v)"
  shows "set w \<subseteq> set s \<and> set v \<subseteq> set s"
proof -
  obtain r where r: "asm_words s = Some (w, r)" and v: "v = takeWhile operand_char r"
    using assms by (auto simp: asm_write_def Let_def split: option.splits list.splits prod.splits char.splits bool.splits if_splits)
  show ?thesis using asm_words_chars [OF r] v by (auto dest: set_takeWhileD)
qed

lemma plain_subset: "list_all (\<lambda>c. \<not> special c) s \<Longrightarrow> set w \<subseteq> set s \<Longrightarrow> balanced w"
  by (rule balanced_plain) (auto simp: list_all_iff)

lemma emitInlineAsm_balanced: "ok_asm s \<Longrightarrow> balanced (emitInlineAsm s)"
  using plain_subset asm_read_chars asm_write_chars balanced_string [of s]
  by (auto simp: emitInlineAsm_def ok_asm_def plain_simps balanced_plain split: option.split if_splits)

lemma visitCallInst_good:
  assumes L: "strips L" "hex_digits L" and ok: "ok_name nm" "ok_callee L cf" "ok_args n L cf args"
  shows "good (visitCallInst n L nm cf args)"
proof -
  have refs: "\<forall>x \<in> set (map (getRef L) args). good x" and lifts: "\<forall>x \<in> set (map (emitLiftValue n L) args). good x"
    using ok(3) refs_good(1) lift_good [OF L] by (auto simp: ok_args_def list_all_iff)
  have regular: "good (set_to nm (cat ([Some ''('', h] @ spaced (map (getRef L) args) @ [Some '')''])))" if "good h" for h
    using set_to_good [OF ok(1) good_parts [of "[]" "h # spaced (map (getRef L) args)"]] refs that by simp
  show ?thesis
  proof (cases cf)
    case (Called_function F ref ext)
    then have F: "balanced F" "balanced ref" using ok(2) by simp_all
    have "good (emitUBSan n L F args)" if "args \<noteq> []"
      using that good_parts [of "F @ '' ''" "emitLiftValue n L (hd args) # spaced (map (getRef L) (tl args))"] refs lifts F
      by (cases args) (simp_all add: emitUBSan_def plain_simps)
    moreover have "good (emitAssert n L F args)"
      using good_parts [of "F @ '' ''" "spaced (map (emitLiftValue n L) args)"] lifts F
      by (simp add: emitAssert_def plain_simps)
    ultimately show ?thesis
      using regular [of "Some F"] regular [of "Some (''call '' @ ref)"] Called_function F ok(3)
      by (simp add: visitCallInst_def Let_def plain_simps ok_args_def)
  next
    case (Inline_asm s)
    then show ?thesis
      using regular [of "Some (emitInlineAsm s)"] ok(2) by (simp add: visitCallInst_def emitInlineAsm_balanced)
  next
    case (Called_value v)
    then show ?thesis
      using regular [of "map_option ((@) ''call '') (getRef L v)"] ok(2) refs_good(1) [of L v]
      by (simp add: visitCallInst_def good_map_append plain_simps)
  qed
qed

lemma emitGlobalType_good: "memory_type T \<Longrightarrow> laid_out L T \<Longrightarrow> good (emitGlobalType L T None idx)"
proof (induction T arbitrary: idx)
  case (ArrayTy n T)
  then show ?case
    using good_closed [of "''marray '' @ dec n @ '' ''" "emitGlobalType L T None idx" "[]"] array_size [of L n T]
    by (simp add: require_def array_base_def plain_simps)
next
  case (StructTy nm ts)
  let ?S = "StructTy nm ts" and ?ms = "map (\<lambda>i. (dec i, None :: ditype option)) [0..<length ts]"
  let ?f = "\<lambda>(i, T). cat [Some ('' (mfield '' @ [CHR 0x27] @ fst (?ms ! i) @ '' '' @ dec (unat (getElementOffset L ?S i)) @ '' ''),
      emitGlobalType L T (snd (?ms ! i)) 0, Some '')'']"
  have "good (?f (i, T))" if "(i, T) \<in> set (zip [0..<length ts] ts)" for i T
  proof -
    have i: "i < length ts" and T: "T \<in> set ts" using that by (auto simp: set_zip)
    have "good (emitGlobalType L T None 0)" using StructTy T by (simp add: list_all_iff)
    then have "good (cat [Some (CHR ''('' # ''mfield '' @ [CHR 0x27] @ dec i @ '' '' @ dec (unat (getElementOffset L ?S i)) @ '' ''),
        emitGlobalType L T None 0, Some ([] @ '')'')])"
      by (intro good_closed) (simp_all add: plain_simps)
    then show ?thesis using i by (auto simp: cat_Cons good_iff plain_simps)
  qed
  then have "good (cat (map ?f (zip [0..<length ts] ts)))" by (intro good_cat) auto
  then obtain fs where fs: "cat (map ?f (zip [0..<length ts] ts)) = Some fs" "balanced fs" by (auto simp: good_iff)
  have "emitGlobalType L ?S None idx =
      cat ([Some (''(mstruct '' @ dec (unat (type_size L ?S)) @ '' (list'')] @ map ?f (zip [0..<length ts] ts) @ [Some ''))''])"
    by (simp only: emitGlobalType.simps stripDITypedef.simps struct_members_def option.case)
  then have "emitGlobalType L ?S None idx = Some (''(mstruct '' @ dec (unat (type_size L ?S)) @ '' (list'' @ fs @ ''))'')"
    using fs(1) by (simp add: cat_append cat_Cons)
  moreover have "balanced (''(mstruct '' @ dec (unat (type_size L ?S)) @ '' (list'' @ fs @ ''))'')"
    using balanced_paren [of "''mstruct '' @ dec (unat (type_size L ?S)) @ '' '' @ (CHR ''('' # (''list'' @ fs) @ '')'')"]
      balanced_paren [of "''list'' @ fs"] fs(2) by (simp add: plain_simps)
  ultimately show ?case by simp
qed (use balanced_paren [of "''mcell '' @ dec (unat (type_size L T))" for L T] in \<open>simp_all add: require_def plain_simps\<close>)

lemma visit_good:
  assumes L: "strips L" "hex_digits L" and ok: "ok_instr n L I"
  shows "good (visit n L I)"
proof (cases I)
  case (Instruction nm t e)
  then show ?thesis using ok by (simp add: visit_def visitInstruction_def set_to_good refs_good(2))
next
  case (PHINode nm t ins)
  let ?ps = "map (\<lambda>(v, b). cat [Some '' ['', getRef L v, Some ('' '' @ b @ '']'')]) ins"
  have "good (cat ?ps)" using ok PHINode by (intro good_cat) (auto simp: list_all_iff intro!: pair_good [simplified])
  then obtain ps where ps: "cat ?ps = Some ps" "balanced ps" by (auto simp: good_iff)
  have "balanced (''(set! '' @ nm @ '' (phi'' @ ps @ ''))'')"
    using balanced_paren [of "''set! '' @ nm @ '' '' @ (CHR ''('' # (''phi'' @ ps) @ '')'')"]
      balanced_paren [of "''phi'' @ ps"] ps(2) ok PHINode by (simp add: plain_simps)
  then show ?thesis using PHINode ps(1) by (simp add: visit_def visitPHINode_def cat_append cat_Cons)
next
  case (BranchInst t l)
  then show ?thesis
    using ok balanced_paren [of "''br '' @ l"] by (simp add: visit_def visitBranchInst_def plain_simps)
next
  case (CondBranchInst t v l1 l2)
  then show ?thesis
    using ok good_closed [of "''br ''" "getRef L v" "'' '' @ l1 @ '' '' @ l2"] refs_good(1) [of L v]
    by (simp add: visit_def visitCondBranchInst_def plain_simps)
next
  case (CallInst nm t cf args)
  then show ?thesis using ok visitCallInst_good [OF L] by (simp add: visit_def)
next
  case (AllocaInst nm t T al)
  then have "good (emitGlobalType L T None 0)" using ok emitGlobalType_good by simp
  then obtain g where g: "emitGlobalType L T None 0 = Some g" "balanced g" by (auto simp: good_iff)
  have "balanced (''(set! '' @ nm @ '' (alloca '' @ g @ '' #:align '' @ dec al @ ''))'')"
    using balanced_paren [of "''set! '' @ nm @ '' '' @ (CHR ''('' # (''alloca '' @ g @ '' #:align '' @ dec al) @ '')'')"]
      balanced_paren [of "''alloca '' @ g @ '' #:align '' @ dec al"] g(2) ok AllocaInst by (simp add: plain_simps)
  then show ?thesis using AllocaInst g(1) by (simp add: visit_def visitAllocaInst_def cat_Cons)
next
  case (SwitchInst t v d cs)
  let ?ps = "map (\<lambda>(v, b). cat [Some '' ['', getRef L v, Some ('' '' @ b @ '']'')]) cs"
  have "\<forall>x \<in> set ([getRef L v, Some ('' '' @ d)] @ ?ps). good x"
    using ok SwitchInst refs_good(1) [of L v] by (auto simp: list_all_iff plain_simps intro!: pair_good [simplified])
  from good_parts [OF _ this, of "''switch ''"] show ?thesis
    using SwitchInst by (simp add: visit_def visitSwitchInst_def plain_simps)
qed (simp add: visit_def)


section \<open>Functions and modules\<close>

lemma split_lines_one_line: "\<forall>l \<in> set (split_lines s). one_line l"
  by (induction s) (auto simp: one_line_def split: list.split)

text \<open>Comments before an instruction: the reader is back in code after the last line.\<close>

lemma lexs_comments:
  assumes "\<forall>l \<in> set ls. one_line l" and "m \<in> {Code, Comment}"
  shows "lexs (comments ls @ CHR ''\<newline>'' # r) (m, stk) = lexs r (Code, stk)"
  using assms
proof (induction ls arbitrary: m)
  case (Cons l ls)
  have "lex1 (CHR ''\<newline>'') (m, stk) = Some (Code, stk)" using Cons.prems(2) by auto
  then have "lexs (comments (l # ls) @ CHR ''\<newline>'' # r) (m, stk) = lexs (comments ls @ CHR ''\<newline>'' # r) (Comment, stk)"
    using Cons.prems(1) lexs_comment [of l stk] by (simp add: lexs_append)
  also have "\<dots> = lexs r (Code, stk)" using Cons by simp
  finally show ?case .
qed auto

lemma emitInstruction_good:
  assumes "strips L" "hex_digits L" "ok_instr n L I"
  shows "good (emitInstruction n L I)"
proof -
  obtain v where v: "visit n L I = Some v" "balanced v" using visit_good [OF assms] by (auto simp: good_iff)
  let ?c = "comments (split_lines (instr_text I))"
  have "lexs (?c @ CHR ''\<newline>'' # ''    '' @ v) (Code, []) = Some (Code, [])"
    using v(2) by (subst lexs_comments [OF split_lines_one_line]) (simp_all add: lexs_append)
  then have "balanced (?c @ ''\<newline>    '' @ v)" by (simp add: balanced_def)
  then show ?thesis using v(1) by (cases I) (simp_all add: emitInstruction_def cat_Cons)
qed

definition ok_block :: "nat \<Rightarrow> llvm_api \<Rightarrow> lfunction \<Rightarrow> basic_block \<Rightarrow> bool" where
  "ok_block n L F BB \<longleftrightarrow>
     ok_text (block_name BB) \<and> list_all one_line (predecessors BB) \<and> ok_text (merge_label L F BB) \<and>
     list_all (ok_instr n L) (instrs BB)"

lemma one_line_simps [simp]:
  "one_line []" "one_line (c # s) \<longleftrightarrow> c \<noteq> CHR ''\<newline>'' \<and> one_line s" "one_line (s @ t) \<longleftrightarrow> one_line s \<and> one_line t"
  "one_line (replicate k c) \<longleftrightarrow> k = 0 \<or> c \<noteq> CHR ''\<newline>''"
  by (auto simp: one_line_def)

lemma one_line_concat: "\<forall>s \<in> set ss. one_line s \<Longrightarrow> one_line (concat ss)"
  by (induction ss) simp_all

lemma emitBasicBlock_good:
  assumes L: "strips L" "hex_digits L" and ok: "ok_block n L F BB"
  shows "good (emitBasicBlock n L F BB)"
proof -
  let ?b = "block_name BB" and ?m = "merge_label L F BB"
  have "good (cat (map (emitInstruction n L) (instrs BB)))"
    using ok emitInstruction_good [OF L] by (intro good_cat) (auto simp: ok_block_def list_all_iff)
  then obtain ins where i: "cat (map (emitInstruction n L) (instrs BB)) = Some ins" "balanced ins" by (auto simp: good_iff)
  define head where "head = left_justify (''; '' @ ?b) 50 @ ''; preds ='' @ concat (map (\<lambda>p. '' '' @ p) (predecessors BB))"
  have "one_line (concat (map (\<lambda>p. '' '' @ p) (predecessors BB)))"
    using ok by (intro one_line_concat) (auto simp: ok_block_def list_all_iff)
  then obtain h where "head = CHR '';'' # h" and "one_line h"
    using ok by (auto simp: head_def left_justify_def ok_block_def ok_text_def)
  then have head: "balanced (head @ ''\<newline>'')" using balanced_comment [of h] by simp
  define lb where "lb = CHR ''('' # ?b @ '')''"
  have "balanced lb" using ok by (simp add: lb_def balanced_paren ok_block_def)
  then have "balanced (CHR ''('' # (''define-label '' @ lb @ '' #:merge '' @ ?m @ ins) @ '')'')"
    using ok i(2) by (intro balanced_paren balanced_append) (simp_all add: ok_block_def plain_simps)
  from balanced_append [OF head balanced_append [OF _ this, of "''  ''"]]
  have "balanced ((head @ ''\<newline>'') @ ''  (define-label ('' @ ?b @ '') #:merge '' @ ?m @ ins @ '')'')"
    by (simp add: plain_simps lb_def)
  from balanced_append [OF this, of "''\<newline>''"]
  have "balanced (''\<newline>'' @ head @ ''\<newline>  (define-label ('' @ ?b @ '') #:merge '' @ ?m @ ins @ '')\<newline>'')"
    by (simp add: plain_simps)
  then show ?thesis
    using i(1) by (simp add: emitBasicBlock_def cat_append cat_Cons head_def)
qed

definition ok_function :: "nat \<Rightarrow> llvm_api \<Rightarrow> lfunction \<Rightarrow> bool" where
  "ok_function n L F \<longleftrightarrow>
     ok_text (fun_name F) \<and> one_line (fun_type F) \<and>
     list_all (\<lambda>(a, T). ok_text a \<and> ok_type L T) (fun_args F) \<and> list_all (ok_block n L F) (blocks F)"

lemma instr_name_ok: "ok_instr n L I \<Longrightarrow> instr_name I = Some nm \<Longrightarrow> ok_text nm"
  by (cases I) (auto simp: ok_name_def)

lemma ValueVisitor_balanced:
  assumes "ok_function n L F"
  shows "balanced (ValueVisitor F)" "ValueVisitor F = [] \<or> (\<exists>r. ValueVisitor F = CHR ''\<newline>'' # r)"
proof -
  have "balanced (''\<newline>  (define-value '' @ nm @ '')'')" if "ok_text nm" for nm
    using balanced_paren [of "''define-value '' @ nm"] that by (simp add: plain_simps)
  moreover have "ok_instr n L I" if "I \<in> set (concat (map instrs (blocks F)))" for I
    using assms that by (auto simp: ok_function_def ok_block_def list_all_iff)
  ultimately show "balanced (ValueVisitor F)"
    unfolding ValueVisitor_def by (intro balanced_concat) (auto split: option.split dest: instr_name_ok)
  have "concat (map (\<lambda>I. case instr_name I of None \<Rightarrow> [] | Some nm \<Rightarrow> ''\<newline>  (define-value '' @ nm @ '')'') Is) = [] \<or>
      (\<exists>r. concat (map (\<lambda>I. case instr_name I of None \<Rightarrow> [] | Some nm \<Rightarrow> ''\<newline>  (define-value '' @ nm @ '')'') Is) = CHR ''\<newline>'' # r)" for Is
    by (induction Is) (auto split: option.split)
  then show "ValueVisitor F = [] \<or> (\<exists>r. ValueVisitor F = CHR ''\<newline>'' # r)" by (simp only: ValueVisitor_def)
qed

lemma arg_good: "ok_text a \<Longrightarrow> ok_type L T \<Longrightarrow> good (cat [Some ('' ['' @ a @ '' : ''), getType L T, Some '']''])"
  using good_bracket [of "a @ '' : ''" "[getType L T]" "[]"] getType_good [of L T]
  by (simp add: plain_simps good_cat)

text \<open>The entry: the comment ends where the declarations or the jump to the first block begin.\<close>

lemma entry_balanced:
  assumes ok: "ok_function n L F" and b: "ok_text b"
  shows "balanced (''\<newline>; entry'' @ ValueVisitor F @ ''\<newline>  (enter! '' @ b @ '')'')"
proof -
  let ?e = "''\<newline>  (enter! '' @ b @ '')''"
  have e: "balanced ?e" using balanced_paren [of "''enter! '' @ b"] b by (simp add: plain_simps)
  obtain r where r: "ValueVisitor F @ ?e = CHR ''\<newline>'' # r" using ValueVisitor_balanced(2) [OF ok] by auto
  have "balanced (ValueVisitor F @ ?e)" by (rule balanced_append [OF ValueVisitor_balanced(1) [OF ok] e])
  then have "balanced r" unfolding r by (simp add: plain_simps)
  then have "balanced (''\<newline>'' @ (CHR '';'' # '' entry'' @ ''\<newline>'') @ r)"
    by (intro balanced_append balanced_comment) (simp_all add: plain_simps)
  then show ?thesis using r by simp
qed

lemma emitFunction_good:
  assumes L: "strips L" "hex_digits L" and ok: "ok_function n L F"
  shows "good (emitFunction n L F)"
proof -
  let ?n = "fun_name F"
  let ?as = "map (\<lambda>(a, T). cat [Some ('' ['' @ a @ '' : ''), getType L T, Some '']'']) (fun_args F)"
  have n: "ok_text ?n" using ok by (simp add: ok_function_def)
  have "good (cat ?as)" using ok by (intro good_cat) (auto simp: ok_function_def list_all_iff intro!: arg_good [simplified])
  then obtain as where as: "cat ?as = Some as" "balanced as" by (auto simp: good_iff)
  have "balanced (''\<newline>'' @ (CHR '';'' # ('' @'' @ ?n @ '': '' @ fun_type F) @ ''\<newline>''))"
    using ok by (intro balanced_append balanced_comment) (simp_all add: plain_simps ok_function_def ok_text_def)
  then have head: "balanced (''\<newline>; @'' @ ?n @ '': '' @ fun_type F @ ''\<newline>'')" by simp
  define sg where "sg = ''(@'' @ ?n @ as @ '')''"
  have sig: "balanced sg"
    using balanced_paren [of "CHR ''@'' # ?n @ as"] n as(2) by (simp add: sg_def plain_simps)
  have whole: "balanced (''\<newline>; @'' @ ?n @ '': '' @ fun_type F @ ''\<newline>(define-function (@'' @ ?n @ as @ '')'' @ body @ '')\<newline>'')"
    if "balanced body" for body
  proof -
    have "balanced (CHR ''('' # (''define-function '' @ sg @ body) @ '')'')"
      using sig that by (intro balanced_paren balanced_append) (simp_all add: plain_simps)
    from balanced_append [OF head balanced_append [OF this, of "''\<newline>''"]]
    have "balanced ((''\<newline>; @'' @ ?n @ '': '' @ fun_type F @ ''\<newline>'') @
        (CHR ''('' # (''define-function '' @ sg @ body) @ '')'') @ ''\<newline>'')" by (simp add: plain_simps)
    then show ?thesis by (simp add: sg_def)
  qed
  show ?thesis
  proof (cases "blocks F = []")
    case True
    have "balanced '' (unreachable)''" by (simp add: balanced_def)
    from whole [OF this] True show ?thesis
      using as(1) by (simp add: emitFunction_def cat_append cat_Cons plain_simps)
  next
    case False
    have "good (cat (map (emitBasicBlock n L F) (blocks F)))"
      using ok emitBasicBlock_good [OF L] by (intro good_cat) (auto simp: ok_function_def list_all_iff)
    then obtain bs where bs: "cat (map (emitBasicBlock n L F) (blocks F)) = Some bs" "balanced bs" by (auto simp: good_iff)
    have "ok_text (block_name (hd (blocks F)))" using ok False by (simp add: ok_function_def ok_block_def list_all_iff)
    from whole [OF balanced_append [OF bs(2) entry_balanced [OF ok this]]] False show ?thesis
      using as(1) bs(1) by (simp add: emitFunction_def cat_append cat_Cons plain_simps)
  qed
qed


definition ok_module :: "nat \<Rightarrow> llvm_api \<Rightarrow> lmodule \<Rightarrow> bool" where
  "ok_module n L M \<longleftrightarrow>
     list_all (\<lambda>GV. ok_text (global_ref GV)) (getGlobalList M) \<and> list_all (ok_function n L) (getFunctionList M)"

lemma emitModule_good:
  assumes L: "strips L" "hex_digits L" and ok: "ok_module n L M"
  shows "good (emitModule n L M)"
proof -
  have tp: "balanced (''(target-pointer-bitwidth '' @ dec (pointer_bits M) @ '')'')"
    using balanced_paren [of "''target-pointer-bitwidth '' @ dec (pointer_bits M)"] by (simp add: plain_simps)
  have rq: "balanced (''(require serval/lib/core\<newline>         serval/llvm\<newline>         serval/ubsan)\<newline>\<newline>(target-endian '' @
      [CHR 0x27] @ (if big_endian M then ''big'' else ''little'') @ '')\<newline>'')"
    by (simp add: balanced_def)
  from balanced_append [OF rq balanced_append [OF tp, of "''\<newline>''"]]
  have head: "balanced (''(require serval/lib/core\<newline>         serval/llvm\<newline>         serval/ubsan)\<newline>\<newline>(target-endian '' @
      [CHR 0x27] @ (if big_endian M then ''big'' else ''little'') @ '')\<newline>(target-pointer-bitwidth '' @
      dec (pointer_bits M) @ '')\<newline>'')"
    by (simp add: plain_simps split del: if_split)
  have "balanced (emitGlobalVariable GV)" if "GV \<in> set (getGlobalList M)" for GV
    using ok that balanced_paren [of "''define-global '' @ global_ref GV"]
    by (auto simp: emitGlobalVariable_def ok_module_def list_all_iff plain_simps)
  moreover have "good (emitFunction n L F)" if "F \<in> set (getFunctionList M)" for F
    using ok that emitFunction_good [OF L] by (auto simp: ok_module_def list_all_iff)
  ultimately show ?thesis
    unfolding emitModule_def
    by (intro good_cat) (simp only: set_append set_simps set_map image_comp ball_Un ball_simps good_simps head
        comp_apply ball_triv balanced_Nil, auto simp: plain_simps)
qed


text \<open>Every value that an instruction assigns is declared before the entry block runs.\<close>

lemma contains_append: "contains p s \<Longrightarrow> contains p (t @ s)"
  by (induction t) simp_all

lemma contains_prefix: "contains p (p @ s)"
  by (cases p; cases s) simp_all

lemma contains_concat: "s \<in> set ss \<Longrightarrow> contains s (concat ss)"
  by (induction ss) (auto intro: contains_append contains_prefix)

lemma declared: "I \<in> set (instrs BB) \<Longrightarrow> BB \<in> set (blocks F) \<Longrightarrow> instr_name I = Some nm \<Longrightarrow>
  contains (''\<newline>  (define-value '' @ nm @ '')'') (ValueVisitor F)"
  unfolding ValueVisitor_def by (rule contains_concat) force

section \<open>A module for examples\<close>

definition demo_function :: lfunction where
  "demo_function = \<lparr>fun_name = ''inc'', external = True, is_dbg = False, fun_type = ''i64 (i64)'',
     fun_args = [(''%x'', IntTy 64)],
     blocks = [\<lparr>block_name = ''%entry'', predecessors = [],
       instrs = [Instruction (Some ''%r'') ''%r = add i64 %x, 1''
                   (Operator ''add'' [OtherValue ''%x'', ConstantInt 64 1] (IntTy 64) NoDetail),
                 CallInst None ''call void @__assert_fail(c)''
                   (Called_function ''__assert_fail'' ''@__assert_fail'' True) [ConstantDataString ''c'' [0x61, 0x22, 0]],
                 Instruction None ''ret i64 %r'' (Operator ''ret'' [OtherValue ''%r''] (OtherTy ''void'') NoDetail)]\<rparr>]\<rparr>"

definition demo_module :: lmodule where
  "demo_module = \<lparr>big_endian = False, pointer_bits = 64, getGlobalList = [demo_ticks], getFunctionList = [demo_function]\<rparr>"

lemma demo_api_ok: "strips demo_api" "hex_digits demo_api"
proof -
  show "strips demo_api" by (simp add: strips_def demo_api_def)
  have "unat (of_nat i :: u32) = i" if "i < 16" for i using that by (simp add: unat_of_nat)
  then show "hex_digits demo_api" by (simp add: hex_digits_def demo_api_def list_all_iff del: upt_Suc upt_rec_numeral)
qed

lemma demo_module_ok: "ok_module 10 demo_api demo_module"
  by (simp add: ok_module_def demo_module_def demo_ticks_def ok_function_def demo_function_def ok_text_def
      ok_block_def merge_label_def ok_name_def ok_args_def isUBSanFunction_def demo_api_def dec.simps balanced_def)

section \<open>Properties\<close>

text \<open>
  C21. Byte strings survive the translation: a string of ASCII bytes is written in Racket's syntax and read
  back as the same bytes, without the trailing zero that C keeps, whatever follows. Bytes from
  128 on are negative on the host: one of the two digits asked for is then outside the range of
  \<open>hexdigit\<close>.
\<close>

theorem racket_bytes_roundtrip:
  assumes "hex_digits L" and "\<forall>b \<in> set bs. b < 128"
  shows "read_racket_bytes (printRacketEscaped L bs @ r) = Some (without_terminator bs, r) \<and>
    (\<forall>c. 128 \<le> c \<longrightarrow> \<not> (c_div16 c < 16 \<and> c_mod16 c < 16))"
  using escaped_read [OF assms] digits_high by blast

theorem racket_bytes_roundtrip_witness:
  "read_racket_bytes (printRacketEscaped demo_api [0x61, 0x22, 0x0A, 0] @ '' rest'') = Some ([0x61, 0x22, 0x0A], '' rest'')"
  using racket_bytes_roundtrip [OF demo_api_ok(2), of "[0x61, 0x22, 0x0A, 0]" "'' rest''"]
  by (simp add: without_terminator_def)



end
