(* ===== verification/Rosette_Main.thy ===== *)
theory Rosette_Main
  imports Emitter_Text
begin

text \<open>
  The command line tool around the translator, \<open>racket/llvm-rosette/main.cc\<close>: reading a module, deleting
  functions that nothing refers to, and choosing what to print. Which functions the body of a function
  refers to, and which the initialisers of the module's variables refer to, LLVM keeps in its use lists:
  both are parameters.
\<close>

section \<open>Deleting unreferenced functions\<close>

record use_lists =
  refers_to :: "lfunction \<Rightarrow> string list"
  pinned :: "string list"

definition isDeclaration :: "lfunction \<Rightarrow> bool" where
  "isDeclaration F \<longleftrightarrow> blocks F = []"

definition use_empty :: "use_lists \<Rightarrow> lfunction list \<Rightarrow> lfunction \<Rightarrow> bool" where
  "use_empty U fs F \<longleftrightarrow> fun_name F \<notin> set (pinned U) \<and> list_all (\<lambda>G. fun_name F \<notin> set (refers_to U G)) fs"

definition keeps :: "use_lists \<Rightarrow> string list \<Rightarrow> lfunction list \<Rightarrow> lfunction \<Rightarrow> bool" where
  "keeps U keep fs F \<longleftrightarrow> isDeclaration F \<or> \<not> use_empty U fs F \<or> fun_name F \<in> set keep"

text \<open>
  One pass over the functions of the module, which shrinks under the iteration: \<open>pre\<close> are the
  functions already passed.
\<close>

fun prune_pass :: "use_lists \<Rightarrow> string list \<Rightarrow> lfunction list \<Rightarrow> lfunction list \<Rightarrow> bool \<Rightarrow> lfunction list \<times> bool" where
  "prune_pass U keep pre [] changed = (pre, changed)"
| "prune_pass U keep pre (F # rest) changed =
     (if keeps U keep (pre @ F # rest) F then prune_pass U keep (pre @ [F]) rest changed
      else prune_pass U keep pre rest True)"

lemma prune_pass_length:
  "prune_pass U keep pre fs ch = (fs', ch') \<Longrightarrow>
   length fs' \<le> length pre + length fs \<and> (ch' \<and> \<not> ch \<longrightarrow> length fs' < length pre + length fs)"
  by (induction U keep pre fs ch rule: prune_pass.induct) (fastforce split: if_splits)+

function prune :: "use_lists \<Rightarrow> string list \<Rightarrow> lfunction list \<Rightarrow> lfunction list" where
  "prune U keep fs =
     (case prune_pass U keep [] fs False of (fs', changed) \<Rightarrow> if changed then prune U keep fs' else fs')"
  by pat_completeness auto
termination
  by (relation "measure (\<lambda>(U, keep, fs). length fs)") (auto dest!: sym [THEN prune_pass_length])

declare prune.simps [simp del]

section \<open>The program\<close>

record options =
  opt_globals :: bool
  opt_symbols :: bool
  opt_functions :: "string list"

text \<open>
  \<open>parseIRFile\<close> returns a null pointer for a file it cannot read, which \<open>main\<close> dereferences: \<open>None\<close>.
\<close>

definition main_output :: "nat \<Rightarrow> llvm_api \<Rightarrow> use_lists \<Rightarrow> options \<Rightarrow> lmodule option \<Rightarrow> string option" where
  "main_output n L U opts input =
     (case input of
        None \<Rightarrow> None
      | Some M \<Rightarrow>
          (let M' = (if opt_functions opts \<noteq> []
                     then M\<lparr>getFunctionList := prune U (opt_functions opts) (getFunctionList M)\<rparr> else M)
           in if opt_symbols opts then Some (emitSymbols L M')
              else if opt_globals opts then cat [Some emitPrelude, emitGlobals L M']
              else cat [Some emitPrelude, emitModule n L M']))"


section \<open>What is deleted and what stays\<close>

lemma use_empty_mono: "use_empty U fs F \<Longrightarrow> set gs \<subseteq> set fs \<Longrightarrow> use_empty U gs F"
  by (auto simp: use_empty_def list_all_iff)

lemma prune_pass_removed:
  assumes "prune_pass U keep pre fs ch = (fs', ch')"
  shows "set pre \<subseteq> set fs' \<and> set fs' \<subseteq> set pre \<union> set fs \<and>
    (\<forall>F \<in> set fs. F \<notin> set fs' \<longrightarrow> \<not> isDeclaration F \<and> fun_name F \<notin> set keep \<and> use_empty U fs' F)"
  using assms
proof (induction U keep pre fs ch rule: prune_pass.induct)
  case (2 U keep pre F rest ch)
  show ?case
  proof (cases "keeps U keep (pre @ F # rest) F")
    case True
    then show ?thesis using 2 by auto
  next
    case False
    then have "prune_pass U keep pre rest True = (fs', ch')" using "2.prems" by simp
    note IH = "2.IH"(2) [OF False this]
    then have sub: "set fs' \<subseteq> set (pre @ F # rest)" by auto
    have "use_empty U fs' F" using False use_empty_mono [OF _ sub] by (simp add: keeps_def)
    then show ?thesis using IH False by (auto simp: keeps_def)
  qed
qed simp

lemma prune_pass_changed: "prune_pass U keep pre fs True = (fs', ch') \<Longrightarrow> ch'"
  by (induction fs arbitrary: pre) (auto split: if_splits)

lemma prune_pass_stable:
  "prune_pass U keep pre fs False = (fs', False) \<Longrightarrow> fs' = pre @ fs \<and> (\<forall>F \<in> set fs. keeps U keep (pre @ fs) F)"
proof (induction fs arbitrary: pre)
  case (Cons F rest)
  then have "keeps U keep (pre @ F # rest) F"
    using prune_pass_changed [of U keep pre rest fs' False] by (auto split: if_splits)
  with Cons show ?case by fastforce
qed simp

lemma prune_result:
  "set (prune U keep fs) \<subseteq> set fs \<and> (\<forall>F \<in> set (prune U keep fs). keeps U keep (prune U keep fs) F) \<and>
   (\<forall>F \<in> set fs. F \<notin> set (prune U keep fs) \<longrightarrow>
      \<not> isDeclaration F \<and> fun_name F \<notin> set keep \<and> use_empty U (prune U keep fs) F)"
proof (induction U keep fs rule: prune.induct)
  case (1 U keep fs)
  obtain fs' ch where p: "prune_pass U keep [] fs False = (fs', ch)" by (cases "prune_pass U keep [] fs False")
  note rm = prune_pass_removed [OF p]
  show ?case
  proof (cases ch)
    case False
    have eq: "prune U keep fs = fs'" using p False by (subst prune.simps) simp
    show ?thesis unfolding eq using prune_pass_stable [of U keep "[]" fs fs'] p False by simp
  next
    case True
    have eq: "prune U keep fs = prune U keep fs'" using p True by (subst prune.simps) simp
    note IH = 1 [OF p [symmetric] True]
    then have sub: "set (prune U keep fs') \<subseteq> set fs'" by blast
    have gone: "\<not> isDeclaration F \<and> fun_name F \<notin> set keep \<and> use_empty U (prune U keep fs') F"
      if F: "F \<in> set fs" "F \<notin> set fs'" for F
      using rm F use_empty_mono [of U fs' F, OF _ sub] by blast
    show ?thesis unfolding eq
    proof (intro conjI ballI impI)
      show "set (prune U keep fs') \<subseteq> set fs" using sub rm by auto
    qed (use IH gone in blast)+
  qed
qed

inductive reachable :: "use_lists \<Rightarrow> string list \<Rightarrow> lfunction list \<Rightarrow> lfunction \<Rightarrow> bool"
  for U keep fs where
  root: "F \<in> set fs \<Longrightarrow> isDeclaration F \<or> fun_name F \<in> set keep \<or> fun_name F \<in> set (pinned U) \<Longrightarrow> reachable U keep fs F"
| step: "reachable U keep fs G \<Longrightarrow> F \<in> set fs \<Longrightarrow> fun_name F \<in> set (refers_to U G) \<Longrightarrow> reachable U keep fs F"

lemma reachable_kept: "reachable U keep fs F \<Longrightarrow> F \<in> set (prune U keep fs)"
proof (induction rule: reachable.induct)
  case (root F)
  then show ?case using prune_result [of U keep fs] by (auto simp: use_empty_def)
next
  case (step G F)
  then show ?case using prune_result [of U keep fs] by (fastforce simp: use_empty_def list_all_iff)
qed

section \<open>Properties\<close>

text \<open>
  C19. Selecting functions: the loop that deletes unreferenced functions ends, and it keeps every function
  that can be reached from the functions asked for, from declarations and from initialisers, adds
  nothing, and leaves no defined function that was not asked for and that nothing refers to. The
  translation of what is left is as well formed as that of the whole module.
\<close>

theorem main_selects_functions:
  "(\<forall>F. reachable U keep fs F \<longrightarrow> F \<in> set (prune U keep fs)) \<and> set (prune U keep fs) \<subseteq> set fs \<and>
   (\<forall>F \<in> set (prune U keep fs). isDeclaration F \<or> fun_name F \<in> set keep \<or> \<not> use_empty U (prune U keep fs) F) \<and>
   (strips L \<and> hex_digits L \<and> ok_module n L M \<longrightarrow>
      (\<exists>s. main_output n L U \<lparr>opt_globals = False, opt_symbols = False, opt_functions = keep\<rparr> (Some M) = Some s \<and>
           lexs s (Code, []) = Some (Code, [])))"
proof (intro conjI impI)
  show "\<forall>F. reachable U keep fs F \<longrightarrow> F \<in> set (prune U keep fs)" using reachable_kept by blast
  show "set (prune U keep fs) \<subseteq> set fs" using prune_result [of U keep fs] by blast
  show "\<forall>F \<in> set (prune U keep fs). isDeclaration F \<or> fun_name F \<in> set keep \<or> \<not> use_empty U (prune U keep fs) F"
    using prune_result [of U keep fs] unfolding keeps_def by blast
  assume h: "strips L \<and> hex_digits L \<and> ok_module n L M"
  let ?M = "if keep \<noteq> [] then M\<lparr>getFunctionList := prune U keep (getFunctionList M)\<rparr> else M"
  have "ok_module n L ?M"
    using h prune_result [of U keep "getFunctionList M"] by (auto simp: ok_module_def list_all_iff)
  then obtain s where s: "emitModule n L ?M = Some s" "balanced s" 
    using emitModule_good [of L n ?M] h unfolding good_iff by blast
  have "balanced emitPrelude" by (simp add: emitPrelude_def balanced_def)
  then have "balanced (emitPrelude @ s)" using s(2) by simp
  then show "\<exists>s. main_output n L U \<lparr>opt_globals = False, opt_symbols = False, opt_functions = keep\<rparr> (Some M) = Some s \<and>
      lexs s (Code, []) = Some (Code, [])"
    using s(1) by (intro exI [of _ "emitPrelude @ s"]) (cases keep; simp add: main_output_def Let_def cat_Cons balanced_def)
qed

definition demo_uses :: use_lists where
  "demo_uses = \<lparr>refers_to = (\<lambda>_. []), pinned = []\<rparr>"

theorem main_selects_functions_witness:
  "demo_function \<in> set (prune demo_uses [''inc''] (getFunctionList demo_module)) \<and>
   (\<exists>s. main_output 10 demo_api demo_uses \<lparr>opt_globals = False, opt_symbols = False, opt_functions = [''inc'']\<rparr>
         (Some demo_module) = Some s \<and> lexs s (Code, []) = Some (Code, []))"
proof -
  have "reachable demo_uses [''inc''] (getFunctionList demo_module) demo_function"
    by (rule reachable.root) (simp_all add: demo_module_def demo_function_def)
  then show ?thesis
    using main_selects_functions [of demo_uses "[''inc'']" "getFunctionList demo_module" demo_api 10 demo_module]
      demo_api_ok demo_module_ok by blast
qed

end
