(* ===== verification/Spec2Isabelle.thy ===== *)
theory Spec2Isabelle
  imports Llvm_Ni Klist Kern_Init Trap_Entry Boot Riscv_Decode Rosette_Main
begin

text \<open>
  CertiCore: a verification library for a small RISC-V teaching kernel whose page allocator is
  verified.

  \<^bold>\<open>The program.\<close> The kernel starts in \<open>kern_init\<close> (\<open>kern/init/init.c\<close>): it clears its variables,
  prints a greeting and the kernel's addresses (\<open>kern/debug/kdebug.c\<close>), sets the trap vector, sets up
  physical memory (\<open>kern/mm/pmm.c\<close>) with the first-fit page allocator (\<open>kern/mm/default_pmm.c\<close>), starts
  the timer (\<open>kern/driver/clock.c\<close>), switches interrupts on and idles. From then on the timer interrupt
  (\<open>kern/trap/trap.c\<close>) counts ticks. The allocator keeps one flag word per page, changed by bit
  operations (\<open>libs/atomic.h\<close>), and a counter of free pages; its entry points run with interrupts off
  (\<open>kern/sync/sync.h\<close>). Output goes through a formatter (\<open>libs/printfmt.c\<close>) to a console of firmware
  calls (\<open>kern/libs/stdio.c\<close>, \<open>kern/driver/console.c\<close>, \<open>libs/sbi.c\<close>); a panic ends in a line-oriented
  monitor (\<open>kern/debug/kmonitor.c\<close>, \<open>libs/readline.c\<close>). The repository proves the allocator against an
  executable specification (\<open>verif/llvm-spec.rkt\<close>) with a solver, for a build with five pages, and the
  timer interrupt of the binary against another (\<open>verif/riscv-spec.rkt\<close>). Two assembler files come
  before the C code: \<open>kern/init/entry.S\<close> switches on virtual memory, \<open>kern/trap/trapentry.S\<close> saves and
  restores registers around a trap. The solver reads the LLVM code of the allocator through a translator
  in C++ (\<open>racket/llvm-rosette\<close>).

  \<^bold>\<open>The theories.\<close> In the order of their dependencies:

  \<^item> \<open>CC_Prelude\<close>: the types (C integers as words), faults and the result type, the two builds of the
    sources (the kernel proper, and the one for the verifier with five pages and no output), counting
    loops with \<open>break\<close> and \<open>return\<close> and their invariant rules.
  \<^item> \<open>Atomic\<close>: the bit operations on arrays of words. Each changes exactly the bit it names; \<open>test_bit\<close>
    only works on the first word.
  \<^item> \<open>Memlayout\<close>: the constants of \<open>memlayout.h\<close>, page descriptors, flag macros, loops over pages.
  \<^item> \<open>Default_Pmm\<close>, \<open>Pmm_Spec\<close>, \<open>Pmm_Trace\<close>: the operations of the allocator with every guard and error
    code; a specification of first fit on sets of page numbers as the locale \<open>page_manager\<close>,
    interpreted on the code; runs of a client that frees only what it holds. Shown: refinement of the
    specification, the counter invariant, exact error codes, round trip of allocation and release,
    disjointness of live blocks.
  \<^item> \<open>Llvm_Spec\<close>, \<open>Llvm_Ni\<close>: the repository's own specification and isolation relation, the refinement
    and the invariant the solver is asked for, for both page counts, and non-interference over
    sequences of operations through the locale \<open>unwinding_system\<close>.
  \<^item> \<open>Mmu\<close>: Sv39 macros, rounding, conversions between pages and addresses (\<open>mmu.h\<close>, \<open>pmm.h\<close>, \<open>defs.h\<close>).
  \<^item> \<open>Klist\<close>: the doubly linked lists of \<open>libs/list.h\<close> over a store of entries, with the locale
    \<open>linked_rings\<close>.
  \<^item> \<open>Kstring\<close>: all of \<open>libs/string.c\<close> over a byte memory. Shown: functional behaviour, also for
    overlapping regions, wrap-around and missing terminators.
  \<^item> \<open>Machine\<close>: registers, firmware calls, console, interrupt flag, and critical sections as the locale
    \<open>interrupt_guard\<close>.
  \<^item> \<open>Printfmt\<close>: the formatter over an arbitrary output function (locale \<open>sink_simulation\<close>), \<open>snprintf\<close>.
    Shown: the text does not depend on the sink, buffers are not overrun, digits are right, and what
    \<open>%ld\<close> prints \<open>strtol\<close> reads back.
  \<^item> \<open>Stdio\<close>: \<open>cprintf\<close>, \<open>cputs\<close>, \<open>getchar\<close>, \<open>readline\<close>. Shown: output in order, line editing.
  \<^item> \<open>Pmm\<close>: the record \<open>kernel\<close> of all state, the wrappers, set-up of the page array, self-test,
    \<open>pmm_init\<close>. Shown: critical sections, the pages reserved are those of the image, the self-test
    passes and leaves no trace.
  \<^item> \<open>Trap\<close>: clock and trap handlers. Shown: every trap returns, what the timer interrupt does, the
    tick message, agreement with the timer specification of \<open>verif/riscv-spec.rkt\<close>.
  \<^item> \<open>Monitor\<close>: kernel monitor, panic and debugging output. Shown: splitting and dispatch of command
    lines, overrun of \<open>argv\<close> by the seventeenth word, panics do not return.
  \<^item> \<open>Kern_Init\<close>: \<open>kern_init\<close> and the running kernel as a transition system, whose invariant and
    progress come from the locales \<open>invariant_system\<close> and \<open>progressing_system\<close>. Shown: the start
    succeeds, and every interleaving of traps and allocator calls is safe and can go on.
  \<^item> \<open>Riscv_Asm\<close>, \<open>Trap_Entry\<close>, \<open>Boot\<close>: a machine with registers, stack, traps and \<open>sret\<close> on top of the
    state of the C code; the trap vector with the call of \<open>trap\<close> in the middle; the entry code, its page
    table and Sv39 translation. Shown: a trap restores every register and the program goes on where it
    was, the timer interrupt refines the specification of \<open>verif/riscv.rkt\<close> from vector to \<open>sret\<close>, and
    which addresses the boot page table maps.
  \<^item> \<open>Riscv_Encoding\<close>, \<open>Riscv_Decode\<close>: the tables of instructions, registers and fields in
    \<open>libs/riscv.h\<close>. Shown: by a decision tree over the fields of the formats, a word is at most one
    instruction except for listed overlaps; numbers of registers are distinct and carry their privilege.
  \<^item> \<open>Llvm_Ir\<close>, \<open>Rosette_Emitter\<close>, \<open>Racket_Text\<close>, \<open>Emitter_Blocks\<close>, \<open>Emitter_Text\<close>, \<open>Rosette_Main\<close>: the
    parts of an LLVM module the translator reads; every method of \<open>RosetteEmitter.cc\<close> as the text it
    prints; the reader of Racket for brackets, strings and comments; \<open>main.cc\<close>. Shown: translations are
    well formed and declare their values, layouts of variables are well-formed blocks, symbols do not
    overlap, byte strings survive, and the deletion of unreferenced functions ends and keeps what is
    reachable.

  \<^bold>\<open>Conventions.\<close> A C function is a function of its arguments and of the part of the state it uses and
  returns \<open>Inr\<close> of result and new state or \<open>Inl\<close> of a fault: an access out of range, an undefined
  shift, a call of a null pointer, a call that does not return, a panic. Integers are words of the
  C type's width, except field widths and counts of the formatter, which are unbounded integers.
  A call of \<open>panic\<close> or a failed \<open>assert\<close> in other components is the fault \<open>Panic\<close>; what \<open>__panic\<close>
  then does is modelled in \<open>Monitor\<close>. Names are those of the sources, with a suffix where the logic
  has the name already (\<open>set_bit_c\<close>, \<open>assert_c\<close>) and a prefix for the register fields of trap frames.

  \<^bold>\<open>Parameters.\<close> The firmware's answers, the readings of the clock and the addresses that the linker
  assigns are the record \<open>platform\<close>. Only \<open>readline\<close> needs a hypothesis about the firmware: it hands out
  the characters of the input one by one (\<open>delivers\<close>). The start needs that the kernel image lies in
  the kernel's memory and leaves five pages free. What compiled C code leaves in registers and on the
  stack is the record \<open>compiled\<close>, with one rule of the calling convention as hypothesis (\<open>keeps_stack\<close>).
  What LLVM computes for the translator is the record \<open>llvm_api\<close>, with hypotheses on single functions
  (\<open>strips\<close>, \<open>hex_digits\<close>, \<open>aligns\<close>, \<open>laid_out\<close>), and its use lists are \<open>use_lists\<close>.

  \<^bold>\<open>Loops.\<close> There is fuel in one place: \<open>emitLiftValue\<close> follows initialisers of global variables, which
  may be circular, and takes a bound on the depth; the theorems about modules ask that it suffices for
  the values at hand (\<open>ok_args\<close>). Counting loops have a measure. Loops that may not end are partial
  functions (\<open>strlen\<close>, \<open>getchar\<close>, \<open>readline_loop\<close>, \<open>kmonitor_loop\<close>), for which returning, or never
  returning, is a theorem. \<open>parse_loop\<close> ends because each iteration fills an entry of \<open>argv\<close>.

  \<^bold>\<open>Not modelled.\<close> The atomicity of the bit operations, the configuration \<open>DEBUG_GRADE\<close>, the
  third-party solver libraries in Racket under \<open>racket/\<close> and their tests, the solver set-up of \<open>verif/\<close>,
  LLVM itself, constants of \<open>libs/riscv.h\<close> for debuggers and devices, and the build system. Side
  effects of hardware beyond registers, memory translation, firmware calls and the clock are left out.
\<close>

end
